(* ===== verification/Prelude.thy ===== *)
theory Prelude
  imports Main "HOL-Library.Word"
begin

text \<open>
  What every other theory of the development shares: the types of the machine (bytes, 32-bit
  unsigned integers, \<open>size_t\<close>), the outcomes a run of C code can have, the commands that
  thread a state through such runs, and the collections of simplification rules that run them
  symbolically.

  An operation of the program is a function from a state to an \<^emph>\<open>outcome\<close>: it returns (a
  value and the new state), it does something the C standard or POSIX leaves undefined, it waits
  for a lock or a descriptor that nobody is going to make ready while it waits, its loop never
  ends, or it ends the process with \<open>exit\<close>. Nothing is left out of a type to make an error impossible: a dangling pointer, a buffer
  without its terminating zero and a lock that is released by a thread that does not hold it are
  all expressible, and the theorems say when they do not occur.
\<close>

section \<open>Machine types\<close>

type_synonym byte = "8 word"
type_synonym u32 = "32 word"
type_synonym size_t = "64 word"
type_synonym addr = nat
type_synonym tid = nat

text \<open>The values of a C \<open>int\<close>, which the model keeps as an integer.\<close>

abbreviation c_int :: "int \<Rightarrow> bool" where
  "c_int n \<equiv> - (2 ^ 31) \<le> n \<and> n < 2 ^ 31"

section \<open>Outcomes\<close>

datatype ub =
    Null_deref
  | Use_after_free
  | Out_of_bounds
  | Division_by_zero
  | Unlock_not_held
  | No_return_value
  | Uninitialised
  | Signed_overflow

datatype 'a outcome =
    Return 'a
  | Undefined ub
  | Blocked
  | Diverges
  | Exited int

fun obind :: "'a outcome \<Rightarrow> ('a \<Rightarrow> 'b outcome) \<Rightarrow> 'b outcome" where
  "obind (Return a) f = f a"
| "obind (Undefined u) f = Undefined u"
| "obind Blocked f = Blocked"
| "obind Diverges f = Diverges"
| "obind (Exited n) f = Exited n"

lemma obind_return [simp]: "obind m Return = m"
  by (cases m) auto

lemma obind_assoc: "obind (obind m f) g = obind m (\<lambda>a. obind (f a) g)"
  by (cases m) auto

lemma obind_eq_Return:
  "obind m f = Return b \<longleftrightarrow> (\<exists>a. m = Return a \<and> f a = Return b)"
  by (cases m) auto

section \<open>Commands: state passing with outcomes\<close>

type_synonym ('s, 'a) cmd = "'s \<Rightarrow> ('a \<times> 's) outcome"

definition cret :: "'a \<Rightarrow> ('s, 'a) cmd" where
  "cret a s = Return (a, s)"

definition cbind :: "('s, 'a) cmd \<Rightarrow> ('a \<Rightarrow> ('s, 'b) cmd) \<Rightarrow> ('s, 'b) cmd" where
  "cbind m f s = obind (m s) (\<lambda>(a, s'). f a s')"

definition cseq :: "('s, 'a) cmd \<Rightarrow> ('s, 'b) cmd \<Rightarrow> ('s, 'b) cmd" where
  "cseq m n = cbind m (\<lambda>_. n)"

definition cget :: "('s \<Rightarrow> 'a) \<Rightarrow> ('s, 'a) cmd" where
  "cget f s = Return (f s, s)"

definition cput :: "('s \<Rightarrow> 's) \<Rightarrow> ('s, unit) cmd" where
  "cput f s = Return ((), f s)"

definition clift :: "'a outcome \<Rightarrow> ('s, 'a) cmd" where
  "clift v s = obind v (\<lambda>a. Return (a, s))"

text \<open>The macro \<open>check(bool, ret, msg)\<close> of \<^verbatim>\<open>src/common.h\<close>: an early return.\<close>

definition check :: "bool \<Rightarrow> 'a \<Rightarrow> ('s, 'a) cmd \<Rightarrow> ('s, 'a) cmd" where
  "check b ret rest = (if b then cret ret else rest)"

definition cwhen :: "bool \<Rightarrow> ('s, unit) cmd \<Rightarrow> ('s, unit) cmd" where
  "cwhen b m = (if b then m else cret ())"

text \<open>
  The rules that run a command: \<open>cmd_run\<close> evaluates the primitive commands, and a sequence is
  run by running its first part. They are used as conditional rewrite rules, so that a fact about
  the first command of a sequence is enough for the simplifier to reach the second.
\<close>

named_theorems cmd_run \<open>symbolic execution of commands\<close>

lemma cret_run [cmd_run]: "cret a s = Return (a, s)"
  by (simp add: cret_def)

lemma cget_run [cmd_run]: "cget f s = Return (f s, s)"
  by (simp add: cget_def)

lemma cput_run [cmd_run]: "cput f s = Return ((), f s)"
  by (simp add: cput_def)

lemma clift_run [cmd_run]:
  "clift (Return a) s = Return (a, s)"
  "clift (Undefined u) s = Undefined u"
  "clift Blocked s = Blocked"
  "clift Diverges s = Diverges"
  "clift (Exited n) s = Exited n"
  by (simp_all add: clift_def)

lemma cwhen_run [cmd_run]:
  "b \<Longrightarrow> cwhen b m s = m s"
  "\<not> b \<Longrightarrow> cwhen b m s = Return ((), s)"
  by (simp_all add: cwhen_def cret_def)

lemma check_run [cmd_run]:
  "b \<Longrightarrow> check b ret rest s = Return (ret, s)"
  "\<not> b \<Longrightarrow> check b ret rest s = rest s"
  by (simp_all add: check_def cret_def)

lemma cbind_run [cmd_run]:
  "m s = Return (a, s') \<Longrightarrow> cbind m f s = f a s'"
  "m s = Undefined u \<Longrightarrow> cbind m f s = Undefined u"
  "m s = Blocked \<Longrightarrow> cbind m f s = Blocked"
  "m s = Diverges \<Longrightarrow> cbind m f s = Diverges"
  "m s = Exited n \<Longrightarrow> cbind m f s = Exited n"
  by (simp_all add: cbind_def)

lemma cbind_run_bool [cmd_run]:
  "m s = Return (True, s') \<Longrightarrow> cbind m f s = f True s'"
  "m s = Return (False, s') \<Longrightarrow> cbind m f s = f False s'"
  by (simp_all add: cbind_def)

lemma cseq_run [cmd_run]:
  "m s = Return (a, s') \<Longrightarrow> cseq m n s = n s'"
  "m s = Undefined u \<Longrightarrow> cseq m n s = Undefined u"
  "m s = Blocked \<Longrightarrow> cseq m n s = Blocked"
  "m s = Diverges \<Longrightarrow> cseq m n s = Diverges"
  "m s = Exited e \<Longrightarrow> cseq m n s = Exited e"
  by (simp_all add: cseq_def cbind_def)

lemma cbind_eq_Return:
  "cbind m f s = Return r \<longleftrightarrow> (\<exists>a s'. m s = Return (a, s') \<and> f a s' = Return r)"
  by (auto simp: cbind_def obind_eq_Return)

lemma cseq_eq_Return:
  "cseq m n s = Return r \<longleftrightarrow> (\<exists>a s'. m s = Return (a, s') \<and> n s' = Return r)"
  by (auto simp: cseq_def cbind_eq_Return)

lemma cbind_assoc: "cbind (cbind m f) g = cbind m (\<lambda>a. cbind (f a) g)"
  by (rule ext) (auto simp: cbind_def obind_assoc split: prod.splits intro!: arg_cong [where f = "obind _"])

section \<open>Arrays\<close>

definition array_get :: "'a list \<Rightarrow> nat \<Rightarrow> 'a outcome" where
  "array_get xs i = (if i < length xs then Return (xs ! i) else Undefined Out_of_bounds)"

lemma array_get_Return [simp]: "i < length xs \<Longrightarrow> array_get xs i = Return (xs ! i)"
  by (simp add: array_get_def)

section \<open>Refinement of operations\<close>

text \<open>
  Runs of several operations, concrete and abstract. The locale \<open>simulation\<close> is the contract of a
  component with a specification: \<open>rel\<close> relates its states to abstract ones, \<open>step\<close> handles an
  operation, \<open>spec\<close> says what it answers and how the abstract state changes, \<open>ok\<close> which
  operations are covered. What it gives its clients is that whole runs agree.
\<close>

fun run_all :: "('r \<Rightarrow> ('s, 'o) cmd) \<Rightarrow> 'r list \<Rightarrow> ('s, 'o list) cmd" where
  "run_all step [] = cret []"
| "run_all step (r # rs) = cbind (step r) (\<lambda>a. cbind (run_all step rs) (\<lambda>as. cret (a # as)))"

fun spec_all :: "('r \<Rightarrow> 'm \<Rightarrow> 'o \<times> 'm) \<Rightarrow> 'r list \<Rightarrow> 'm \<Rightarrow> 'o list \<times> 'm" where
  "spec_all spec [] m = ([], m)"
| "spec_all spec (r # rs) m =
     (fst (spec r m) # fst (spec_all spec rs (snd (spec r m))), snd (spec_all spec rs (snd (spec r m))))"

fun ok_all :: "('r \<Rightarrow> 'm \<Rightarrow> 'o \<times> 'm) \<Rightarrow> ('r \<Rightarrow> 'm \<Rightarrow> bool) \<Rightarrow> 'r list \<Rightarrow> 'm \<Rightarrow> bool" where
  "ok_all spec ok [] m = True"
| "ok_all spec ok (r # rs) m = (ok r m \<and> ok_all spec ok rs (snd (spec r m)))"

locale simulation =
  fixes rel :: "'s \<Rightarrow> 'm \<Rightarrow> bool"
    and step :: "'r \<Rightarrow> ('s, 'o) cmd"
    and spec :: "'r \<Rightarrow> 'm \<Rightarrow> 'o \<times> 'm"
    and ok :: "'r \<Rightarrow> 'm \<Rightarrow> bool"
  assumes step_refines:
    "rel s m \<Longrightarrow> ok r m \<Longrightarrow> \<exists>s'. step r s = Return (fst (spec r m), s') \<and> rel s' (snd (spec r m))"
begin

lemma run_refines:
  "rel s m \<Longrightarrow> ok_all spec ok rs m \<Longrightarrow>
     \<exists>s'. run_all step rs s = Return (fst (spec_all spec rs m), s') \<and> rel s' (snd (spec_all spec rs m))"
proof (induction rs arbitrary: s m)
  case Nil
  then show ?case by (simp add: cret_run)
next
  case (Cons r rs)
  from Cons.prems have "ok r m" and oks: "ok_all spec ok rs (snd (spec r m))" by simp_all
  from step_refines [OF Cons.prems(1) this(1)] obtain s1
    where s1: "step r s = Return (fst (spec r m), s1)" "rel s1 (snd (spec r m))" by blast
  from Cons.IH [OF s1(2) oks] s1(1) show ?case by (auto simp: cmd_run)
qed

end

section \<open>Generic lemmas\<close>

lemma distinct_length_le_bound:
  fixes as :: "nat list"
  assumes "distinct as" and "\<forall>a \<in> set as. a < n"
  shows "length as \<le> n"
proof -
  have "card (set as) \<le> card {..<n}"
    using assms(2) by (intro card_mono) auto
  then show ?thesis using assms(1) by (simp add: distinct_card)
qed

end
