(* ===== verification/C_Strings.thy ===== *)
theory C_Strings
  imports Prelude
begin

text \<open>
  The functions of \<open>string.h\<close> the program calls, on character buffers. A buffer is the list
  of the bytes of one C object, so reading past its end is \<^const>\<open>Out_of_bounds\<close>; a C string
  is what stands before the first zero byte of a buffer. \<open>char\<close> is signed on the platform the
  program is built for, which matters where a \<open>char\<close> is widened to \<open>int\<close>.

  \<open>cstr k buf\<close> says that \<open>buf\<close> holds the string \<open>k\<close>; the lemmas reduce \<open>strlen\<close>,
  \<open>strcmp\<close> and \<open>strncmp\<close> to equality and prefixes of such strings.
\<close>

section \<open>Buffers and strings\<close>

definition bytes :: "string \<Rightarrow> byte list" where
  "bytes cs = map of_char cs"

definition lit :: "string \<Rightarrow> byte list" where
  "lit cs = bytes cs @ [0]"

definition cstr :: "byte list \<Rightarrow> byte list \<Rightarrow> bool" where
  "cstr k buf \<longleftrightarrow> 0 \<notin> set k \<and> (\<exists>rest. buf = k @ 0 # rest)"

definition cstr_of :: "byte list \<Rightarrow> byte list" where
  "cstr_of buf = takeWhile (\<lambda>c. c \<noteq> 0) buf"

definition pad_to :: "nat \<Rightarrow> byte list \<Rightarrow> byte list" where
  "pad_to n bs = take n (bs @ replicate n 0)"

lemma cstr_cstr_of: "0 \<in> set buf \<Longrightarrow> cstr (cstr_of buf) buf"
proof -
  assume z: "0 \<in> set buf"
  then have "dropWhile (\<lambda>c. c \<noteq> 0) buf \<noteq> []" by simp
  then obtain x rest where d: "dropWhile (\<lambda>c. c \<noteq> 0) buf = x # rest"
    by (meson neq_Nil_conv)
  then have "x = 0" using hd_dropWhile [of "\<lambda>c. c \<noteq> 0" buf] by auto
  moreover have "buf = takeWhile (\<lambda>c. c \<noteq> 0) buf @ x # rest"
    using d by (metis takeWhile_dropWhile_id)
  moreover have "0 \<notin> set (takeWhile (\<lambda>c. c \<noteq> 0) buf)"
    by (auto dest: set_takeWhileD)
  ultimately show ?thesis unfolding cstr_def cstr_of_def by metis
qed

lemma cstr_of_cstr [simp]: "cstr k buf \<Longrightarrow> cstr_of buf = k"
proof -
  assume "cstr k buf"
  then obtain rest where buf: "buf = k @ 0 # rest" and nz: "0 \<notin> set k"
    by (auto simp: cstr_def)
  have "\<forall>c \<in> set k. c \<noteq> 0" using nz by auto
  then show ?thesis by (simp add: buf cstr_of_def takeWhile_append)
qed

lemma cstr_unique: "cstr k buf \<Longrightarrow> cstr k' buf \<Longrightarrow> k = k'"
  using cstr_of_cstr by blast

lemma cstr_Cons:
  "cstr k (c # buf) \<longleftrightarrow> (if c = 0 then k = [] else \<exists>k'. k = c # k' \<and> cstr k' buf)"
  by (cases k) (auto simp: cstr_def)

lemma not_cstr_Nil [simp]: "\<not> cstr k []"
  by (simp add: cstr_def)

lemma cstr_append_zero [simp]: "0 \<notin> set k \<Longrightarrow> cstr k (k @ 0 # rest)"
  by (auto simp: cstr_def)

lemma cstr_length: "cstr k buf \<Longrightarrow> length k < length buf"
  by (auto simp: cstr_def)

lemma cstr_take: "cstr k buf \<Longrightarrow> take (length k) buf = k"
  by (auto simp: cstr_def)

lemma cstr_no_zero: "cstr k buf \<Longrightarrow> 0 \<notin> set k"
  by (simp add: cstr_def)

lemma length_pad_to [simp]: "length (pad_to n bs) = n"
  by (simp add: pad_to_def)

lemma cstr_pad_to: "0 \<notin> set k \<Longrightarrow> length k < n \<Longrightarrow> cstr k (pad_to n k)"
proof -
  assume nz: "0 \<notin> set k" and len: "length k < n"
  have "pad_to n k = k @ 0 # replicate (n - length k - 1) 0"
    using len by (simp add: pad_to_def min_def flip: replicate_Suc)
  with nz show ?thesis by simp
qed

section \<open>\<open>strlen\<close>, \<open>strcmp\<close>, \<open>strncmp\<close>\<close>

fun strlen :: "byte list \<Rightarrow> nat outcome" where
  "strlen [] = Undefined Out_of_bounds"
| "strlen (c # cs) = (if c = 0 then Return 0 else obind (strlen cs) (\<lambda>n. Return (Suc n)))"

fun strcmp :: "byte list \<Rightarrow> byte list \<Rightarrow> int outcome" where
  "strcmp (a # s) (b # t) =
     (if a \<noteq> b then Return (uint a - uint b) else if a = 0 then Return 0 else strcmp s t)"
| "strcmp s t = Undefined Out_of_bounds"

fun strncmp :: "byte list \<Rightarrow> byte list \<Rightarrow> nat \<Rightarrow> int outcome" where
  "strncmp s t 0 = Return 0"
| "strncmp (a # s) (b # t) (Suc n) =
     (if a \<noteq> b then Return (uint a - uint b) else if a = 0 then Return 0 else strncmp s t n)"
| "strncmp s t (Suc n) = Undefined Out_of_bounds"

lemma strlen_cstr: "cstr k buf \<Longrightarrow> strlen buf = Return (length k)"
  by (induction buf arbitrary: k) (auto simp: cstr_Cons split: if_splits)

lemma uint_eq_byte [simp]:
  "uint (a :: byte) = uint b \<longleftrightarrow> a = b"
  "uint (a :: byte) = 0 \<longleftrightarrow> a = 0"
  by (auto simp: word_uint_eq_iff)

lemma strcmp_cstr:
  "cstr j s \<Longrightarrow> cstr k t \<Longrightarrow> \<exists>r. strcmp s t = Return r \<and> (r = 0 \<longleftrightarrow> j = k)"
  by (induction s t arbitrary: j k rule: strcmp.induct)
     (auto simp: cstr_Cons split: if_splits)

text \<open>
  \<open>strncmp\<close> with bound \<open>n\<close> compares the first \<open>n\<close> characters: two strings compare equal
  exactly when they agree after truncation to \<open>n\<close>.
\<close>

lemma strncmp_cstr:
  "cstr j s \<Longrightarrow> cstr k t \<Longrightarrow>
     \<exists>r. strncmp s t n = Return r \<and> (r = 0 \<longleftrightarrow> take n j = take n k)"
proof (induction s t n arbitrary: j k rule: strncmp.induct)
  case (2 a s b t n)
  show ?case
  proof (cases "a = b \<and> a \<noteq> 0")
    case True
    with "2.prems" obtain j' k' where "j = a # j'" "cstr j' s" "k = a # k'" "cstr k' t"
      by (auto simp: cstr_Cons)
    with "2.IH" [of j' k'] True show ?thesis by auto
  next
    case False
    with "2.prems" show ?thesis by (auto simp: cstr_Cons split: if_splits)
  qed
qed auto

text \<open>
  The two buffers need only be long enough: with at least \<open>n\<close> bytes or a terminating zero on
  either side, \<open>strncmp\<close> stays inside them.
\<close>

lemma strncmp_no_ub:
  "n \<le> length s \<or> 0 \<in> set s \<Longrightarrow> n \<le> length t \<or> 0 \<in> set t \<Longrightarrow>
     \<exists>r. strncmp s t n = Return r"
  by (induction s t n rule: strncmp.induct) auto

lemma strncmp_prefix:
  assumes "cstr j s" and "cstr k t"
  shows "\<exists>r. strncmp s t (length k) = Return r \<and> (r = 0 \<longleftrightarrow> take (length k) j = k)"
  using strncmp_cstr [OF assms, of "length k"] by simp

section \<open>\<open>memcpy\<close>\<close>

text \<open>
  \<open>memcpy dst src n\<close> is the destination buffer after the call. A call with \<open>n = 0\<close> copies
  nothing and touches neither buffer.
\<close>

definition memcpy :: "byte list \<Rightarrow> byte list \<Rightarrow> nat \<Rightarrow> byte list outcome" where
  "memcpy dst src n =
     (if n \<le> length dst \<and> n \<le> length src then Return (take n src @ drop n dst)
      else Undefined Out_of_bounds)"

lemma memcpy_Return:
  "n \<le> length dst \<Longrightarrow> n \<le> length src \<Longrightarrow> memcpy dst src n = Return (take n src @ drop n dst)"
  by (simp add: memcpy_def)

lemma memcpy_eq_Return:
  "memcpy dst src n = Return r \<longleftrightarrow>
     n \<le> length dst \<and> n \<le> length src \<and> r = take n src @ drop n dst"
  by (auto simp: memcpy_def)

section \<open>Decimal printing\<close>

text \<open>The \<open>%d\<close> conversion of \<open>sprintf\<close>: the decimal digits of an \<open>int\<close>.\<close>

fun decimal_nat :: "nat \<Rightarrow> byte list" where
  "decimal_nat n =
     (if n < 10 then [of_nat (48 + n)] else decimal_nat (n div 10) @ [of_nat (48 + n mod 10)])"

declare decimal_nat.simps [simp del]

definition decimal :: "int \<Rightarrow> byte list" where
  "decimal i = (if i < 0 then 45 # decimal_nat (nat (- i)) else decimal_nat (nat i))"

lemma digit_neq_zero: "d < 10 \<Longrightarrow> (of_nat (48 + d) :: byte) \<noteq> 0"
proof
  assume d: "d < 10" and z: "(of_nat (48 + d) :: byte) = 0"
  have "unat (of_nat (48 + d) :: byte) = 48 + d"
    using d by (simp add: unat_of_nat del: of_nat_add)
  with z show False by simp
qed

lemma decimal_nat_nonzero: "0 \<notin> set (decimal_nat n)"
proof (induction n rule: decimal_nat.induct)
  case (1 n)
  have last: "(of_nat (48 + n mod 10) :: byte) \<noteq> 0"
    by (rule digit_neq_zero) simp
  show ?case
  proof (cases "n < 10")
    case True
    then have "(of_nat (48 + n) :: byte) \<noteq> 0" by (rule digit_neq_zero)
    with True show ?thesis by (subst decimal_nat.simps) auto
  next
    case False
    with "1.IH" last show ?thesis by (subst decimal_nat.simps) auto
  qed
qed

lemma decimal_nonzero: "0 \<notin> set (decimal i)"
  by (simp add: decimal_def decimal_nat_nonzero)

lemma decimal_nat_length: "0 < k \<Longrightarrow> n < 10 ^ k \<Longrightarrow> length (decimal_nat n) \<le> k"
proof (induction n arbitrary: k rule: decimal_nat.induct)
  case (1 n)
  show ?case
  proof (cases "n < 10")
    case True
    with "1.prems" show ?thesis by (subst decimal_nat.simps) simp
  next
    case False
    have "k \<noteq> 1" using False "1.prems"(2) by auto
    with "1.prems"(1) obtain k' where k: "k = Suc k'" "0 < k'"
      by (cases k) auto
    have "n div 10 < 10 ^ k'"
      using "1.prems"(2) k(1) by (simp add: less_mult_imp_div_less mult.commute)
    from "1.IH" [OF False k(2) this] False k(1) show ?thesis
      by (subst decimal_nat.simps) simp
  qed
qed

lemma decimal_length: "\<bar>i\<bar> < 10 ^ 10 \<Longrightarrow> length (decimal i) \<le> 11"
  using decimal_nat_length [of 10 "nat \<bar>i\<bar>"]
  by (auto simp: decimal_def nat_less_iff)

end
