(* ===== verification/Common.thy ===== *)
theory Common
  imports C_Strings
begin

text \<open>
  \<^verbatim>\<open>src/common.h\<close> and \<^verbatim>\<open>src/common.c\<close>: the constants, the enumerations of
  connection types, request methods and response codes with their tables of names, the request and
  response structures that client and server exchange, and the conversions between enumerators and
  names. The macros and functions that only print are in \<open>Printing\<close>.

  The enumerations are declared finite (class \<open>enum\<close>), so a fact about every enumerator is
  checked by evaluation, and \<open>response_code\<close> is ordered by its numeric code as in C.
\<close>

section \<open>Constants\<close>

definition PORT :: nat where "PORT = 35304"
definition MSG_SIZE :: nat where "MSG_SIZE = 256"
definition KEY_SIZE :: nat where "KEY_SIZE = 64"

lemmas size_defs = MSG_SIZE_def KEY_SIZE_def

section \<open>Enumerations\<close>

datatype connection_type = TCP | RC | UC | UD

datatype request_method = UNK | SET | GET | DEL | PING | DUMP | RST | EXIT | SETOPT

datatype response_code =
  OK | KEY_ERROR | PARSING_ERROR | STORE_ERROR | SETOPT_ERROR | UNK_ERROR

definition connection_type_conversion :: "(connection_type \<times> byte list) list" where
  "connection_type_conversion =
     [(TCP, lit ''TCP''), (RC, lit ''RC''), (UC, lit ''UC''), (UD, lit ''UD'')]"

definition method_conversion :: "(request_method \<times> byte list) list" where
  "method_conversion =
     [(UNK, lit ''UNK''), (SET, lit ''SET''), (GET, lit ''GET''), (DEL, lit ''DEL''),
      (PING, lit ''PING''), (DUMP, lit ''DUMP''), (RST, lit ''RESET''), (EXIT, lit ''EXIT''),
      (SETOPT, lit ''SETOPT'')]"

text \<open>\<open>RESPONSE_CODES(X)\<close>: the numeric value, the enumerator and the text of each code.\<close>

definition RESPONSE_CODES :: "(int \<times> response_code \<times> byte list) list" where
  "RESPONSE_CODES =
     [(0, OK, lit ''OK''), (1, KEY_ERROR, lit ''KEY_ERROR''),
      (2, PARSING_ERROR, lit ''PARSING_ERROR''), (3, STORE_ERROR, lit ''STORE_ERROR''),
      (4, SETOPT_ERROR, lit ''SETOPT_ERROR''), (5, UNK_ERROR, lit ''UNK_ERROR'')]"

fun code_value :: "response_code \<Rightarrow> int" where
  "code_value OK = 0"
| "code_value KEY_ERROR = 1"
| "code_value PARSING_ERROR = 2"
| "code_value STORE_ERROR = 3"
| "code_value SETOPT_ERROR = 4"
| "code_value UNK_ERROR = 5"

text \<open>The enumerators of each type, as a list: the instances of class \<open>enum\<close>.\<close>

lemma all_connection_type: "(\<forall>t. P t) \<longleftrightarrow> P TCP \<and> P RC \<and> P UC \<and> P UD"
  by (metis connection_type.exhaust)

lemma ex_connection_type: "(\<exists>t. P t) \<longleftrightarrow> P TCP \<or> P RC \<or> P UC \<or> P UD"
  by (metis connection_type.exhaust)

lemma all_request_method:
  "(\<forall>m. P m) \<longleftrightarrow> P UNK \<and> P SET \<and> P GET \<and> P DEL \<and> P PING \<and> P DUMP \<and> P RST \<and> P EXIT \<and> P SETOPT"
  by (metis request_method.exhaust)

lemma ex_request_method:
  "(\<exists>m. P m) \<longleftrightarrow> P UNK \<or> P SET \<or> P GET \<or> P DEL \<or> P PING \<or> P DUMP \<or> P RST \<or> P EXIT \<or> P SETOPT"
  by (metis request_method.exhaust)

instantiation connection_type :: enum
begin

definition "enum_connection_type = [TCP, RC, UC, UD]"
definition "enum_all_connection_type P \<longleftrightarrow> P TCP \<and> P RC \<and> P UC \<and> P UD"
definition "enum_ex_connection_type P \<longleftrightarrow> P TCP \<or> P RC \<or> P UC \<or> P UD"

instance
proof
  show "(UNIV :: connection_type set) = set enum_class.enum"
    using connection_type.exhaust by (auto simp: enum_connection_type_def)
qed (simp_all add: enum_connection_type_def enum_all_connection_type_def
       enum_ex_connection_type_def all_connection_type ex_connection_type)

end

instantiation request_method :: enum
begin

definition "enum_request_method = [UNK, SET, GET, DEL, PING, DUMP, RST, EXIT, SETOPT]"
definition "enum_all_request_method P \<longleftrightarrow>
  P UNK \<and> P SET \<and> P GET \<and> P DEL \<and> P PING \<and> P DUMP \<and> P RST \<and> P EXIT \<and> P SETOPT"
definition "enum_ex_request_method P \<longleftrightarrow>
  P UNK \<or> P SET \<or> P GET \<or> P DEL \<or> P PING \<or> P DUMP \<or> P RST \<or> P EXIT \<or> P SETOPT"

instance
proof
  show "(UNIV :: request_method set) = set enum_class.enum"
    using request_method.exhaust by (auto simp: enum_request_method_def)
qed (simp_all add: enum_request_method_def enum_all_request_method_def
       enum_ex_request_method_def all_request_method ex_request_method)

end

instantiation response_code :: linorder
begin

definition "c \<le> d \<longleftrightarrow> code_value c \<le> code_value d"
definition "c < d \<longleftrightarrow> code_value c < code_value d"

lemma code_value_inject: "code_value c = code_value d \<longleftrightarrow> c = d"
  by (cases c; cases d) auto

instance
  by standard (auto simp: less_eq_response_code_def less_response_code_def code_value_inject)

end

section \<open>Requests and responses\<close>

text \<open>
  \<open>struct request\<close> and \<open>struct response\<close>. The two character arrays are the lists of their
  bytes; \<open>request_wf\<close> says that they have the sizes the structures give them.
\<close>

record request =
  req_client_id :: int
  req_method :: request_method
  req_key :: "byte list"
  req_msg :: "byte list"
  req_key_len :: size_t
  req_msg_len :: size_t
  req_connection_close :: int

record response =
  resp_code :: response_code
  resp_msg :: "byte list"
  resp_msg_len :: size_t

definition request_wf :: "request \<Rightarrow> bool" where
  "request_wf r \<longleftrightarrow> length (req_key r) = KEY_SIZE \<and> length (req_msg r) = MSG_SIZE"

definition response_wf :: "response \<Rightarrow> bool" where
  "response_wf r \<longleftrightarrow> length (resp_msg r) = MSG_SIZE"

definition zero_request :: request where
  "zero_request = \<lparr>req_client_id = 0, req_method = UNK, req_key = replicate KEY_SIZE 0,
     req_msg = replicate MSG_SIZE 0, req_key_len = 0, req_msg_len = 0, req_connection_close = 0\<rparr>"

definition zero_response :: response where
  "zero_response = \<lparr>resp_code = OK, resp_msg = replicate MSG_SIZE 0, resp_msg_len = 0\<rparr>"

lemma zero_request_wf [simp]: "request_wf zero_request"
  by (simp add: request_wf_def zero_request_def)

lemma zero_response_wf [simp]: "response_wf zero_response"
  by (simp add: response_wf_def zero_response_def)

section \<open>The strings of the benchmark\<close>

text \<open>The key and the value of operation \<open>count\<close> of a client, of \<^verbatim>\<open>src/benchmarking/instance.c\<close>.\<close>

definition benchmark_key :: "int \<Rightarrow> int \<Rightarrow> byte list" where
  "benchmark_key instance_nr count =
     bytes ''Key from instance '' @ decimal instance_nr @ bytes '' count '' @ decimal count"

definition benchmark_message :: "int \<Rightarrow> int \<Rightarrow> byte list" where
  "benchmark_message instance_nr count =
     bytes ''Message from instance '' @ decimal instance_nr @ bytes '' count '' @ decimal count"

section \<open>Conversions\<close>

fun method_to_enum_loop :: "(request_method \<times> byte list) list \<Rightarrow> byte list \<Rightarrow> request_method outcome" where
  "method_to_enum_loop [] str = Return UNK"
| "method_to_enum_loop ((val, name) # rest) str =
     obind (strcmp str name) (\<lambda>r. if r = 0 then Return val else method_to_enum_loop rest str)"

definition method_to_enum :: "byte list \<Rightarrow> request_method outcome" where
  "method_to_enum str = method_to_enum_loop method_conversion str"

fun code_msg :: "int \<Rightarrow> byte list" where
  "code_msg code =
     (case find (\<lambda>(n, c, text). code = n) RESPONSE_CODES of
        Some (n, c, text) \<Rightarrow> text
      | None \<Rightarrow> lit ''Unknown error'')"

fun method_to_str_loop :: "(request_method \<times> byte list) list \<Rightarrow> request_method \<Rightarrow> byte list" where
  "method_to_str_loop [] code = lit ''UNK''"
| "method_to_str_loop ((val, name) # rest) code =
     (if val = code then name else method_to_str_loop rest code)"

definition method_to_str :: "request_method \<Rightarrow> byte list" where
  "method_to_str code = method_to_str_loop method_conversion code"

fun connection_type_to_str_loop ::
  "(connection_type \<times> byte list) list \<Rightarrow> connection_type \<Rightarrow> byte list" where
  "connection_type_to_str_loop [] type = lit ''TCP''"
| "connection_type_to_str_loop ((val, name) # rest) type =
     (if val = type then name else connection_type_to_str_loop rest type)"

definition connection_type_to_str :: "connection_type \<Rightarrow> byte list" where
  "connection_type_to_str type = connection_type_to_str_loop connection_type_conversion type"

lemmas conversion_defs = method_to_enum_def method_to_str_def connection_type_to_str_def
  method_conversion_def connection_type_conversion_def RESPONSE_CODES_def lit_def bytes_def

lemma method_to_enum_to_str: "method_to_enum (method_to_str m) = Return m"
  by (cases m) (simp_all add: conversion_defs)

text \<open>
  A string that names no method is \<open>UNK\<close>; no string makes \<open>method_to_enum\<close> read outside
  its argument.
\<close>

lemma method_to_enum_loop_cstr:
  assumes "cstr k buf" and "\<forall>(v, name) \<in> set tab. cstr (cstr_of name) name"
  shows "method_to_enum_loop tab buf =
    Return (case find (\<lambda>(v, name). cstr_of name = k) tab of Some (v, name) \<Rightarrow> v | None \<Rightarrow> UNK)"
  using assms(2)
proof (induction tab)
  case Nil
  show ?case by simp
next
  case (Cons e tab)
  obtain v name where e: "e = (v, name)" by (cases e)
  from Cons.prems e have "cstr (cstr_of name) name" by simp
  from strcmp_cstr [OF assms(1) this] obtain r
    where "strcmp buf name = Return r" "r = 0 \<longleftrightarrow> k = cstr_of name" by blast
  with Cons e show ?case by auto
qed

text \<open>
  Method names and enumerators convert into each other.\<close>

lemma method_names_roundtrip:
  "method_to_enum (method_to_str m) = Return m"
  by (rule method_to_enum_to_str)

end
