(* ===== verification/External.thy ===== *)
theory External
  imports Common
begin

text \<open>
  The world outside the program: the operating system, \<^verbatim>\<open>libibverbs\<close> and \<^verbatim>\<open>librdmacm\<close>. Their
  code is not part of the repository. A run of the program is therefore relative to a \<^emph>\<open>script\<close>: the
  list of the replies its external calls will get, in the order of the calls. A script is arbitrary
  (every theorem holds for all scripts, or says which scripts it is about), and a call for which
  the script has no reply left never returns: \<^const>\<open>Blocked\<close>. Calls and replies are recorded in a
  trace, over which the theorems state what the program does to the outside.

  \<open>rx\<close> is the memory the outside writes to: the buffers into which \<open>read\<close> and the network card put
  messages. A reply carries, in \<open>rep_dma\<close>, what has been written there by the time the call returns.
  \<open>'t\<close> is the type of the messages a side sends, \<open>'m\<close> of those it receives.
\<close>

section \<open>Types of the verbs interface\<close>

text \<open>\<open>struct qp_attr\<close> of \<^verbatim>\<open>src/rdma_common.h\<close>, which the two sides exchange over a socket.\<close>

record qp_attr =
  gid_global_interface_id :: "64 word"
  gid_global_subnet_prefix :: "64 word"
  qa_client_id :: int
  qa_lid :: int
  qa_qpn :: u32
  qa_psn :: int

datatype qp_type = IBV_QPT_RC | IBV_QPT_UC | IBV_QPT_UD

datatype qp_state = IBV_QPS_INIT | IBV_QPS_RTR | IBV_QPS_RTS

datatype qp_mask =
    IBV_QP_STATE | IBV_QP_PKEY_INDEX | IBV_QP_PORT | IBV_QP_QKEY | IBV_QP_ACCESS_FLAGS
  | IBV_QP_AV | IBV_QP_PATH_MTU | IBV_QP_DEST_QPN | IBV_QP_RQ_PSN | IBV_QP_SQ_PSN

datatype cm_event_type =
    RDMA_CM_EVENT_ADDR_RESOLVED | RDMA_CM_EVENT_ROUTE_RESOLVED | RDMA_CM_EVENT_CONNECT_REQUEST
  | RDMA_CM_EVENT_ESTABLISHED | RDMA_CM_EVENT_DISCONNECTED | RDMA_CM_EVENT_OTHER nat

datatype access = IBV_ACCESS_LOCAL_WRITE | IBV_ACCESS_REMOTE_READ | IBV_ACCESS_REMOTE_WRITE

record qp_init_attr =
  max_recv_sge :: nat
  max_recv_wr :: nat
  max_send_sge :: nat
  max_send_wr :: nat
  init_qp_type :: qp_type
  init_recv_cq :: int
  init_send_cq :: int

text \<open>The fields of \<open>struct ibv_qp_attr\<close> the program sets; the others are zero.\<close>

record qp_mod =
  mod_state :: qp_state
  mod_port :: nat
  mod_qkey :: u32
  mod_path_mtu :: nat
  mod_dest_qpn :: u32
  mod_rq_psn :: int
  mod_sq_psn :: int
  mod_dlid :: int

definition qp_mod0 :: "qp_state \<Rightarrow> qp_mod" where
  "qp_mod0 st = \<lparr>mod_state = st, mod_port = 0, mod_qkey = 0, mod_path_mtu = 0, mod_dest_qpn = 0,
     mod_rq_psn = 0, mod_sq_psn = 0, mod_dlid = 0\<rparr>"

text \<open>A work completion: its status (0 is \<open>IBV_WC_SUCCESS\<close>) and whether it is of a receive.\<close>

record wc =
  wc_status :: int
  wc_recv :: bool

section \<open>Calls and replies\<close>

text \<open>
  Pointers the outside hands out (devices, domains, queues) are numbers, 0 for \<open>NULL\<close>. A receive
  buffer is named by its index in \<open>rx\<close>. \<open>Post_send\<close> carries the message as it is when the request
  is posted, and for datagrams the address handle and queue pair number.
\<close>

datatype socket_call =
    Socket | Setsockopt int | Getsockopt int | Bind int | Getsockname int | Listen int nat
  | Accept int | Connect int | Select int | Close int | Getaddrinfo | Gettimeofday | Ignore_sigpipe
  | Rand | Sleep nat | Usleep nat | Pthread_create int | Open_file "8 word list"

datatype verbs_call =
    Get_device_list | Open_device int | Query_gid int | Query_port int | Alloc_pd int
  | Create_comp_channel int | Create_cq int nat int | Create_qp int qp_init_attr
  | Modify_qp int qp_mod "qp_mask list" | Reg_mr int nat "access list" | Dereg_mr int
  | Create_ah int int | Destroy_cq int | Destroy_comp_channel int | Dealloc_pd int

datatype cm_call =
    Create_event_channel | Create_id int | Bind_addr int | Rdma_listen int nat | Rdma_accept int
  | Rdma_connect int | Resolve_addr int nat | Resolve_route int nat | Get_cm_event int | Ack_cm_event
  | Rdma_create_qp int int qp_init_attr | Rdma_disconnect int | Rdma_destroy_qp int
  | Rdma_destroy_id int | Destroy_event_channel int

datatype 't call =
    Sys socket_call
  | Verbs verbs_call
  | CM cm_call
  | Read_message int nat
  | Write_message int 't
  | Read_qp_attr int
  | Write_qp_attr int qp_attr
  | Post_recv int nat nat nat
  | Post_send int nat nat 't "(int \<times> u32) option"
  | Req_notify_cq int
  | Poll_cq int nat
  | Get_cq_event int
  | Ack_cq_events int

record 'm reply =
  rep_ret :: int
  rep_errno :: int
  rep_num :: int
  rep_wcs :: "wc list"
  rep_event :: "int \<times> cm_event_type"
  rep_time :: "64 word \<times> 64 word"
  rep_attr :: qp_attr
  rep_dma :: "(nat \<times> 'm) list"

definition zero_attr :: qp_attr where
  "zero_attr = \<lparr>gid_global_interface_id = 0, gid_global_subnet_prefix = 0, qa_client_id = 0,
     qa_lid = 0, qa_qpn = 0, qa_psn = 0\<rparr>"

text \<open>A reply that is just a return value.\<close>

definition returned :: "int \<Rightarrow> 'm reply" where
  "returned n = \<lparr>rep_ret = n, rep_errno = 0, rep_num = 0, rep_wcs = [],
     rep_event = (0, RDMA_CM_EVENT_OTHER 0), rep_time = (0, 0), rep_attr = zero_attr, rep_dma = []\<rparr>"

section \<open>Making a call\<close>

record ('t, 'm) io =
  script :: "'m reply list"
  trace :: "('t call \<times> 'm reply) list"
  rx :: "'m list"
  errno :: int

text \<open>
  A write to a buffer that is not registered is refused by the card. \<open>errno\<close> after a call is what
  the reply says.
\<close>

fun dma :: "(nat \<times> 'm) list \<Rightarrow> 'm list \<Rightarrow> 'm list" where
  "dma [] b = b"
| "dma ((i, m) # ws) b = dma ws (b[i := m])"

definition ext :: "'t call \<Rightarrow> (('t, 'm, 'z) io_scheme, 'm reply) cmd" where
  "ext c s =
     (case script s of
        [] \<Rightarrow> Blocked
      | r # rs \<Rightarrow> Return (r, s\<lparr>script := rs, trace := trace s @ [(c, r)], rx := dma (rep_dma r) (rx s),
                               errno := rep_errno r\<rparr>))"

text \<open>A call whose result the program ignores, and \<open>exit\<close>.\<close>

definition ext_ignored :: "'t call \<Rightarrow> (('t, 'm, 'z) io_scheme, unit) cmd" where
  "ext_ignored c = cbind (ext c) (\<lambda>_. cret ())"

definition exit_process :: "int \<Rightarrow> ('s, 'a) cmd" where
  "exit_process n s = Exited n"

definition EXIT_FAILURE :: int where "EXIT_FAILURE = 1"
definition EXIT_SUCCESS :: int where "EXIT_SUCCESS = 0"

text \<open>\<open>-errno\<close>, as the macro \<open>check\<close> is called with it.\<close>

definition neg_errno :: "('t, 'm, 'z) io_scheme \<Rightarrow> int" where
  "neg_errno s = - errno s"

text \<open>\<open>check(b, -errno, msg)\<close>.\<close>

definition check_errno ::
  "bool \<Rightarrow> (('t, 'm, 'z) io_scheme, int) cmd \<Rightarrow> (('t, 'm, 'z) io_scheme, int) cmd" where
  "check_errno b rest = (if b then cget neg_errno else rest)"

lemma length_dma [simp]: "length (dma ws b) = length b"
  by (induction ws b rule: dma.induct) auto

lemma ext_run [cmd_run]:
  "script s = r # rs \<Longrightarrow>
     ext c s = Return (r, s\<lparr>script := rs, trace := trace s @ [(c, r)], rx := dma (rep_dma r) (rx s),
                            errno := rep_errno r\<rparr>)"
  "script s = [] \<Longrightarrow> ext c s = Blocked"
  by (simp_all add: ext_def)

lemma ext_ignored_run [cmd_run]:
  "script s = r # rs \<Longrightarrow>
     ext_ignored c s = Return ((), s\<lparr>script := rs, trace := trace s @ [(c, r)], rx := dma (rep_dma r) (rx s),
                             errno := rep_errno r\<rparr>)"
  "script s = [] \<Longrightarrow> ext_ignored c s = Blocked"
  by (simp_all add: ext_ignored_def cmd_run)

lemma check_errno_run [cmd_run]:
  "b \<Longrightarrow> check_errno b rest s = Return (- errno s, s)"
  "\<not> b \<Longrightarrow> check_errno b rest s = rest s"
  by (simp_all add: check_errno_def neg_errno_def cmd_run)

lemma exit_run [cmd_run]: "exit_process n s = Exited n"
  by (simp add: exit_process_def)

text \<open>
  The calls a run makes: what it appends to the trace. Every command of the program built from
  \<open>ext\<close> consumes the script exactly as it extends the trace.
\<close>

definition new_calls :: "('t, 'm, 'z) io_scheme \<Rightarrow> ('t, 'm, 'z) io_scheme \<Rightarrow> ('t call \<times> 'm reply) list" where
  "new_calls s s' = drop (length (trace s)) (trace s')"

definition consumes :: "('t, 'm, 'z) io_scheme \<Rightarrow> ('t, 'm, 'z) io_scheme \<Rightarrow> bool" where
  "consumes s s' \<longleftrightarrow>
     (\<exists>new. trace s' = trace s @ new \<and> script s = map snd new @ script s')"

lemma consumes_refl [simp]: "consumes s s"
  by (simp add: consumes_def)

lemma consumes_trans: "consumes s t \<Longrightarrow> consumes t u \<Longrightarrow> consumes s u"
  by (auto simp: consumes_def)

lemma consumes_length: "consumes s t \<Longrightarrow> length (script t) \<le> length (script s)"
  by (auto simp: consumes_def)

lemma ext_consumes: "ext c s = Return (r, s') \<Longrightarrow> consumes s s' \<and> length (script s') < length (script s)"
  by (auto simp: ext_def consumes_def split: list.splits)

end
