(* ===== verification/RDMA_Common.thy ===== *)
theory RDMA_Common
  imports External
begin

text \<open>
  \<^verbatim>\<open>src/rdma_common.h\<close> and \<^verbatim>\<open>src/rdma_common.c\<close>: waiting for work completions, with and without
  a timeout, waiting for a connection management event, posting work requests, registering buffers
  and bringing a queue pair to its states. The polling loops end with the script: a loop the outside
  never satisfies is \<^const>\<open>Blocked\<close>, never \<^const>\<open>Diverges\<close>.
\<close>

section \<open>Constants\<close>

definition CQ_CAPACITY :: nat where "CQ_CAPACITY = 16"
definition MAX_SGE :: nat where "MAX_SGE = 2"
definition MAX_WR :: nat where "MAX_WR = 8"
definition IB_PHYS_PORT :: nat where "IB_PHYS_PORT = 1"
definition MAX_POLL_CQ_TIMEOUT :: "64 word" where "MAX_POLL_CQ_TIMEOUT = 100"
definition QKEY :: u32 where "QKEY = 0x11111111"

text \<open>\<open>sizeof\<close> of the structures that travel (fields aligned to their size, \<open>sizeof (int)\<close> being
  4 and \<open>size_t\<close> 8 bytes; \<open>enum\<close> is an \<open>int\<close>), and the errors of \<open>errno.h\<close>.\<close>

definition sizeof_request :: nat where "sizeof_request = 352"
definition sizeof_response :: nat where "sizeof_response = 272"
definition sizeof_qp_attr :: nat where "sizeof_qp_attr = 32"
definition sizeof_grh :: nat where "sizeof_grh = 40"
definition sizeof_ud_request :: nat where "sizeof_ud_request = sizeof_grh + sizeof_request"
definition sizeof_ud_response :: nat where "sizeof_ud_response = sizeof_grh + sizeof_response"

definition EINVAL :: int where "EINVAL = 22"
definition ENOMEM :: int where "ENOMEM = 12"

section \<open>Memory regions\<close>

definition rdma_buffer_register ::
  "int \<Rightarrow> nat \<Rightarrow> access list \<Rightarrow> (('t, 'm, 'z) io_scheme, int) cmd" where
  "rdma_buffer_register pd len permission =
     check (pd = 0) 0 (
     cbind (ext (Verbs (Reg_mr pd len permission))) (\<lambda>r.
     check (rep_ret r = 0) 0 (
     cret (rep_ret r))))"

definition rdma_buffer_deregister :: "int \<Rightarrow> (('t, 'm, 'z) io_scheme, unit) cmd" where
  "rdma_buffer_deregister mr = (if mr = 0 then cret () else ext_ignored (Verbs (Dereg_mr mr)))"

section \<open>Connection management events\<close>

text \<open>The event is returned with the result; \<open>rep_num\<close> of the reply is its connection id.\<close>

definition process_rdma_cm_event ::
  "int \<Rightarrow> cm_event_type \<Rightarrow> (('t, 'm, 'z) io_scheme, int \<times> int) cmd" where
  "process_rdma_cm_event echannel expected_event =
     cbind (ext (CM (Get_cm_event echannel))) (\<lambda>r.
     if rep_ret r \<noteq> 0 then cbind (cget neg_errno) (\<lambda>e. cret (e, 0))
     else (case rep_event r of (status, event) \<Rightarrow>
       if status \<noteq> 0 then cseq (ext_ignored (CM Ack_cm_event)) (cret (- status, rep_num r))
       else if event \<noteq> expected_event then cseq (ext_ignored (CM Ack_cm_event)) (cret (- 1, rep_num r))
       else cret (rep_ret r, rep_num r)))"

section \<open>Work completions\<close>

text \<open>
  The polling loop: ask for the completions still missing until \<open>max_wc\<close> are there. The result is
  the negative return value of a failed poll, or the completions. \<open>fuel\<close> bounds the polls; the
  functions below pass one more than the script has replies.
\<close>

fun poll_loop ::
  "nat \<Rightarrow> int \<Rightarrow> nat \<Rightarrow> wc list \<Rightarrow> int \<Rightarrow> (('t, 'm, 'z) io_scheme, int + (wc list \<times> int)) cmd" where
  "poll_loop 0 cq max_wc wcs total_wc = (\<lambda>s. Diverges)"
| "poll_loop (Suc fuel) cq max_wc wcs total_wc =
     cbind (ext (Poll_cq cq (nat (int max_wc - total_wc)))) (\<lambda>r.
     if rep_ret r < 0 then cret (Inl (rep_ret r))
     else if total_wc + rep_ret r < int max_wc
       then poll_loop fuel cq max_wc (wcs @ rep_wcs r) (total_wc + rep_ret r)
     else cret (Inr (wcs @ rep_wcs r, total_wc + rep_ret r)))"

text \<open>The loop over the completions: the first bad status is returned, negated.\<close>

fun check_status :: "wc list \<Rightarrow> int option" where
  "check_status [] = None"
| "check_status (w # ws) = (if wc_status w \<noteq> 0 then Some (- wc_status w) else check_status ws)"

definition process_work_completion_events ::
  "int \<Rightarrow> nat \<Rightarrow> int \<Rightarrow> bool \<Rightarrow> (('t, 'm, 'z) io_scheme, int) cmd" where
  "process_work_completion_events comp_channel max_wc cq_ptr blocking =
     (let poll = (\<lambda>cq. cbind (\<lambda>s. poll_loop (Suc (length (script s))) cq max_wc [] 0 s) (\<lambda>res.
        case res of
          Inl ret \<Rightarrow> cret ret
        | Inr (wcs, total_wc) \<Rightarrow>
            (case check_status wcs of
               Some ret \<Rightarrow> cret ret
             | None \<Rightarrow> cseq (cwhen blocking (ext_ignored (Ack_cq_events cq))) (cret total_wc))))
      in if blocking then
           cbind (ext (Get_cq_event comp_channel)) (\<lambda>r.
           check_errno (rep_ret r \<noteq> 0) (
           cbind (ext (Req_notify_cq (rep_num r))) (\<lambda>r'.
           check_errno (rep_ret r' \<noteq> 0) (
           poll (rep_num r)))))
         else poll cq_ptr)"

text \<open>
  The same with a timeout: the loop also ends when 100 milliseconds have passed between the start
  and the time after a poll, in unsigned 64-bit arithmetic.
\<close>

definition msec :: "64 word \<times> 64 word \<Rightarrow> 64 word" where
  "msec t = fst t * 1000 + snd t div 1000"

fun timed_loop ::
  "nat \<Rightarrow> int \<Rightarrow> nat \<Rightarrow> 64 word \<Rightarrow> wc list \<Rightarrow> int \<Rightarrow>
     (('t, 'm, 'z) io_scheme, int + (wc list \<times> int)) cmd" where
  "timed_loop 0 cq max_wc start wcs total_wc = (\<lambda>s. Diverges)"
| "timed_loop (Suc fuel) cq max_wc start wcs total_wc =
     cbind (ext (Poll_cq cq (nat (int max_wc - total_wc)))) (\<lambda>r.
     if rep_ret r < 0 then cret (Inl (rep_ret r))
     else
       cbind (ext (Sys Gettimeofday)) (\<lambda>now.
       if total_wc + rep_ret r < int max_wc \<and> msec (rep_time now) - start < MAX_POLL_CQ_TIMEOUT
         then timed_loop fuel cq max_wc start (wcs @ rep_wcs r) (total_wc + rep_ret r)
       else cret (Inr (wcs @ rep_wcs r, total_wc + rep_ret r))))"

definition process_work_completion_events_with_timeout ::
  "nat \<Rightarrow> int \<Rightarrow> int \<Rightarrow> bool \<Rightarrow> (('t, 'm, 'z) io_scheme, int) cmd" where
  "process_work_completion_events_with_timeout max_wc cq_ptr comp_channel blocking =
     (let poll = (\<lambda>cq.
        cbind (ext (Sys Gettimeofday)) (\<lambda>t.
        cbind (\<lambda>s. timed_loop (Suc (length (script s))) cq max_wc (msec (rep_time t)) [] 0 s) (\<lambda>res.
        case res of
          Inl ret \<Rightarrow> cret ret
        | Inr (wcs, total_wc) \<Rightarrow>
            (case check_status wcs of
               Some ret \<Rightarrow> cret ret
             | None \<Rightarrow> cseq (cwhen blocking (ext_ignored (Ack_cq_events cq))) (cret total_wc)))))
      in if blocking then
           cbind (ext (Get_cq_event comp_channel)) (\<lambda>r.
           check_errno (rep_ret r \<noteq> 0) (
           cbind (ext (Req_notify_cq (rep_num r))) (\<lambda>r'.
           check_errno (rep_ret r' \<noteq> 0) (
           poll (rep_num r)))))
         else poll cq_ptr)"

section \<open>Posting work requests\<close>

definition post_recieve :: "nat \<Rightarrow> nat \<Rightarrow> int \<Rightarrow> nat \<Rightarrow> (('t, 'm, 'z) io_scheme, int) cmd" where
  "post_recieve sz wr_id qp buf =
     cbind (ext (Post_recv qp wr_id buf sz)) (\<lambda>r. cret (rep_ret r))"

definition post_send :: "nat \<Rightarrow> nat \<Rightarrow> int \<Rightarrow> 't \<Rightarrow> (('t, 'm, 'z) io_scheme, int) cmd" where
  "post_send sz wr_id qp buf =
     cbind (ext (Post_send qp wr_id sz buf None)) (\<lambda>r. cret (rep_ret r))"

definition ud_post_send ::
  "nat \<Rightarrow> nat \<Rightarrow> int \<Rightarrow> 't \<Rightarrow> int \<Rightarrow> u32 \<Rightarrow> (('t, 'm, 'z) io_scheme, int) cmd" where
  "ud_post_send sz wr_id qp buf ah qpn =
     cbind (ext (Post_send qp wr_id sz buf (Some (ah, qpn)))) (\<lambda>r. cret (rep_ret r))"

section \<open>The states of a queue pair\<close>

text \<open>
  \<open>ud_set_init_qp\<close> and \<open>connect_qp\<close> end without a \<open>return\<close> when every call succeeds: their value is
  then \<^const>\<open>None\<close>, and using it is undefined. The packet numbers of the attributes become \<open>uint32_t\<close>,
  the \<open>lid\<close> an \<open>uint16_t\<close>.
\<close>

definition ud_set_init_qp :: "int \<Rightarrow> (('t, 'm, 'z) io_scheme, int option) cmd" where
  "ud_set_init_qp qp =
     cbind (ext (Verbs (Modify_qp qp ((qp_mod0 IBV_QPS_INIT)\<lparr>mod_port := IB_PHYS_PORT, mod_qkey := QKEY\<rparr>)
                  [IBV_QP_STATE, IBV_QP_PKEY_INDEX, IBV_QP_PORT, IBV_QP_QKEY]))) (\<lambda>r.
     check (rep_ret r \<noteq> 0) (Some (rep_ret r)) (
     cret None))"

definition ud_set_rts_qp :: "int \<Rightarrow> int \<Rightarrow> (('t, 'm, 'z) io_scheme, int) cmd" where
  "ud_set_rts_qp qp psn =
     cbind (ext (Verbs (Modify_qp qp (qp_mod0 IBV_QPS_RTR) [IBV_QP_STATE]))) (\<lambda>r.
     check (rep_ret r \<noteq> 0) (rep_ret r) (
     cbind (ext (Verbs (Modify_qp qp ((qp_mod0 IBV_QPS_RTS)\<lparr>mod_sq_psn := psn mod 2 ^ 32\<rparr>)
                  [IBV_QP_STATE, IBV_QP_SQ_PSN]))) (\<lambda>r.
     check (rep_ret r \<noteq> 0) (rep_ret r) (
     cret 0))))"

definition uc_set_init_qp :: "int \<Rightarrow> (('t, 'm, 'z) io_scheme, int) cmd" where
  "uc_set_init_qp qp =
     cbind (ext (Verbs (Modify_qp qp ((qp_mod0 IBV_QPS_INIT)\<lparr>mod_port := IB_PHYS_PORT\<rparr>)
                  [IBV_QP_STATE, IBV_QP_PKEY_INDEX, IBV_QP_PORT, IBV_QP_ACCESS_FLAGS]))) (\<lambda>r.
     check (rep_ret r \<noteq> 0) (rep_ret r) (
     cret (rep_ret r)))"

text \<open>A 16-bit result; \<open>rep_num\<close> of the reply is the \<open>lid\<close> of the port.\<close>

definition get_local_lid :: "int \<Rightarrow> (('t, 'm, 'z) io_scheme, int) cmd" where
  "get_local_lid context =
     cbind (ext (Verbs (Query_port context))) (\<lambda>r.
     if rep_ret r \<noteq> 0 then cret 0 else cret (rep_num r mod 2 ^ 16))"

definition IBV_MTU_4096 :: nat where "IBV_MTU_4096 = 5"

definition connect_qp ::
  "int \<Rightarrow> qp_attr \<Rightarrow> qp_attr \<Rightarrow> (('t, 'm, 'z) io_scheme, int option) cmd" where
  "connect_qp conn_qp local remote =
     cbind (ext (Verbs (Modify_qp conn_qp
                  ((qp_mod0 IBV_QPS_RTR)\<lparr>mod_path_mtu := IBV_MTU_4096, mod_dest_qpn := qa_qpn remote,
                     mod_rq_psn := qa_psn remote mod 2 ^ 32, mod_dlid := qa_lid remote mod 2 ^ 16,
                     mod_port := IB_PHYS_PORT\<rparr>)
                  [IBV_QP_STATE, IBV_QP_AV, IBV_QP_PATH_MTU, IBV_QP_DEST_QPN, IBV_QP_RQ_PSN]))) (\<lambda>r.
     check (rep_ret r \<noteq> 0) (Some (rep_ret r)) (
     cbind (ext (Verbs (Modify_qp conn_qp ((qp_mod0 IBV_QPS_RTS)\<lparr>mod_sq_psn := qa_psn local mod 2 ^ 32\<rparr>)
                  [IBV_QP_STATE, IBV_QP_SQ_PSN]))) (\<lambda>r.
     check (rep_ret r \<noteq> 0) (Some (rep_ret r)) (
     cret None))))"

text \<open>
  \<open>addr\<close> stores the address where the caller wants it. Of an address only the port is represented:
  \<open>rep_num\<close> of the reply.
\<close>

definition get_addr :: "(int \<Rightarrow> (('t, 'm, 'z) io_scheme, unit) cmd) \<Rightarrow> (('t, 'm, 'z) io_scheme, int) cmd" where
  "get_addr addr =
     cbind (ext (Sys Getaddrinfo)) (\<lambda>r.
     check (rep_ret r \<noteq> 0) (rep_ret r) (
     cseq (addr (rep_num r)) (
     cret (rep_ret r))))"

section \<open>Pieces the transports share\<close>

text \<open>
  Following a pointer that may never have been set, and \<open>mr->lkey\<close>: the key of a memory region, which
  is what registers the buffer with the card. The region is not named in the work requests of the
  model; what matters is that it is there.
\<close>

definition pointee :: "'a option \<Rightarrow> ('s, 'a) cmd" where
  "pointee p = (case p of None \<Rightarrow> (\<lambda>s. Undefined Uninitialised) | Some a \<Rightarrow> cret a)"

definition lkey :: "int \<Rightarrow> ('s, unit) cmd" where
  "lkey mr = (if mr = 0 then (\<lambda>s. Undefined Null_deref) else cret ())"

lemma lkey_run [cmd_run]:
  "mr \<noteq> 0 \<Longrightarrow> lkey mr s = Return ((), s)"
  "mr = 0 \<Longrightarrow> lkey mr s = Undefined Null_deref"
  by (simp_all add: lkey_def cmd_run)

lemma pointee_run [cmd_run]:
  "pointee (Some a) s = Return (a, s)"
  "pointee None s = Undefined Uninitialised"
  by (simp_all add: pointee_def cmd_run)

text \<open>
  The attributes of a queue pair of a connected transport; one completion queue serves both directions.
\<close>

definition connected_qp_init_attr :: "qp_type \<Rightarrow> int \<Rightarrow> qp_init_attr" where
  "connected_qp_init_attr ty cq =
     \<lparr>max_recv_sge = MAX_SGE, max_recv_wr = MAX_WR, max_send_sge = MAX_SGE, max_send_wr = MAX_WR,
      init_qp_type = ty, init_recv_cq = cq, init_send_cq = cq\<rparr>"

text \<open>
  \<open>dev_list[0]\<close> of a list that is \<open>NULL\<close>; \<open>rep_num\<close> of the reply to \<open>Get_device_list\<close> is the first
  device. The gid is in the reply to \<open>Query_gid\<close>.
\<close>

definition first_device :: "(('t, 'm, 'z) io_scheme, int) cmd" where
  "first_device =
     cbind (ext (Verbs Get_device_list)) (\<lambda>devs.
     if rep_ret devs = 0 then (\<lambda>s. Undefined Null_deref)
     else cret (rep_num devs))"

definition reply_gid :: "'m reply \<Rightarrow> 64 word \<times> 64 word" where
  "reply_gid r = (gid_global_interface_id (rep_attr r), gid_global_subnet_prefix (rep_attr r))"

text \<open>The value of a function that may have returned none.\<close>

definition use_result :: "int option \<Rightarrow> ('s, int) cmd" where
  "use_result r = (case r of None \<Rightarrow> (\<lambda>s. Undefined No_return_value) | Some n \<Rightarrow> cret n)"

lemma use_result_run [cmd_run]:
  "use_result (Some n) s = Return (n, s)"
  "use_result None s = Undefined No_return_value"
  by (simp_all add: use_result_def cmd_run)

end
