(* ===== verification/Client_State.thy ===== *)
theory Client_State
  imports RDMA_Common
begin

text \<open>
  The structures of the client side, \<^verbatim>\<open>src/client/client.h\<close> and \<^verbatim>\<open>src/client/*_client_utils.h\<close>, and the
  state of a benchmark thread. A pointer that comes from \<open>malloc\<close> and that nobody has set is
  \<^const>\<open>None\<close>; following it is \<^const>\<open>Uninitialised\<close>. The response buffer of the connection is entry 0
  of \<open>rx\<close>: it is what \<open>read\<close> or the card fills.
\<close>

section \<open>Structures\<close>

record tcp_server_conn =
  tsc_socket :: int
  tsc_request :: "request option"

record rc_server_conn =
  rsc_cm_event_channel :: int
  rsc_cm_client_id :: int
  rsc_pd :: int
  rsc_io_completion_channel :: int
  rsc_client_cq :: int
  rsc_qp_init_attr :: qp_init_attr
  rsc_client_qp :: int
  rsc_client_request_mr :: int
  rsc_client_response_mr :: int
  rsc_request :: "request option"

record uc_server_conn =
  usc_cm_event_channel :: "int option"
  usc_cm_client_id :: "int option"
  usc_pd :: int
  usc_io_completion_channel :: int
  usc_client_cq :: int
  usc_qp_init_attr :: qp_init_attr
  usc_client_qp :: int
  usc_client_request_mr :: int
  usc_client_response_mr :: int
  usc_request :: "request option"
  usc_server_gid :: "64 word \<times> 64 word"
  usc_local_qp_attrs :: qp_attr
  usc_remote_qp_attrs :: qp_attr
  usc_socket_fd :: int

record ud_server_conn =
  dsc_cm_client_id :: "int option"
  dsc_ud_qp :: int
  dsc_ud_cq :: int
  dsc_server_gid :: "64 word \<times> 64 word"
  dsc_local_dgram_qp_attrs :: qp_attr
  dsc_remote_dgram_qp_attrs :: qp_attr
  dsc_pd :: int
  dsc_io_completion_channel :: int
  dsc_qp_init_attr :: qp_init_attr
  dsc_client_request_mr :: int
  dsc_client_response_mr :: int
  dsc_request :: "request option"
  dsc_socket_fd :: int
  dsc_ah :: int
  dsc_client_id :: int

record client_to_server_conn =
  cc_conn_t :: connection_type
  cc_blocking :: bool
  cc_instance_nr :: int
  cc_rc_server_conn :: "rc_server_conn option"
  cc_ud_server_conn :: "ud_server_conn option"
  cc_uc_server_conn :: "uc_server_conn option"
  cc_tcp_server_conn :: "tcp_server_conn option"

text \<open>
  \<open>struct operation\<close>: two pointers to times, \<^const>\<open>None\<close> for \<open>NULL\<close>. What they point to comes from
  \<open>malloc\<close> and has no value (\<^term>\<open>Some None\<close>) until \<open>gettimeofday\<close> fills it.
\<close>

type_synonym timeval = "64 word \<times> 64 word"

record operation =
  op_start :: "timeval option option"
  op_end :: "timeval option option"

record bench = "(request, response) io" +
  conn :: client_to_server_conn
  ops :: "operation list"

section \<open>Access to the state\<close>

definition upd_conn :: "(client_to_server_conn \<Rightarrow> client_to_server_conn) \<Rightarrow> (bench, unit) cmd" where
  "upd_conn f = cput (\<lambda>s. s\<lparr>conn := f (conn s)\<rparr>)"

definition tcp_conn_of :: "(bench, tcp_server_conn) cmd" where
  "tcp_conn_of = cbind (cget conn) (\<lambda>c. pointee (cc_tcp_server_conn c))"

definition rc_conn_of :: "(bench, rc_server_conn) cmd" where
  "rc_conn_of = cbind (cget conn) (\<lambda>c. pointee (cc_rc_server_conn c))"

definition uc_conn_of :: "(bench, uc_server_conn) cmd" where
  "uc_conn_of = cbind (cget conn) (\<lambda>c. pointee (cc_uc_server_conn c))"

definition ud_conn_of :: "(bench, ud_server_conn) cmd" where
  "ud_conn_of = cbind (cget conn) (\<lambda>c. pointee (cc_ud_server_conn c))"

definition upd_tsc :: "(tcp_server_conn \<Rightarrow> tcp_server_conn) \<Rightarrow> (bench, unit) cmd" where
  "upd_tsc f = cbind tcp_conn_of (\<lambda>t. upd_conn (\<lambda>c. c\<lparr>cc_tcp_server_conn := Some (f t)\<rparr>))"

definition upd_rsc :: "(rc_server_conn \<Rightarrow> rc_server_conn) \<Rightarrow> (bench, unit) cmd" where
  "upd_rsc f = cbind rc_conn_of (\<lambda>t. upd_conn (\<lambda>c. c\<lparr>cc_rc_server_conn := Some (f t)\<rparr>))"

definition upd_usc :: "(uc_server_conn \<Rightarrow> uc_server_conn) \<Rightarrow> (bench, unit) cmd" where
  "upd_usc f = cbind uc_conn_of (\<lambda>t. upd_conn (\<lambda>c. c\<lparr>cc_uc_server_conn := Some (f t)\<rparr>))"

definition upd_dsc :: "(ud_server_conn \<Rightarrow> ud_server_conn) \<Rightarrow> (bench, unit) cmd" where
  "upd_dsc f = cbind ud_conn_of (\<lambda>t. upd_conn (\<lambda>c. c\<lparr>cc_ud_server_conn := Some (f t)\<rparr>))"

section \<open>Running them\<close>

lemma upd_conn_run [cmd_run]: "upd_conn f s = Return ((), s\<lparr>conn := f (conn s)\<rparr>)"
  by (simp add: upd_conn_def cmd_run)

lemma conn_of_run [cmd_run]:
  "cc_tcp_server_conn (conn s) = Some t \<Longrightarrow> tcp_conn_of s = Return (t, s)"
  "cc_tcp_server_conn (conn s) = None \<Longrightarrow> tcp_conn_of s = Undefined Uninitialised"
  "cc_rc_server_conn (conn s) = Some r \<Longrightarrow> rc_conn_of s = Return (r, s)"
  "cc_rc_server_conn (conn s) = None \<Longrightarrow> rc_conn_of s = Undefined Uninitialised"
  "cc_uc_server_conn (conn s) = Some u \<Longrightarrow> uc_conn_of s = Return (u, s)"
  "cc_uc_server_conn (conn s) = None \<Longrightarrow> uc_conn_of s = Undefined Uninitialised"
  "cc_ud_server_conn (conn s) = Some d \<Longrightarrow> ud_conn_of s = Return (d, s)"
  "cc_ud_server_conn (conn s) = None \<Longrightarrow> ud_conn_of s = Undefined Uninitialised"
  by (simp_all add: tcp_conn_of_def rc_conn_of_def uc_conn_of_def ud_conn_of_def cmd_run)

lemma upd_conn_of_run [cmd_run]:
  "cc_tcp_server_conn (conn s) = Some t \<Longrightarrow>
     upd_tsc f s = Return ((), s\<lparr>conn := (conn s)\<lparr>cc_tcp_server_conn := Some (f t)\<rparr>\<rparr>)"
  "cc_rc_server_conn (conn s) = Some r \<Longrightarrow>
     upd_rsc g s = Return ((), s\<lparr>conn := (conn s)\<lparr>cc_rc_server_conn := Some (g r)\<rparr>\<rparr>)"
  "cc_uc_server_conn (conn s) = Some u \<Longrightarrow>
     upd_usc h s = Return ((), s\<lparr>conn := (conn s)\<lparr>cc_uc_server_conn := Some (h u)\<rparr>\<rparr>)"
  "cc_ud_server_conn (conn s) = Some d \<Longrightarrow>
     upd_dsc k s = Return ((), s\<lparr>conn := (conn s)\<lparr>cc_ud_server_conn := Some (k d)\<rparr>\<rparr>)"
  by (simp_all add: upd_tsc_def upd_rsc_def upd_usc_def upd_dsc_def cmd_run)

end
