(* ===== verification/TCP_Client.thy ===== *)
theory TCP_Client
  imports Client_State
begin

text \<open>\<^verbatim>\<open>src/client/tcp_client_utils.c\<close>.\<close>

text \<open>
  The two \<open>calloc\<close>s come after the check of the descriptor: when \<open>socket\<close> fails the buffers are not
  there.
\<close>

definition tcp_client_prepare_connection :: "(bench, int) cmd" where
  "tcp_client_prepare_connection =
     cbind (ext (Sys Socket)) (\<lambda>fd.
     cseq (upd_tsc (\<lambda>t. t\<lparr>tsc_socket := rep_ret fd\<rparr>)) (
     check (rep_ret fd < 0) (- 1) (
     cseq (upd_tsc (\<lambda>t. t\<lparr>tsc_request := Some zero_request\<rparr>)) (
     cseq (cput (\<lambda>s. s\<lparr>rx := [zero_response]\<rparr>)) (
     cret (rep_ret fd))))))"

definition tcp_client_connect_to_server :: "(bench, int) cmd" where
  "tcp_client_connect_to_server =
     cbind tcp_conn_of (\<lambda>t.
     cbind (ext (Sys (Connect (tsc_socket t)))) (\<lambda>r.
     check (rep_ret r \<noteq> 0) (rep_ret r) (
     cret (rep_ret r))))"

definition tcp_send_request :: "(bench, int) cmd" where
  "tcp_send_request =
     cbind tcp_conn_of (\<lambda>t.
     cbind (pointee (tsc_request t)) (\<lambda>request.
     cbind (ext (Write_message (tsc_socket t) request)) (\<lambda>r.
     check_errno (rep_ret r \<le> 0) (
     cret (rep_ret r)))))"

definition tcp_receive_response :: "(bench, int) cmd" where
  "tcp_receive_response =
     cbind tcp_conn_of (\<lambda>t.
     cbind (pointee (tsc_request t)) (\<lambda>_.
     cbind (ext (Read_message (tsc_socket t) 0)) (\<lambda>r.
     check_errno (rep_ret r \<le> 0) (
     cret (rep_ret r)))))"

definition tcp_client_disconnect_and_clean :: "(bench, int) cmd" where
  "tcp_client_disconnect_and_clean =
     cbind tcp_conn_of (\<lambda>t.
     cbind (ext (Sys (Close (tsc_socket t)))) (\<lambda>r.
     cseq (upd_tsc (\<lambda>t. t\<lparr>tsc_request := None\<rparr>)) (
     cret (rep_ret r))))"

end
