(* ===== verification/RC_Client.thy ===== *)
theory RC_Client
  imports Client_State
begin

text \<open>
  \<^verbatim>\<open>src/client/rc_client_utils.c\<close>: resolving the server, setting up the resources, connecting, sending
  a request and receiving a response through one completion queue, and cleaning up.
\<close>

definition client_access :: "access list" where
  "client_access = [IBV_ACCESS_LOCAL_WRITE, IBV_ACCESS_REMOTE_READ, IBV_ACCESS_REMOTE_WRITE]"

text \<open>The function ends without a \<open>return\<close> when posting succeeds; no caller uses its value.\<close>

definition rc_pre_post_receive_response :: "(bench, int option) cmd" where
  "rc_pre_post_receive_response =
     cbind rc_conn_of (\<lambda>rc.
     cbind (rdma_buffer_register (rsc_pd rc) sizeof_response client_access) (\<lambda>mr.
     cseq (upd_rsc (\<lambda>rc. rc\<lparr>rsc_client_response_mr := mr\<rparr>)) (
     cseq (lkey mr) (
     cbind (post_recieve sizeof_response 0 (rsc_client_qp rc) 0) (\<lambda>ret.
     if ret \<noteq> 0 then cbind (cget neg_errno) (\<lambda>e. cret (Some e)) else cret None)))))"

text \<open>One step of the resolution: wait for an event and acknowledge it.\<close>

definition await_cm_event :: "int \<Rightarrow> cm_event_type \<Rightarrow> (bench, int) cmd \<Rightarrow> (bench, int) cmd" where
  "await_cm_event channel event rest =
     cbind (process_rdma_cm_event channel event) (\<lambda>(ret, _).
     check (ret \<noteq> 0) ret (
     cbind (ext (CM Ack_cm_event)) (\<lambda>r.
     check_errno (rep_ret r \<noteq> 0) rest)))"

definition client_prepare_connection :: "(bench, int) cmd" where
  "client_prepare_connection =
     cbind (ext (CM Create_event_channel)) (\<lambda>ch.
     cseq (upd_rsc (\<lambda>rc. rc\<lparr>rsc_cm_event_channel := rep_ret ch\<rparr>)) (
     check_errno (rep_ret ch = 0) (
     cbind (ext (CM (Create_id (rep_ret ch)))) (\<lambda>id.
     cseq (upd_rsc (\<lambda>rc. rc\<lparr>rsc_cm_client_id := rep_num id\<rparr>)) (
     check_errno (rep_ret id \<noteq> 0) (
     cbind (ext (CM (Resolve_addr (rep_num id) 2000))) (\<lambda>r.
     check_errno (rep_ret r \<noteq> 0) (
     await_cm_event (rep_ret ch) RDMA_CM_EVENT_ADDR_RESOLVED (
     cbind (ext (CM (Resolve_route (rep_num id) 2000))) (\<lambda>r.
     check_errno (rep_ret r \<noteq> 0) (
     await_cm_event (rep_ret ch) RDMA_CM_EVENT_ROUTE_RESOLVED (
     cbind (ext (Verbs (Alloc_pd (rep_num id)))) (\<lambda>pd.
     cseq (upd_rsc (\<lambda>rc. rc\<lparr>rsc_pd := rep_ret pd\<rparr>)) (
     check_errno (rep_ret pd = 0) (
     cbind (ext (Verbs (Create_comp_channel (rep_num id)))) (\<lambda>cch.
     cseq (upd_rsc (\<lambda>rc. rc\<lparr>rsc_io_completion_channel := rep_ret cch\<rparr>)) (
     check_errno (rep_ret cch = 0) (
     cbind (ext (Verbs (Create_cq (rep_num id) CQ_CAPACITY (rep_ret cch)))) (\<lambda>cq.
     cseq (upd_rsc (\<lambda>rc. rc\<lparr>rsc_client_cq := rep_ret cq\<rparr>)) (
     check_errno (rep_ret cq = 0) (
     cbind (ext (Req_notify_cq (rep_ret cq))) (\<lambda>r.
     check_errno (rep_ret r \<noteq> 0) (
     cseq (upd_rsc (\<lambda>rc. rc\<lparr>rsc_qp_init_attr := connected_qp_init_attr IBV_QPT_RC (rep_ret cq)\<rparr>)) (
     cbind (ext (CM (Rdma_create_qp (rep_num id) (rep_ret pd)
             (connected_qp_init_attr IBV_QPT_RC (rep_ret cq))))) (\<lambda>qp.
     check_errno (rep_ret qp \<noteq> 0) (
     cseq (upd_rsc (\<lambda>rc. rc\<lparr>rsc_client_qp := rep_num qp\<rparr>)) (
     cbind (rdma_buffer_register (rep_ret pd) sizeof_request client_access) (\<lambda>mr.
     cseq (upd_rsc (\<lambda>rc. rc\<lparr>rsc_client_request_mr := mr\<rparr>)) (
     cbind rc_pre_post_receive_response (\<lambda>ignored.
     cret 0))))))))))))))))))))))))))))))"

definition client_connect_to_server :: "(bench, int) cmd" where
  "client_connect_to_server =
     cbind rc_conn_of (\<lambda>rc.
     cbind (ext (CM (Rdma_connect (rsc_cm_client_id rc)))) (\<lambda>r.
     check_errno (rep_ret r \<noteq> 0) (
     await_cm_event (rsc_cm_event_channel rc) RDMA_CM_EVENT_ESTABLISHED (
     cret 0))))"

definition rc_send_request :: "bool \<Rightarrow> (bench, int) cmd" where
  "rc_send_request blocking =
     cbind rc_conn_of (\<lambda>rc.
     cbind (pointee (rsc_request rc)) (\<lambda>request.
     cseq (lkey (rsc_client_request_mr rc)) (
     cbind (post_send sizeof_request 1 (rsc_client_qp rc) request) (\<lambda>ret.
     check_errno (ret \<noteq> 0) (
     cbind (process_work_completion_events (rsc_io_completion_channel rc) 1 (rsc_client_cq rc) blocking) (\<lambda>ret.
     check (ret \<noteq> 1) ret (
     cret 0)))))))"

definition rc_receive_response :: "bool \<Rightarrow> (bench, int) cmd" where
  "rc_receive_response blocking =
     cbind rc_conn_of (\<lambda>rc.
     cseq (lkey (rsc_client_response_mr rc)) (
     cbind (post_recieve sizeof_response 0 (rsc_client_qp rc) 0) (\<lambda>ret.
     check_errno (ret \<noteq> 0) (
     cbind (process_work_completion_events (rsc_io_completion_channel rc) 1 (rsc_client_cq rc) blocking) (\<lambda>ret.
     check (ret \<noteq> 1) ret (
     cret ret))))))"

text \<open>
  Cleaning up: the results are only printed, every step is taken. The event is acknowledged whatever
  \<open>process_rdma_cm_event\<close> returned, so an event it has rejected is acknowledged twice.
\<close>

definition client_disconnect_and_clean :: "(bench, int) cmd" where
  "client_disconnect_and_clean =
     cbind rc_conn_of (\<lambda>rc.
     cseq (ext_ignored (CM (Rdma_disconnect (rsc_cm_client_id rc)))) (
     cbind (process_rdma_cm_event (rsc_cm_event_channel rc) RDMA_CM_EVENT_DISCONNECTED) (\<lambda>ignored.
     cseq (ext_ignored (CM Ack_cm_event)) (
     cseq (ext_ignored (CM (Rdma_destroy_qp (rsc_cm_client_id rc)))) (
     cseq (ext_ignored (CM (Rdma_destroy_id (rsc_cm_client_id rc)))) (
     cseq (ext_ignored (Verbs (Destroy_cq (rsc_client_cq rc)))) (
     cseq (ext_ignored (Verbs (Destroy_comp_channel (rsc_io_completion_channel rc)))) (
     cseq (rdma_buffer_deregister (rsc_client_request_mr rc)) (
     cseq (upd_rsc (\<lambda>rc. rc\<lparr>rsc_request := None\<rparr>)) (
     cseq (ext_ignored (Verbs (Dealloc_pd (rsc_pd rc)))) (
     cseq (ext_ignored (CM (Destroy_event_channel (rsc_cm_event_channel rc)))) (
     cret 0))))))))))))"

end
