(* ===== verification/UC_Client.thy ===== *)
theory UC_Client
  imports RC_Client
begin

text \<open>
  \<^verbatim>\<open>src/client/uc_client_utils.c\<close>: the unreliable connection. Requests may be lost, so a response is
  awaited with a timeout.
\<close>

definition uc_pre_post_receive_response :: "(bench, int option) cmd" where
  "uc_pre_post_receive_response =
     cbind uc_conn_of (\<lambda>uc.
     cbind (rdma_buffer_register (usc_pd uc) sizeof_response client_access) (\<lambda>mr.
     cseq (upd_usc (\<lambda>uc. uc\<lparr>usc_client_response_mr := mr\<rparr>)) (
     cseq (lkey mr) (
     cbind (post_recieve sizeof_response 0 (usc_client_qp uc) 0) (\<lambda>ret.
     if ret \<noteq> 0 then cbind (cget neg_errno) (\<lambda>e. cret (Some e)) else cret None)))))"

text \<open>\<open>random\<close> is the number \<open>lrand48\<close> returns.\<close>

definition uc_client_prepare_connection :: "int \<Rightarrow> (bench, int) cmd" where
  "uc_client_prepare_connection random =
     cbind first_device (\<lambda>ib_dev.
     cbind (ext (Verbs (Open_device ib_dev))) (\<lambda>context.
     cbind (ext (Verbs (Alloc_pd (rep_ret context)))) (\<lambda>pd.
     cseq (upd_usc (\<lambda>uc. uc\<lparr>usc_pd := rep_ret pd\<rparr>)) (
     check_errno (rep_ret pd = 0) (
     cbind (ext (Verbs (Create_comp_channel (rep_ret context)))) (\<lambda>ch.
     cseq (upd_usc (\<lambda>uc. uc\<lparr>usc_io_completion_channel := rep_ret ch\<rparr>)) (
     check_errno (rep_ret ch = 0) (
     cbind (ext (Verbs (Create_cq (rep_ret context) CQ_CAPACITY (rep_ret ch)))) (\<lambda>cq.
     cseq (upd_usc (\<lambda>uc. uc\<lparr>usc_client_cq := rep_ret cq\<rparr>)) (
     check_errno (rep_ret cq = 0) (
     cbind (ext (Req_notify_cq (rep_ret cq))) (\<lambda>r.
     check_errno (rep_ret r \<noteq> 0) (
     cseq (upd_usc (\<lambda>uc. uc\<lparr>usc_qp_init_attr := connected_qp_init_attr IBV_QPT_UC (rep_ret cq)\<rparr>)) (
     cbind (ext (Verbs (Create_qp (rep_ret pd) (connected_qp_init_attr IBV_QPT_UC (rep_ret cq))))) (\<lambda>qp.
     cseq (upd_usc (\<lambda>uc. uc\<lparr>usc_client_qp := rep_ret qp\<rparr>)) (
     check_errno (rep_ret qp = 0) (
     cbind (uc_set_init_qp (rep_ret qp)) (\<lambda>ignored.
     cbind (ext (Verbs (Query_gid (rep_ret context)))) (\<lambda>gid.
     cbind (get_local_lid (rep_ret context)) (\<lambda>lid.
     cseq (upd_usc (\<lambda>uc. uc\<lparr>usc_server_gid := reply_gid gid,
            usc_local_qp_attrs := (usc_local_qp_attrs uc)
              \<lparr>gid_global_interface_id := fst (reply_gid gid),
               gid_global_subnet_prefix := snd (reply_gid gid),
               qa_lid := lid, qa_qpn := word_of_int (rep_num qp), qa_psn := and random 0xffffff\<rparr>\<rparr>)) (
     cbind (rdma_buffer_register (rep_ret pd) sizeof_request client_access) (\<lambda>mr.
     cseq (upd_usc (\<lambda>uc. uc\<lparr>usc_client_request_mr := mr\<rparr>)) (
     check (mr = 0) (- ENOMEM) (
     cbind uc_pre_post_receive_response (\<lambda>ignored.
     cret 0)))))))))))))))))))))))))"

text \<open>
  The value of \<open>connect_qp\<close>, which returns none when it succeeds, is used. A \<open>read\<close> that fails leaves
  the attributes to the reply's \<open>rep_attr\<close>.
\<close>

definition uc_client_connect_to_server :: "(bench, int) cmd" where
  "uc_client_connect_to_server =
     cbind (ext (Sys Socket)) (\<lambda>fd.
     cseq (upd_usc (\<lambda>uc. uc\<lparr>usc_socket_fd := rep_ret fd\<rparr>)) (
     check (rep_ret fd < 0) (- 1) (
     cbind (ext (Sys (Connect (rep_ret fd)))) (\<lambda>r.
     check (rep_ret r \<noteq> 0) (- 1) (
     cbind uc_conn_of (\<lambda>uc.
     cseq (ext_ignored (Write_qp_attr (rep_ret fd) (usc_local_qp_attrs uc))) (
     cbind (ext (Read_qp_attr (rep_ret fd))) (\<lambda>remote.
     cseq (upd_usc (\<lambda>uc. uc\<lparr>usc_remote_qp_attrs := rep_attr remote\<rparr>)) (
     cbind (connect_qp (usc_client_qp uc) (usc_local_qp_attrs uc) (rep_attr remote)) (\<lambda>connected.
     cbind (use_result connected) (\<lambda>ret.
     check (ret \<noteq> 0) ret (
     cret 0))))))))))))"

definition uc_send_request :: "bool \<Rightarrow> (bench, int) cmd" where
  "uc_send_request blocking =
     cbind uc_conn_of (\<lambda>uc.
     cbind (pointee (usc_request uc)) (\<lambda>request.
     cseq (lkey (usc_client_request_mr uc)) (
     cbind (post_send sizeof_request 1 (usc_client_qp uc) request) (\<lambda>ret.
     check_errno (ret \<noteq> 0) (
     cbind (process_work_completion_events (usc_io_completion_channel uc) 1 (usc_client_cq uc) blocking) (\<lambda>ret.
     check (ret \<noteq> 1) ret (
     cret 0)))))))"

definition uc_receive_response :: "bool \<Rightarrow> (bench, int) cmd" where
  "uc_receive_response blocking =
     cbind uc_conn_of (\<lambda>uc.
     cseq (lkey (usc_client_response_mr uc)) (
     cbind (post_recieve sizeof_response 0 (usc_client_qp uc) 0) (\<lambda>ret.
     check_errno (ret \<noteq> 0) (
     cbind (process_work_completion_events_with_timeout 1 (usc_client_cq uc)
             (usc_io_completion_channel uc) blocking) (\<lambda>ret.
     check (ret \<noteq> 1) ret (
     cret ret))))))"

text \<open>
  Cleaning up follows \<open>cm_client_id\<close> and \<open>cm_event_channel\<close>, which no function of this file sets.
\<close>

definition uc_client_disconnect_and_clean :: "(bench, int) cmd" where
  "uc_client_disconnect_and_clean =
     cbind uc_conn_of (\<lambda>uc.
     cbind (pointee (usc_cm_client_id uc)) (\<lambda>id.
     cseq (ext_ignored (CM (Rdma_disconnect id))) (
     cbind (pointee (usc_cm_event_channel uc)) (\<lambda>channel.
     cbind (process_rdma_cm_event channel RDMA_CM_EVENT_DISCONNECTED) (\<lambda>ignored.
     cseq (ext_ignored (CM Ack_cm_event)) (
     cseq (ext_ignored (CM (Rdma_destroy_qp id))) (
     cseq (ext_ignored (CM (Rdma_destroy_id id))) (
     cseq (ext_ignored (Verbs (Destroy_cq (usc_client_cq uc)))) (
     cseq (ext_ignored (Verbs (Destroy_comp_channel (usc_io_completion_channel uc)))) (
     cseq (rdma_buffer_deregister (usc_client_request_mr uc)) (
     cseq (upd_usc (\<lambda>uc. uc\<lparr>usc_request := None\<rparr>)) (
     cseq (ext_ignored (Verbs (Dealloc_pd (usc_pd uc)))) (
     cseq (ext_ignored (CM (Destroy_event_channel channel))) (
     cret 0))))))))))))))"

end
