(* ===== verification/UD_Client.thy ===== *)
theory UD_Client
  imports UC_Client
begin

text \<open>
  \<^verbatim>\<open>src/client/ud_client_utils.c\<close>: datagrams. The request goes to the server's queue pair through an
  address handle; a response is awaited with a timeout.
\<close>

definition ud_pre_post_receive_response :: "(bench, int) cmd" where
  "ud_pre_post_receive_response =
     cbind ud_conn_of (\<lambda>ud.
     cbind (rdma_buffer_register (dsc_pd ud) sizeof_ud_response client_access) (\<lambda>mr.
     cseq (upd_dsc (\<lambda>ud. ud\<lparr>dsc_client_response_mr := mr\<rparr>)) (
     cseq (lkey mr) (
     cbind (post_recieve sizeof_ud_response 0 (dsc_ud_qp ud) 0) (\<lambda>ret.
     check_errno (ret \<noteq> 0) (
     cret ret))))))"

definition ud_prepare_client :: "int \<Rightarrow> (bench, int) cmd" where
  "ud_prepare_client random =
     cbind first_device (\<lambda>ib_dev.
     cbind (ext (Verbs (Open_device ib_dev))) (\<lambda>context.
     cbind (ext (Verbs (Alloc_pd (rep_ret context)))) (\<lambda>pd.
     cseq (upd_dsc (\<lambda>ud. ud\<lparr>dsc_pd := rep_ret pd\<rparr>)) (
     check_errno (rep_ret pd = 0) (
     cbind (ext (Verbs (Create_comp_channel (rep_ret context)))) (\<lambda>ch.
     cseq (upd_dsc (\<lambda>ud. ud\<lparr>dsc_io_completion_channel := rep_ret ch\<rparr>)) (
     check_errno (rep_ret ch = 0) (
     cbind (ext (Verbs (Create_cq (rep_ret context) CQ_CAPACITY (rep_ret ch)))) (\<lambda>cq.
     cseq (upd_dsc (\<lambda>ud. ud\<lparr>dsc_ud_cq := rep_ret cq\<rparr>)) (
     check_errno (rep_ret cq = 0) (
     cbind (ext (Req_notify_cq (rep_ret cq))) (\<lambda>r.
     check_errno (rep_ret r \<noteq> 0) (
     cseq (upd_dsc (\<lambda>ud. ud\<lparr>dsc_qp_init_attr := connected_qp_init_attr IBV_QPT_UD (rep_ret cq)\<rparr>)) (
     cbind (ext (Verbs (Create_qp (rep_ret pd) (connected_qp_init_attr IBV_QPT_UD (rep_ret cq))))) (\<lambda>qp.
     cseq (upd_dsc (\<lambda>ud. ud\<lparr>dsc_ud_qp := rep_ret qp\<rparr>)) (
     check_errno (rep_ret qp = 0) (
     cbind (ud_set_init_qp (rep_ret qp)) (\<lambda>ignored.
     cbind (ext (Verbs (Query_gid (rep_ret context)))) (\<lambda>gid.
     cbind (get_local_lid (rep_ret context)) (\<lambda>lid.
     cseq (upd_dsc (\<lambda>ud. ud\<lparr>dsc_server_gid := reply_gid gid,
            dsc_local_dgram_qp_attrs := (dsc_local_dgram_qp_attrs ud)
              \<lparr>gid_global_interface_id := fst (reply_gid gid),
               gid_global_subnet_prefix := snd (reply_gid gid),
               qa_client_id := dsc_client_id ud,
               qa_lid := lid, qa_qpn := word_of_int (rep_num qp), qa_psn := and random 0xffffff\<rparr>\<rparr>)) (
     cbind (rdma_buffer_register (rep_ret pd) sizeof_request client_access) (\<lambda>mr.
     cseq (upd_dsc (\<lambda>ud. ud\<lparr>dsc_client_request_mr := mr\<rparr>)) (
     check (mr = 0) (- ENOMEM) (
     cbind ud_pre_post_receive_response (\<lambda>ignored.
     cret 0)))))))))))))))))))))))))"

definition ud_client_connect_to_server :: "(bench, int) cmd" where
  "ud_client_connect_to_server =
     cbind (ext (Sys Socket)) (\<lambda>fd.
     cseq (upd_dsc (\<lambda>ud. ud\<lparr>dsc_socket_fd := rep_ret fd\<rparr>)) (
     check (rep_ret fd < 0) (- 1) (
     cbind (ext (Sys (Connect (rep_ret fd)))) (\<lambda>r.
     check (rep_ret r \<noteq> 0) (- 1) (
     cbind ud_conn_of (\<lambda>ud.
     cseq (ext_ignored (Write_qp_attr (rep_ret fd) (dsc_local_dgram_qp_attrs ud))) (
     cbind (ext (Read_qp_attr (rep_ret fd))) (\<lambda>remote.
     cseq (upd_dsc (\<lambda>ud. ud\<lparr>dsc_remote_dgram_qp_attrs := rep_attr remote\<rparr>)) (
     cbind (ext (Verbs (Create_ah (dsc_pd ud) (qa_lid (rep_attr remote) mod 2 ^ 16)))) (\<lambda>ah.
     cseq (upd_dsc (\<lambda>ud. ud\<lparr>dsc_ah := rep_ret ah\<rparr>)) (
     check (rep_ret ah = 0) (- 1) (
     cbind (ud_set_rts_qp (dsc_ud_qp ud) (qa_psn (dsc_local_dgram_qp_attrs ud))) (\<lambda>ignored.
     cret 0)))))))))))))"

definition ud_send_request :: "bool \<Rightarrow> (bench, int) cmd" where
  "ud_send_request blocking =
     cbind ud_conn_of (\<lambda>ud.
     cbind (pointee (dsc_request ud)) (\<lambda>request.
     cseq (lkey (dsc_client_request_mr ud)) (
     cbind (ud_post_send sizeof_request 1 (dsc_ud_qp ud) request (dsc_ah ud)
             (qa_qpn (dsc_remote_dgram_qp_attrs ud))) (\<lambda>ret.
     check_errno (ret \<noteq> 0) (
     cbind (process_work_completion_events (dsc_io_completion_channel ud) 1 (dsc_ud_cq ud) blocking) (\<lambda>ret.
     check (ret \<noteq> 1) ret (
     cret 0)))))))"

definition ud_receive_response :: "bool \<Rightarrow> (bench, int) cmd" where
  "ud_receive_response blocking =
     cbind ud_conn_of (\<lambda>ud.
     cseq (lkey (dsc_client_response_mr ud)) (
     cbind (post_recieve sizeof_ud_response 0 (dsc_ud_qp ud) 0) (\<lambda>ret.
     check_errno (ret \<noteq> 0) (
     cbind (process_work_completion_events_with_timeout 1 (dsc_ud_cq ud)
             (dsc_io_completion_channel ud) blocking) (\<lambda>ret.
     check (ret \<noteq> 1) ret (
     cret ret))))))"

text \<open>Cleaning up follows \<open>cm_client_id\<close>, which no function of this file sets.\<close>

definition ud_client_disconnect_and_clean :: "(bench, int) cmd" where
  "ud_client_disconnect_and_clean =
     cbind ud_conn_of (\<lambda>ud.
     cbind (pointee (dsc_cm_client_id ud)) (\<lambda>id.
     cseq (ext_ignored (CM (Rdma_destroy_qp id))) (
     cseq (ext_ignored (Verbs (Destroy_cq (dsc_ud_cq ud)))) (
     cseq (ext_ignored (Verbs (Destroy_comp_channel (dsc_io_completion_channel ud)))) (
     cseq (rdma_buffer_deregister (dsc_client_request_mr ud)) (
     cseq (upd_dsc (\<lambda>ud. ud\<lparr>dsc_request := None\<rparr>)) (
     cseq (ext_ignored (Verbs (Dealloc_pd (dsc_pd ud)))) (
     cret 0))))))))"

end
