(* ===== verification/Client.thy ===== *)
theory Client
  imports TCP_Client UD_Client
begin

text \<open>\<^verbatim>\<open>src/client/client.c\<close>: sending a request and receiving a response whatever the transport is.\<close>

definition send_request :: "(bench, int) cmd" where
  "send_request =
     cbind (cget conn) (\<lambda>c.
     case cc_conn_t c of
       TCP \<Rightarrow> cbind tcp_send_request (\<lambda>ret. if ret > 0 then cret 0 else cret ret)
     | RC \<Rightarrow> rc_send_request (cc_blocking c)
     | UC \<Rightarrow> uc_send_request (cc_blocking c)
     | UD \<Rightarrow> ud_send_request (cc_blocking c))"

definition receive_response :: "(bench, int) cmd" where
  "receive_response =
     cbind (cget conn) (\<lambda>c.
     case cc_conn_t c of
       TCP \<Rightarrow> tcp_receive_response
     | RC \<Rightarrow> rc_receive_response (cc_blocking c)
     | UC \<Rightarrow> uc_receive_response (cc_blocking c)
     | UD \<Rightarrow> ud_receive_response (cc_blocking c))"

end
