(* ===== verification/Instance.thy ===== *)
theory Instance
  imports Client
begin

text \<open>
  \<^verbatim>\<open>src/benchmarking/instance.c\<close>: a client thread of the benchmark. It connects, then performs its
  operations: each is a SET or a GET chosen at random, sent again until a response arrives.
  \<open>rand\<close> is an external call whose reply is the number it returns.
\<close>

section \<open>Making requests\<close>

text \<open>\<open>sprintf\<close> of the string \<open>str\<close> into a buffer: the characters and a terminating zero.\<close>

definition sprintf_into :: "byte list \<Rightarrow> byte list \<Rightarrow> byte list outcome" where
  "sprintf_into buf str =
     (if length str < length buf then Return (str @ 0 # drop (Suc (length str)) buf)
      else Undefined Out_of_bounds)"

text \<open>The request buffer of the connection in use.\<close>

definition conn_request :: "(bench, request) cmd" where
  "conn_request =
     cbind (cget (\<lambda>s. cc_conn_t (conn s))) (\<lambda>ty.
     case ty of
       TCP \<Rightarrow> cbind tcp_conn_of (\<lambda>t. pointee (tsc_request t))
     | RC \<Rightarrow> cbind rc_conn_of (\<lambda>rc. pointee (rsc_request rc))
     | UC \<Rightarrow> cbind uc_conn_of (\<lambda>uc. pointee (usc_request uc))
     | UD \<Rightarrow> cbind ud_conn_of (\<lambda>ud. pointee (dsc_request ud)))"

definition put_request :: "request \<Rightarrow> (bench, unit) cmd" where
  "put_request r =
     cbind (cget (\<lambda>s. cc_conn_t (conn s))) (\<lambda>ty.
     case ty of
       TCP \<Rightarrow> upd_tsc (\<lambda>t. t\<lparr>tsc_request := Some r\<rparr>)
     | RC \<Rightarrow> upd_rsc (\<lambda>rc. rc\<lparr>rsc_request := Some r\<rparr>)
     | UC \<Rightarrow> upd_usc (\<lambda>uc. uc\<lparr>usc_request := Some r\<rparr>)
     | UD \<Rightarrow> upd_dsc (\<lambda>ud. ud\<lparr>dsc_request := Some r\<rparr>))"

definition get_into :: "int \<Rightarrow> int \<Rightarrow> request \<Rightarrow> request outcome" where
  "get_into instance_nr count r =
     obind (sprintf_into (req_key r) (benchmark_key instance_nr count)) (\<lambda>key.
     obind (strlen key) (\<lambda>key_len.
     Return (r\<lparr>req_method := GET, req_key := key, req_key_len := of_nat key_len, req_msg_len := 0,
              req_client_id := instance_nr\<rparr>)))"

definition set_into :: "int \<Rightarrow> int \<Rightarrow> request \<Rightarrow> request outcome" where
  "set_into instance_nr count r =
     obind (sprintf_into (req_key r) (benchmark_key instance_nr count)) (\<lambda>key.
     obind (strlen key) (\<lambda>key_len.
     obind (sprintf_into (req_msg r) (benchmark_message instance_nr count)) (\<lambda>msg.
     obind (strlen msg) (\<lambda>msg_len.
     Return (r\<lparr>req_method := SET, req_key := key, req_key_len := of_nat key_len, req_msg := msg,
              req_msg_len := of_nat msg_len, req_client_id := instance_nr\<rparr>)))))"

definition make_get_request :: "int \<Rightarrow> (bench, unit) cmd" where
  "make_get_request count =
     cbind conn_request (\<lambda>request.
     cbind (cget (\<lambda>s. cc_instance_nr (conn s))) (\<lambda>instance_nr.
     cbind (clift (get_into instance_nr count request)) put_request))"

definition make_set_request :: "int \<Rightarrow> (bench, unit) cmd" where
  "make_set_request count =
     cbind conn_request (\<lambda>request.
     cbind (cget (\<lambda>s. cc_instance_nr (conn s))) (\<lambda>instance_nr.
     cbind (clift (set_into instance_nr count request)) put_request))"

text \<open>\<open>DUMP\<close> is not a case of the switch; instance 0 and \<open>count - 1\<close> are the source's.\<close>

definition make_expected_response :: "response \<Rightarrow> request \<Rightarrow> int \<Rightarrow> response outcome" where
  "make_expected_response response made_request count =
     (case req_method made_request of
        UNK \<Rightarrow> Return response
      | DUMP \<Rightarrow> Return response
      | GET \<Rightarrow>
          obind (sprintf_into (resp_msg response) (benchmark_message 0 (count - 1))) (\<lambda>msg.
          obind (strlen msg) (\<lambda>msg_len.
          Return (response\<lparr>resp_code := OK, resp_msg := msg, resp_msg_len := of_nat msg_len\<rparr>)))
      | _ \<Rightarrow> Return (response\<lparr>resp_code := OK\<rparr>))"

section \<open>Performing operations\<close>

text \<open>
  The loop of one operation: send and receive until the response is there; a receive that has timed
  out returns 0. The result is the error that ends the thread, or nothing. \<open>fuel\<close> bounds the turns;
  every turn makes an external call, so the length of the script is enough.
\<close>

fun attempts :: "nat \<Rightarrow> (bench, int option) cmd" where
  "attempts 0 = (\<lambda>s. Diverges)"
| "attempts (Suc fuel) =
     cbind send_request (\<lambda>returned.
     check (returned \<noteq> 0) (Some returned) (
     cbind receive_response (\<lambda>returned.
     check (returned < 0) (Some returned) (
     if returned = 0 then attempts fuel else cret None))))"

text \<open>Storing into entry \<open>count\<close> of the array of operations.\<close>

definition stamp :: "nat \<Rightarrow> (operation \<Rightarrow> operation) \<Rightarrow> (bench, unit) cmd" where
  "stamp count f =
     cbind (cget ops) (\<lambda>os.
     if count < length os then cput (\<lambda>s. s\<lparr>ops := os[count := f (os ! count)]\<rparr>)
     else (\<lambda>s. Undefined Out_of_bounds))"

definition choose_request :: "nat \<Rightarrow> (bench, unit) cmd" where
  "choose_request count =
     cbind (ext (Sys Rand)) (\<lambda>r.
     if rep_ret r mod 100 \<le> 5 then make_set_request (int count)
     else
       cbind (ext (Sys Rand)) (\<lambda>r.
       make_get_request (rep_ret r mod (int count + 1) - 1)))"

definition perform_operation :: "nat \<Rightarrow> (bench, int option) cmd" where
  "perform_operation count =
     cseq (choose_request count) (
     cseq (stamp count (\<lambda>op. op\<lparr>op_start := Some None, op_end := Some None\<rparr>)) (
     cbind (ext (Sys Gettimeofday)) (\<lambda>now.
     cseq (stamp count (\<lambda>op. op\<lparr>op_start := Some (Some (rep_time now))\<rparr>)) (
     cbind (\<lambda>s. attempts (Suc (length (script s))) s) (\<lambda>failed.
     case failed of Some ret \<Rightarrow> cret (Some ret) | None \<Rightarrow>
     cbind (ext (Sys Gettimeofday)) (\<lambda>now.
     cseq (stamp count (\<lambda>op. op\<lparr>op_end := Some (Some (rep_time now))\<rparr>)) (
     cret None)))))))"

text \<open>
  The loop over the operations, which tests \<open>count < num_ops\<close> after the first. \<open>count\<close> is an \<open>int\<close>;
  its overflow is undefined. The result is the error of \<open>check\<close>, or nothing.
\<close>

fun operations :: "nat \<Rightarrow> u32 \<Rightarrow> nat \<Rightarrow> (bench, int option) cmd" where
  "operations 0 num_ops count = (\<lambda>s. Diverges)"
| "operations (Suc fuel) num_ops count =
     cbind (perform_operation count) (\<lambda>failed.
     case failed of Some ret \<Rightarrow> cret (Some ret) | None \<Rightarrow>
     if 2 ^ 31 \<le> Suc count then (\<lambda>s. Undefined Signed_overflow)
     else if Suc count < unat num_ops then operations fuel num_ops (Suc count)
     else cret None)"

record thread_args =
  ta_conn_t :: connection_type
  ta_num_ops :: u32
  ta_instance_nr :: int
  ta_blocking :: bool

text \<open>What \<open>malloc\<close> returns for the connection.\<close>

record fresh_conn =
  fresh_tsc :: tcp_server_conn
  fresh_rsc :: rc_server_conn
  fresh_usc :: uc_server_conn
  fresh_dsc :: ud_server_conn

text \<open>
  Connecting; \<^const>\<open>Some\<close> is the error of a \<open>check\<close>. For TCP the results are not looked at.
\<close>

definition open_connection :: "thread_args \<Rightarrow> fresh_conn \<Rightarrow> int \<Rightarrow> (bench, int option) cmd" where
  "open_connection args fresh random =
     cseq (upd_conn (\<lambda>c. \<lparr>cc_conn_t = ta_conn_t args, cc_blocking = ta_blocking args,
             cc_instance_nr = ta_instance_nr args, cc_rc_server_conn = None, cc_ud_server_conn = None,
             cc_uc_server_conn = None, cc_tcp_server_conn = None\<rparr>)) (
     case ta_conn_t args of
       TCP \<Rightarrow>
         cseq (upd_conn (\<lambda>c. c\<lparr>cc_tcp_server_conn := Some (fresh_tsc fresh)\<rparr>)) (
         cbind tcp_client_prepare_connection (\<lambda>ignored.
         cbind tcp_client_connect_to_server (\<lambda>ignored.
         cret None)))
     | RC \<Rightarrow>
         cseq (upd_conn (\<lambda>c. c\<lparr>cc_rc_server_conn := Some ((fresh_rsc fresh)\<lparr>rsc_request := Some zero_request\<rparr>)\<rparr>)) (
         cseq (cput (\<lambda>s. s\<lparr>rx := [zero_response]\<rparr>)) (
         cbind client_prepare_connection (\<lambda>returned.
         check (returned \<noteq> 0) (Some returned) (
         cbind client_connect_to_server (\<lambda>returned.
         check (returned \<noteq> 0) (Some returned) (
         cret None))))))
     | UC \<Rightarrow>
         cseq (upd_conn (\<lambda>c. c\<lparr>cc_uc_server_conn := Some ((fresh_usc fresh)\<lparr>usc_request := Some zero_request\<rparr>)\<rparr>)) (
         cseq (cput (\<lambda>s. s\<lparr>rx := [zero_response]\<rparr>)) (
         cbind (uc_client_prepare_connection random) (\<lambda>returned.
         check (returned \<noteq> 0) (Some returned) (
         cbind uc_client_connect_to_server (\<lambda>returned.
         check (returned \<noteq> 0) (Some returned) (
         cret None))))))
     | UD \<Rightarrow>
         cseq (upd_conn (\<lambda>c. c\<lparr>cc_ud_server_conn := Some ((fresh_dsc fresh)
                 \<lparr>dsc_request := Some zero_request, dsc_client_id := ta_instance_nr args\<rparr>)\<rparr>)) (
         cseq (cput (\<lambda>s. s\<lparr>rx := [zero_response]\<rparr>)) (
         cbind (ud_prepare_client random) (\<lambda>returned.
         check (returned \<noteq> 0) (Some returned) (
         cbind ud_client_connect_to_server (\<lambda>returned.
         check (returned \<noteq> 0) (Some returned) (
         cret None)))))))"

text \<open>
  The thread: nothing when connecting has failed, else the array of operations, which a failed
  operation returns as it is.
\<close>

definition start_instance :: "thread_args \<Rightarrow> fresh_conn \<Rightarrow> int \<Rightarrow> (bench, operation list option) cmd" where
  "start_instance args fresh random =
     cbind (open_connection args fresh random) (\<lambda>failed.
     case failed of Some ret \<Rightarrow> cret None | None \<Rightarrow>
     cseq (cput (\<lambda>s. s\<lparr>ops := replicate (unat (ta_num_ops args)) \<lparr>op_start = None, op_end = None\<rparr>\<rparr>)) (
     cseq (ext_ignored (Sys (Sleep 1))) (
     cbind (\<lambda>s. operations (Suc (length (script s))) (ta_num_ops args) 0 s) (\<lambda>ignored.
     cbind (cget ops) (\<lambda>os. cret (Some os))))))"

end
