(* ===== verification/Completions.thy ===== *)
theory Completions
  imports RDMA_Common
begin

text \<open>
  What the waiting functions of theory \<open>RDMA_Common\<close> do: they end on every script, they succeed when
  the outside delivers the completion they wait for after any number of empty polls, and they leave
  the rest of the state alone.
\<close>

section \<open>Messages on the wire\<close>

fun sent_messages :: "('t call \<times> 'm reply) list \<Rightarrow> 't list" where
  "sent_messages [] = []"
| "sent_messages ((Write_message fd m, r) # es) = m # sent_messages es"
| "sent_messages ((Post_send qp wr n m ah, r) # es) = m # sent_messages es"
| "sent_messages (e # es) = sent_messages es"

lemma sent_messages_append [simp]: "sent_messages (xs @ ys) = sent_messages xs @ sent_messages ys"
  by (induction xs rule: sent_messages.induct) auto

text \<open>
  The calls that move data: posting a receive, posting a send, writing to a socket. The messages sent
  are those these calls carry.
\<close>

fun moves_data :: "'t call \<Rightarrow> bool" where
  "moves_data (Post_recv q wr i n) = True"
| "moves_data (Post_send q wr n m ah) = True"
| "moves_data (Write_message fd m) = True"
| "moves_data c = False"

definition work_calls :: "('t call \<times> 'm reply) list \<Rightarrow> 't call list" where
  "work_calls tr = filter moves_data (map fst tr)"

fun messages_of :: "'t call list \<Rightarrow> 't list" where
  "messages_of [] = []"
| "messages_of (Write_message fd m # cs) = m # messages_of cs"
| "messages_of (Post_send q wr n m ah # cs) = m # messages_of cs"
| "messages_of (c # cs) = messages_of cs"

lemma messages_of_append [simp]: "messages_of (cs @ ds) = messages_of cs @ messages_of ds"
  by (induction cs rule: messages_of.induct) auto

lemma work_calls_simps [simp]:
  "work_calls [] = []" "work_calls (tr @ tr') = work_calls tr @ work_calls tr'"
  "work_calls ((c, r) # tr) = (if moves_data c then c # work_calls tr else work_calls tr)"
  by (simp_all add: work_calls_def)

lemma messages_of_work: "messages_of (work_calls tr) = sent_messages tr"
  by (induction tr rule: sent_messages.induct) auto

section \<open>The loops end\<close>

text \<open>\<open>ends m s\<close>: the run of \<open>m\<close> from \<open>s\<close> does not diverge; with rules for every way to build \<open>m\<close>.\<close>

definition ends :: "('s, 'a) cmd \<Rightarrow> 's \<Rightarrow> bool" where
  "ends m s \<longleftrightarrow> m s \<noteq> Diverges"

lemma ends_cbind: "ends m s \<Longrightarrow> (\<And>a s'. m s = Return (a, s') \<Longrightarrow> ends (f a) s') \<Longrightarrow> ends (cbind m f) s"
  by (cases "m s") (auto simp: cbind_def ends_def)

lemma ends_cseq: "ends m s \<Longrightarrow> (\<And>a s'. m s = Return (a, s') \<Longrightarrow> ends n s') \<Longrightarrow> ends (cseq m n) s"
  by (simp add: cseq_def ends_cbind)

lemma ends_ext: "ends (ext c) s" "ends (ext_ignored c) s"
  by (cases "script s"; simp add: ends_def ext_def ext_ignored_def cbind_def cret_def)+

lemma ends_basic: "ends (cret a) s" "ends (cget f) s" "ends (cput g) s" "ends (exit_process n) s"
  "ends (\<lambda>s. Undefined u) s" "ends (\<lambda>s. Blocked) s"
  by (simp_all add: ends_def cmd_run)

lemma ends_if: "(b \<Longrightarrow> ends m s) \<Longrightarrow> (\<not> b \<Longrightarrow> ends n s) \<Longrightarrow> ends (if b then m else n) s"
  by simp

lemma ends_case:
  "(p = None \<Longrightarrow> ends m s) \<Longrightarrow> (\<And>x. p = Some x \<Longrightarrow> ends (f x) s) \<Longrightarrow> ends (case p of None \<Rightarrow> m | Some x \<Rightarrow> f x) s"
  "(\<And>x. q = Inl x \<Longrightarrow> ends (g x) s) \<Longrightarrow> (\<And>y. q = Inr y \<Longrightarrow> ends (h y) s) \<Longrightarrow>
     ends (case q of Inl x \<Rightarrow> g x | Inr y \<Rightarrow> h y) s"
  "(\<And>x y. r = (x, y) \<Longrightarrow> ends (k x y) s) \<Longrightarrow> ends (case r of (x, y) \<Rightarrow> k x y) s"
  by (simp_all split: option.split sum.split prod.split)

lemma ends_check: "ends m s \<Longrightarrow> ends (check b a m) s" "ends n t \<Longrightarrow> ends (check_errno c n) t"
  "ends u s \<Longrightarrow> ends (cwhen b u) s"
  by (cases b; cases c; simp add: cmd_run ends_def)+

lemmas ends_intros = ends_cbind ends_cseq ends_ext ends_basic ends_if ends_case ends_check

lemma poll_loop_ends:
  "length (script s) < fuel \<Longrightarrow> ends (poll_loop fuel cq n wcs tot) s"
proof (induction fuel arbitrary: wcs tot s)
  case (Suc fuel)
  have "ends (poll_loop fuel cq n wcs' tot') s'"
    if "ext (Poll_cq cq k) s = Return (r, s')" for r s' k wcs' tot'
    using ext_consumes [OF that] Suc.prems by (intro Suc.IH) simp
  then show ?case by (auto intro!: ends_intros)
qed simp

lemma timed_loop_ends:
  "length (script s) < fuel \<Longrightarrow> ends (timed_loop fuel cq n start wcs tot) s"
proof (induction fuel arbitrary: wcs tot s)
  case (Suc fuel)
  have "ends (timed_loop fuel cq n start wcs' tot') s''"
    if "ext (Poll_cq cq k) s = Return (r, s')" "ext (Sys Gettimeofday) s' = Return (t, s'')"
    for r s' t s'' k wcs' tot'
    using ext_consumes [OF that(1)] ext_consumes [OF that(2)] Suc.prems by (intro Suc.IH) simp
  then show ?case by (auto intro!: ends_intros)
qed simp

lemma poll_ends:
  "ends (\<lambda>s. poll_loop (Suc (length (script s))) cq n wcs tot s) s"
  "ends (\<lambda>s. timed_loop (Suc (length (script s))) cq n start wcs tot s) s"
  using poll_loop_ends [of s "Suc (length (script s))"] timed_loop_ends [of s "Suc (length (script s))"]
  by (simp_all only: ends_def) simp_all

lemma process_work_completion_events_ends: "ends (process_work_completion_events ch n cq b) s"
  unfolding process_work_completion_events_def Let_def
  by (intro ends_intros poll_ends)

lemma process_with_timeout_ends: "ends (process_work_completion_events_with_timeout n cq ch b) s"
  unfolding process_work_completion_events_with_timeout_def Let_def
  by (intro ends_intros poll_ends)

section \<open>One completion\<close>

text \<open>
  \<open>completion b ws rs\<close>: the replies \<open>rs\<close> deliver one successful completion, after some polls that
  find nothing; with \<open>b\<close>, around it the notification, the request for the next one and the
  acknowledgement. \<open>ws\<close> is what the card has written to the receive buffers by then.
\<close>

definition empty_poll :: "'m reply \<Rightarrow> bool" where
  "empty_poll r \<longleftrightarrow> rep_ret r = 0 \<and> rep_wcs r = [] \<and> rep_dma r = []"

definition one_completion :: "(nat \<times> 'm) list \<Rightarrow> 'm reply \<Rightarrow> bool" where
  "one_completion ws r \<longleftrightarrow>
     rep_ret r = 1 \<and> (\<exists>w. rep_wcs r = [w] \<and> wc_status w = 0) \<and> rep_dma r = ws"

definition succeeded :: "'m reply \<Rightarrow> bool" where
  "succeeded r \<longleftrightarrow> rep_ret r = 0 \<and> rep_dma r = []"

definition completion :: "bool \<Rightarrow> (nat \<times> 'm) list \<Rightarrow> 'm reply list \<Rightarrow> bool" where
  "completion b ws rs \<longleftrightarrow>
     (\<exists>zs r. (\<forall>z \<in> set zs. empty_poll z) \<and> one_completion ws r \<and>
        (if b then \<exists>e n a. succeeded e \<and> succeeded n \<and> succeeded a \<and> rs = e # n # zs @ [r, a]
         else rs = zs @ [r]))"

text \<open>\<open>quiet_step s s'\<close>: only the script, the trace and \<open>errno\<close> differ, and no message was sent.\<close>

definition io_step :: "'t list \<Rightarrow> (nat \<times> 'm) list \<Rightarrow> ('t, 'm, 'z) io_scheme \<Rightarrow> ('t, 'm, 'z) io_scheme \<Rightarrow> bool" where
  "io_step out ws s s' \<longleftrightarrow>
     io.more s' = io.more s \<and> rx s' = dma ws (rx s) \<and>
     sent_messages (trace s') = sent_messages (trace s) @ out"

text \<open>The same with the calls that moved data instead of the messages.\<close>

definition io_work :: "'t call list \<Rightarrow> (nat \<times> 'm) list \<Rightarrow> ('t, 'm, 'z) io_scheme \<Rightarrow> ('t, 'm, 'z) io_scheme \<Rightarrow> bool" where
  "io_work out ws s s' \<longleftrightarrow>
     io.more s' = io.more s \<and> rx s' = dma ws (rx s) \<and> work_calls (trace s') = work_calls (trace s) @ out"

lemma dma_append [simp]: "dma (ws @ ws') b = dma ws' (dma ws b)"
  by (induction ws b rule: dma.induct) auto

lemma io_step_refl [simp]: "io_step [] [] s s"
  by (simp add: io_step_def)

lemma io_step_trans: "io_step o1 w1 s t \<Longrightarrow> io_step o2 w2 t u \<Longrightarrow> io_step (o1 @ o2) (w1 @ w2) s u"
  by (simp add: io_step_def)

lemma ext_step:
  assumes "script s = r # rs"
  shows "\<exists>s'. ext c s = Return (r, s') \<and> script s' = rs \<and> io_step (sent_messages [(c, r)]) (rep_dma r) s s'"
  using assms by (simp add: cmd_run io_step_def)

lemma io_work_step: "io_work out ws s s' \<Longrightarrow> io_step (messages_of out) ws s s'"
  by (simp add: io_work_def io_step_def flip: messages_of_work)

lemma io_work_trans: "io_work o1 w1 s t \<Longrightarrow> io_work o2 w2 t u \<Longrightarrow> io_work (o1 @ o2) (w1 @ w2) s u"
  by (simp add: io_work_def)

lemma ext_work:
  assumes "script s = r # rs"
  shows "\<exists>s'. ext c s = Return (r, s') \<and> script s' = rs \<and>
    io_work (if moves_data c then [c] else []) (rep_dma r) s s'"
  using assms by (simp add: cmd_run io_work_def)

lemma poll_loop_completion:
  assumes "\<forall>z \<in> set zs. empty_poll z" and "one_completion ws r" and "length zs < fuel"
    and "script s = zs @ r # rs"
  shows "\<exists>s' w. poll_loop fuel cq 1 [] 0 s = Return (Inr ([w], 1), s') \<and> wc_status w = 0 \<and>
    script s' = rs \<and> io_work [] ws s s'"
  using assms
proof (induction zs arbitrary: fuel s)
  case Nil
  then obtain k where "fuel = Suc k" by (cases fuel) auto
  with Nil show ?case by (auto simp: one_completion_def cmd_run io_work_def)
next
  case (Cons z zs)
  then obtain k where k: "fuel = Suc k" "length zs < k" by (cases fuel) auto
  obtain s1 where s1: "ext (Poll_cq cq 1) s = Return (z, s1)" "script s1 = zs @ r # rs"
    "io_work [] (rep_dma z) s s1"
    using ext_work [of s z "zs @ r # rs" "Poll_cq cq 1"] Cons.prems(4) by auto
  from Cons.IH [OF _ Cons.prems(2) k(2) s1(2)] Cons.prems(1) obtain s' w where
    s': "poll_loop k cq 1 [] 0 s1 = Return (Inr ([w], 1), s')" "wc_status w = 0" "script s' = rs"
      "io_work [] ws s1 s'" by auto
  have "io_work [] ws s s'" using io_work_trans [OF s1(3) s'(4)] Cons.prems(1) by (simp add: empty_poll_def)
  with s1 s' Cons.prems(1) k(1) show ?case by (simp add: cmd_run empty_poll_def)
qed

lemma process_completion_work:
  assumes "completion b ws rs" and "script s = rs @ rest"
  shows "\<exists>s'. process_work_completion_events ch 1 cq b s = Return (1, s') \<and> script s' = rest \<and>
    io_work [] ws s s'"
proof -
  from assms(1) obtain zs r where c: "\<forall>z \<in> set zs. empty_poll z" "one_completion ws r"
    "if b then \<exists>e n a. succeeded e \<and> succeeded n \<and> succeeded a \<and> rs = e # n # zs @ [r, a] else rs = zs @ [r]"
    unfolding completion_def by blast
  show ?thesis
  proof (cases b)
    case False
    with c(3) assms(2) have sc: "script s = zs @ r # rest" by simp
    then have "length zs < Suc (length (script s))" by simp
    from poll_loop_completion [OF c(1,2) this sc, of cq] False show ?thesis
      by (auto simp: process_work_completion_events_def cmd_run simp del: poll_loop.simps)
  next
    case True
    with c(3) obtain e n a where ena: "succeeded e" "succeeded n" "succeeded a" "rs = e # n # zs @ [r, a]"
      by auto
    obtain s1 where s1: "ext (Get_cq_event ch) s = Return (e, s1)"
      "script s1 = n # zs @ r # a # rest" "io_work [] [] s s1"
      using ext_work [of s e "n # zs @ r # a # rest" "Get_cq_event ch"] assms(2) ena
      by (auto simp: succeeded_def)
    obtain s2 where s2: "ext (Req_notify_cq (rep_num e)) s1 = Return (n, s2)"
      "script s2 = zs @ r # a # rest" "io_work [] [] s1 s2"
      using ext_work [OF s1(2), of "Req_notify_cq (rep_num e)"] ena by (auto simp: succeeded_def)
    have "length zs < Suc (length (script s2))" using s2(2) by simp
    from poll_loop_completion [OF c(1,2) this s2(2)] obtain s3 w where
      s3: "poll_loop (Suc (length (script s2))) (rep_num e) 1 [] 0 s2 = Return (Inr ([w], 1), s3)"
        "wc_status w = 0" "script s3 = a # rest" "io_work [] ws s2 s3" by blast
    obtain s4 where s4: "ext (Ack_cq_events (rep_num e)) s3 = Return (a, s4)" "script s4 = rest"
      "io_work [] [] s3 s4"
      using ext_work [OF s3(3), of "Ack_cq_events (rep_num e)"] ena by (auto simp: succeeded_def)
    have "ext_ignored (Ack_cq_events (rep_num e)) s3 = Return ((), s4)"
      using s4(1) by (simp add: ext_ignored_def cmd_run)
    then have "process_work_completion_events ch 1 cq b s = Return (1, s4)"
      using s1 s2 s3 ena True
      by (simp add: process_work_completion_events_def cmd_run succeeded_def del: poll_loop.simps)
    moreover have "io_work [] ws s s4"
      using io_work_trans [OF s1(3) io_work_trans [OF s2(3) io_work_trans [OF s3(4) s4(3)]]] by simp
    ultimately show ?thesis using s4(2) by blast
  qed
qed

lemma process_completion:
  assumes "completion b ws rs" and "script s = rs @ rest"
  shows "\<exists>s'. process_work_completion_events ch 1 cq b s = Return (1, s') \<and> script s' = rest \<and>
    io_step [] ws s s'"
  using process_completion_work [OF assms] io_work_step by fastforce

end
