(* ===== verification/Client_Transport.thy ===== *)
theory Client_Transport
  imports Instance Completions
begin

text \<open>
  What a benchmark thread needs of its transport, as a locale: a request is sent once, a response
  arrives in the buffer, or nothing has arrived when the time is up. The locale is interpreted on the
  four transports; what a thread does over any of them is in theory \<open>Client_Sessions\<close>.
\<close>

section \<open>Waiting with a timeout\<close>

text \<open>
  The replies of a wait with timeout: the time when it starts, empty polls each followed by a time less
  than 100 milliseconds later, and a last poll with its time. Either the last poll finds the completion,
  or it finds nothing and the time is up.
\<close>

definition in_time :: "'m reply \<Rightarrow> 'm reply \<Rightarrow> bool" where
  "in_time start now \<longleftrightarrow> rep_dma now = [] \<and>
     msec (rep_time now) - msec (rep_time start) < MAX_POLL_CQ_TIMEOUT"

definition timed_polls :: "'m reply \<Rightarrow> ('m reply \<times> 'm reply) list \<Rightarrow> bool" where
  "timed_polls start ps \<longleftrightarrow> (\<forall>(z, t) \<in> set ps. empty_poll z \<and> in_time start t)"

definition last_poll :: "'m reply \<Rightarrow> nat \<Rightarrow> (nat \<times> 'm) list \<Rightarrow> 'm reply \<Rightarrow> 'm reply \<Rightarrow> bool" where
  "last_poll start n ws r t \<longleftrightarrow> rep_dma t = [] \<and>
     (n = 1 \<and> one_completion ws r \<or> n = 0 \<and> ws = [] \<and> empty_poll r \<and> \<not> in_time start t)"

definition timed_wait :: "bool \<Rightarrow> nat \<Rightarrow> (nat \<times> 'm) list \<Rightarrow> 'm reply list \<Rightarrow> bool" where
  "timed_wait b n ws rs \<longleftrightarrow>
     (\<exists>start ps r t. rep_dma start = [] \<and> timed_polls start ps \<and> last_poll start n ws r t \<and>
        (let body = start # concat (map (\<lambda>(z, t). [z, t]) ps) @ [r, t] in
         if b then \<exists>e nt a. succeeded e \<and> succeeded nt \<and> succeeded a \<and> rs = e # nt # body @ [a]
         else rs = body))"

lemma timed_loop_run:
  assumes "timed_polls start ps" and "last_poll start n ws r t" and "length ps < fuel"
    and "script s = concat (map (\<lambda>(z, t). [z, t]) ps) @ r # t # rest"
  shows "\<exists>s' wcs. timed_loop fuel cq 1 (msec (rep_time start)) [] 0 s = Return (Inr (wcs, int n), s') \<and>
    check_status wcs = None \<and> script s' = rest \<and> io_step [] ws s s'"
  using assms
proof (induction ps arbitrary: fuel s)
  case Nil
  then obtain k where "fuel = Suc k" by (cases fuel) auto
  with Nil show ?case
    by (auto simp: last_poll_def one_completion_def empty_poll_def in_time_def cmd_run io_step_def)
next
  case (Cons p ps)
  obtain z u where p: "p = (z, u)" by (cases p)
  from Cons.prems obtain k where k: "fuel = Suc k" "length ps < k" by (cases fuel) auto
  from Cons.prems(1) p have z: "empty_poll z" "in_time start u" "timed_polls start ps"
    by (auto simp: timed_polls_def)
  let ?rest = "concat (map (\<lambda>(z, t). [z, t]) ps) @ r # t # rest"
  obtain s1 where s1: "ext (Poll_cq cq 1) s = Return (z, s1)" "script s1 = u # ?rest"
    "io_step [] (rep_dma z) s s1"
    using ext_step [of s z "u # ?rest" "Poll_cq cq 1"] Cons.prems(4) p by auto
  obtain s2 where s2: "ext (Sys Gettimeofday) s1 = Return (u, s2)" "script s2 = ?rest"
    "io_step [] (rep_dma u) s1 s2"
    using ext_step [OF s1(2), of "Sys Gettimeofday"] by auto
  from Cons.IH [OF z(3) Cons.prems(2) k(2) s2(2)] obtain s' wcs where s':
    "timed_loop k cq 1 (msec (rep_time start)) [] 0 s2 = Return (Inr (wcs, int n), s')"
    "check_status wcs = None" "script s' = rest" "io_step [] ws s2 s'" by blast
  have "io_step [] ws s s'"
    using io_step_trans [OF io_step_trans [OF s1(3) s2(3)] s'(4)] z(1,2)
    by (simp add: empty_poll_def in_time_def)
  moreover have "timed_loop fuel cq 1 (msec (rep_time start)) [] 0 s = Return (Inr (wcs, int n), s')"
    using s1(1) s2(1) s'(1) z(1,2) k(1) by (simp add: cmd_run empty_poll_def in_time_def)
  ultimately show ?case using s'(2,3) by blast
qed

lemma timed_poll_run:
  assumes "rep_dma start = []" and "timed_polls start ps" and "last_poll start n ws r t"
    and sc: "script s = start # (concat (map (\<lambda>(z, t). [z, t]) ps) @ [r, t]) @ rest"
  shows "\<exists>s1 s2 wcs. ext (Sys Gettimeofday) s = Return (start, s1) \<and>
    timed_loop (Suc (length (script s1))) cq 1 (msec (rep_time start)) [] 0 s1 = Return (Inr (wcs, int n), s2) \<and>
    check_status wcs = None \<and> script s2 = rest \<and> io_step [] ws s s2"
proof -
  obtain s1 where s1: "ext (Sys Gettimeofday) s = Return (start, s1)"
    "script s1 = concat (map (\<lambda>(z, t). [z, t]) ps) @ r # t # rest" "io_step [] (rep_dma start) s s1"
    using ext_step [OF sc, of "Sys Gettimeofday"] by auto
  have "length ps \<le> length (concat (map (\<lambda>(z, t). [z, t]) ps))" by (induction ps) auto
  then have "length ps < Suc (length (script s1))" using s1(2) by simp
  from timed_loop_run [OF assms(2,3) this s1(2)] obtain s2 wcs where
    "timed_loop (Suc (length (script s1))) cq 1 (msec (rep_time start)) [] 0 s1 = Return (Inr (wcs, int n), s2)"
    "check_status wcs = None" "script s2 = rest" "io_step [] ws s1 s2" by blast
  moreover from this(4) have "io_step [] ws s s2"
    using io_step_trans [OF s1(3)] assms(1) by fastforce
  ultimately show ?thesis using s1(1) by blast
qed

lemma process_timed_wait:
  assumes "timed_wait b n ws rs" and "script s = rs @ rest"
  shows "\<exists>s'. process_work_completion_events_with_timeout 1 cq ch b s = Return (int n, s') \<and>
    script s' = rest \<and> io_step [] ws s s'"
proof -
  from assms(1) obtain start ps r t where w: "rep_dma start = []" "timed_polls start ps"
    "last_poll start n ws r t"
    "let body = start # concat (map (\<lambda>(z, t). [z, t]) ps) @ [r, t] in
       if b then \<exists>e nt a. succeeded e \<and> succeeded nt \<and> succeeded a \<and> rs = e # nt # body @ [a] else rs = body"
    unfolding timed_wait_def by blast
  let ?polls = "concat (map (\<lambda>(z, t). [z, t]) ps) @ [r, t]"
  note loop = timed_poll_run [OF w(1-3)]
  show ?thesis
  proof (cases b)
    case False
    with w(4) assms(2) have "script s = start # ?polls @ rest" by (simp add: Let_def)
    from loop [OF this] obtain s1 s2 wcs where
      "ext (Sys Gettimeofday) s = Return (start, s1)"
      "timed_loop (Suc (length (script s1))) cq 1 (msec (rep_time start)) [] 0 s1 = Return (Inr (wcs, int n), s2)"
      "check_status wcs = None" "script s2 = rest" "io_step [] ws s s2" by blast
    with False show ?thesis
      by (simp add: process_work_completion_events_with_timeout_def cmd_run del: timed_loop.simps)
  next
    case True
    with w(4) obtain e nt a where ena: "succeeded e" "succeeded nt" "succeeded a"
      "rs = e # nt # start # ?polls @ [a]" by (auto simp: Let_def)
    obtain s1 where s1: "ext (Get_cq_event ch) s = Return (e, s1)"
      "script s1 = nt # start # ?polls @ a # rest" "io_step [] [] s s1"
      using ext_step [of s e "nt # start # ?polls @ a # rest" "Get_cq_event ch"] assms(2) ena
      by (auto simp: succeeded_def)
    obtain s2 where s2: "ext (Req_notify_cq (rep_num e)) s1 = Return (nt, s2)"
      "script s2 = start # ?polls @ a # rest" "io_step [] [] s1 s2"
      using ext_step [OF s1(2), of "Req_notify_cq (rep_num e)"] ena by (auto simp: succeeded_def)
    from loop [OF s2(2)] obtain s3 s4 wcs where s4: "ext (Sys Gettimeofday) s2 = Return (start, s3)"
      "timed_loop (Suc (length (script s3))) (rep_num e) 1 (msec (rep_time start)) [] 0 s3 = Return (Inr (wcs, int n), s4)"
      "check_status wcs = None" "script s4 = a # rest" "io_step [] ws s2 s4" by blast
    obtain s5 where s5: "ext (Ack_cq_events (rep_num e)) s4 = Return (a, s5)" "script s5 = rest"
      "io_step [] [] s4 s5"
      using ext_step [OF s4(4), of "Ack_cq_events (rep_num e)"] ena by (auto simp: succeeded_def)
    have "process_work_completion_events_with_timeout 1 cq ch b s = Return (int n, s5)"
      using s1 s2 s4 s5 ena True
      by (simp add: process_work_completion_events_with_timeout_def cmd_run succeeded_def ext_ignored_def
          del: timed_loop.simps)
    moreover have "io_step [] ws s s5"
      using io_step_trans [OF s1(3) io_step_trans [OF s2(3) io_step_trans [OF s4(5) s5(3)]]] by simp
    ultimately show ?thesis using s5(2) by blast
  qed
qed

section \<open>The contract\<close>

text \<open>
  \<open>connected c r\<close>: the connection \<open>c\<close> is set up and its request buffer holds \<open>r\<close>. The three kinds of
  replies are those to sending a request, to receiving the response \<open>x\<close>, and to a receive whose time is
  up.
\<close>

lemma more_bench:
  fixes s s' :: bench
  assumes "io.more s' = io.more s"
  shows "conn s' = conn s" "ops s' = ops s"
  using assms by (cases s; cases s'; simp)+

locale client_transport =
  fixes connected :: "client_to_server_conn \<Rightarrow> request \<Rightarrow> bool"
    and sent :: "response reply list \<Rightarrow> bool"
    and received :: "response \<Rightarrow> response reply list \<Rightarrow> bool"
    and lost :: "response reply list \<Rightarrow> bool"
  assumes send_law: "connected (conn s) r \<Longrightarrow> sent a \<Longrightarrow> script s = a @ rest \<Longrightarrow>
      \<exists>s'. send_request s = Return (0, s') \<and> script s' = rest \<and> io_step [r] [] s s'"
    and receive_law: "connected (conn s) r \<Longrightarrow> received x a \<Longrightarrow> script s = a @ rest \<Longrightarrow>
      \<exists>n s'. receive_response s = Return (n, s') \<and> 0 < n \<and> script s' = rest \<and> io_step [] [(0, x)] s s'"
    and lost_law: "connected (conn s) r \<Longrightarrow> lost a \<Longrightarrow> script s = a @ rest \<Longrightarrow>
      \<exists>s'. receive_response s = Return (0, s') \<and> script s' = rest \<and> io_step [] [] s s'"
    and sent_replies: "sent a \<Longrightarrow> a \<noteq> []"
    and request_law: "connected (conn s) r \<Longrightarrow> conn_request s = Return (r, s) \<and>
      (\<exists>c. put_request r' s = Return ((), s\<lparr>conn := c\<rparr>) \<and> connected c r' \<and> cc_instance_nr c = cc_instance_nr (conn s))"

section \<open>TCP\<close>

definition tcp_connected :: "client_to_server_conn \<Rightarrow> request \<Rightarrow> bool" where
  "tcp_connected c r \<longleftrightarrow> cc_conn_t c = TCP \<and>
     (\<exists>t. cc_tcp_server_conn c = Some t \<and> tsc_request t = Some r)"

definition tcp_sent :: "response reply list \<Rightarrow> bool" where
  "tcp_sent a \<longleftrightarrow> (\<exists>w. a = [w] \<and> 0 < rep_ret w \<and> rep_dma w = [])"

definition tcp_received :: "response \<Rightarrow> response reply list \<Rightarrow> bool" where
  "tcp_received x a \<longleftrightarrow> (\<exists>r. a = [r] \<and> 0 < rep_ret r \<and> rep_dma r = [(0, x)])"

text \<open>A \<open>read\<close> at the end of the stream that leaves \<open>errno\<close> at 0 counts as a response that is not there yet.\<close>

definition tcp_lost :: "response reply list \<Rightarrow> bool" where
  "tcp_lost a \<longleftrightarrow> (\<exists>r. a = [r] \<and> rep_ret r = 0 \<and> rep_errno r = 0 \<and> rep_dma r = [])"

interpretation tcp_link: client_transport tcp_connected tcp_sent tcp_received tcp_lost
proof
  fix s :: bench and r r' :: request and a rest :: "response reply list" and x :: response
  show "\<exists>s'. send_request s = Return (0, s') \<and> script s' = rest \<and> io_step [r] [] s s'"
    if "tcp_connected (conn s) r" "tcp_sent a" "script s = a @ rest"
    using that
    by (auto simp: tcp_connected_def tcp_sent_def send_request_def tcp_send_request_def cmd_run io_step_def)
  show "\<exists>n s'. receive_response s = Return (n, s') \<and> 0 < n \<and> script s' = rest \<and> io_step [] [(0, x)] s s'"
    if "tcp_connected (conn s) r" "tcp_received x a" "script s = a @ rest"
    using that
    by (auto simp: tcp_connected_def tcp_received_def receive_response_def tcp_receive_response_def cmd_run io_step_def)
  show "\<exists>s'. receive_response s = Return (0, s') \<and> script s' = rest \<and> io_step [] [] s s'"
    if "tcp_connected (conn s) r" "tcp_lost a" "script s = a @ rest"
    using that
    by (auto simp: tcp_connected_def tcp_lost_def receive_response_def tcp_receive_response_def cmd_run io_step_def)
  show "a \<noteq> []" if "tcp_sent a" using that by (auto simp: tcp_sent_def)
  show "conn_request s = Return (r, s) \<and>
      (\<exists>c. put_request r' s = Return ((), s\<lparr>conn := c\<rparr>) \<and> tcp_connected c r' \<and> cc_instance_nr c = cc_instance_nr (conn s))"
    if "tcp_connected (conn s) r"
    using that by (auto simp: tcp_connected_def conn_request_def put_request_def cmd_run)
qed

section \<open>The transports with queue pairs\<close>

text \<open>Posting succeeds, and the completion comes or does not come in time.\<close>

definition posted_then :: "('m reply list \<Rightarrow> bool) \<Rightarrow> 'm reply list \<Rightarrow> bool" where
  "posted_then waiting a \<longleftrightarrow> (\<exists>p c. a = p # c \<and> rep_ret p = 0 \<and> rep_dma p = [] \<and> waiting c)"

text \<open>The part of a call after posting, for the two ways to wait.\<close>

lemma posted_completion:
  assumes "posted_then (completion b ws) a" and "script s = a @ rest"
  shows "\<exists>p s1 s'. ext call s = Return (p, s1) \<and> rep_ret p = 0 \<and>
    process_work_completion_events ch 1 cq b s1 = Return (1, s') \<and> script s' = rest \<and>
    io_step (sent_messages [(call, p)]) ws s s'"
proof -
  from assms obtain p c where p: "rep_ret p = 0" "rep_dma p = []" "completion b ws c" "script s = p # c @ rest"
    by (auto simp: posted_then_def)
  from ext_step [OF p(4)] obtain s1 where s1: "ext call s = Return (p, s1)" "script s1 = c @ rest"
    "io_step (sent_messages [(call, p)]) (rep_dma p) s s1" by blast
  from process_completion [OF p(3) s1(2)] obtain s' where s':
    "process_work_completion_events ch 1 cq b s1 = Return (1, s')" "script s' = rest" "io_step [] ws s1 s'" by blast
  from io_step_trans [OF s1(3) s'(3)] p(1,2) s1(1) s'(1,2) show ?thesis by auto
qed

lemma posted_timed_wait:
  assumes "posted_then (timed_wait b n ws) a" and "script s = a @ rest" and "int n = m"
  shows "\<exists>p s1 s'. ext call s = Return (p, s1) \<and> rep_ret p = 0 \<and>
    process_work_completion_events_with_timeout 1 cq ch b s1 = Return (m, s') \<and> script s' = rest \<and>
    io_step (sent_messages [(call, p)]) ws s s'"
proof -
  from assms obtain p c where p: "rep_ret p = 0" "rep_dma p = []" "timed_wait b n ws c" "script s = p # c @ rest"
    by (auto simp: posted_then_def)
  from ext_step [OF p(4)] obtain s1 where s1: "ext call s = Return (p, s1)" "script s1 = c @ rest"
    "io_step (sent_messages [(call, p)]) (rep_dma p) s s1" by blast
  from process_timed_wait [OF p(3) s1(2)] obtain s' where s':
    "process_work_completion_events_with_timeout 1 cq ch b s1 = Return (int n, s')" "script s' = rest"
    "io_step [] ws s1 s'" by blast
  from io_step_trans [OF s1(3) s'(3)] assms(3) p(1,2) s1(1) s'(1,2) show ?thesis by auto
qed

definition rc_connected :: "bool \<Rightarrow> client_to_server_conn \<Rightarrow> request \<Rightarrow> bool" where
  "rc_connected b c r \<longleftrightarrow> cc_conn_t c = RC \<and> cc_blocking c = b \<and>
     (\<exists>x. cc_rc_server_conn c = Some x \<and> rsc_request x = Some r \<and> rsc_client_request_mr x \<noteq> 0 \<and> rsc_client_response_mr x \<noteq> 0)"

interpretation rc_link: client_transport "rc_connected b" "posted_then (completion b [])"
  "\<lambda>x. posted_then (completion b [(0, x)])" "\<lambda>a. False"
proof
  fix s :: bench and r r' :: request and a rest :: "response reply list" and x :: response
  show "\<exists>s'. send_request s = Return (0, s') \<and> script s' = rest \<and> io_step [r] [] s s'"
    if c: "rc_connected b (conn s) r" and a: "posted_then (completion b []) a" "script s = a @ rest"
  proof -
    from c obtain y where y: "cc_conn_t (conn s) = RC" "cc_blocking (conn s) = b"
      "cc_rc_server_conn (conn s) = Some y" "rsc_request y = Some r" "rsc_client_request_mr y \<noteq> 0"
      by (auto simp: rc_connected_def)
    let ?call = "Post_send (rsc_client_qp y) 1 sizeof_request r None"
    from posted_completion [OF a] obtain p s1 s' where "ext ?call s = Return (p, s1)" "rep_ret p = 0"
      "process_work_completion_events (rsc_io_completion_channel y) 1 (rsc_client_cq y) b s1 = Return (1, s')" "script s' = rest"
      "io_step (sent_messages [(?call, p)]) [] s s'" by blast
    with y show ?thesis
      by (simp add: send_request_def rc_send_request_def post_send_def cmd_run)
  qed
  show "\<exists>n s'. receive_response s = Return (n, s') \<and> 0 < n \<and> script s' = rest \<and> io_step [] [(0, x)] s s'"
    if c: "rc_connected b (conn s) r" and a: "posted_then (completion b [(0, x)]) a" "script s = a @ rest"
  proof -
    from c obtain y where y: "cc_conn_t (conn s) = RC" "cc_blocking (conn s) = b"
      "cc_rc_server_conn (conn s) = Some y" "rsc_client_response_mr y \<noteq> 0"
      by (auto simp: rc_connected_def)
    let ?call = "Post_recv (rsc_client_qp y) 0 0 sizeof_response"
    from posted_completion [OF a] obtain p s1 s' where "ext ?call s = Return (p, s1)" "rep_ret p = 0"
      "process_work_completion_events (rsc_io_completion_channel y) 1 (rsc_client_cq y) b s1 = Return (1, s')" "script s' = rest"
      "io_step (sent_messages [(?call, p)]) [(0, x)] s s'" by blast
    with y show ?thesis
      by (simp add: receive_response_def rc_receive_response_def post_recieve_def cmd_run)
  qed
  show "a \<noteq> []" if "posted_then (completion b []) a" using that by (auto simp: posted_then_def)
  show "conn_request s = Return (r, s) \<and>
      (\<exists>c. put_request r' s = Return ((), s\<lparr>conn := c\<rparr>) \<and> rc_connected b c r' \<and> cc_instance_nr c = cc_instance_nr (conn s))"
    if "rc_connected b (conn s) r"
    using that by (auto simp: rc_connected_def conn_request_def put_request_def cmd_run)
qed simp_all

definition uc_connected :: "bool \<Rightarrow> client_to_server_conn \<Rightarrow> request \<Rightarrow> bool" where
  "uc_connected b c r \<longleftrightarrow> cc_conn_t c = UC \<and> cc_blocking c = b \<and>
     (\<exists>x. cc_uc_server_conn c = Some x \<and> usc_request x = Some r \<and> usc_client_request_mr x \<noteq> 0 \<and> usc_client_response_mr x \<noteq> 0)"

interpretation uc_link: client_transport "uc_connected b" "posted_then (completion b [])"
  "\<lambda>x. posted_then (timed_wait b 1 [(0, x)])" "posted_then (timed_wait b 0 [])"
proof
  fix s :: bench and r r' :: request and a rest :: "response reply list" and x :: response
  show "\<exists>s'. send_request s = Return (0, s') \<and> script s' = rest \<and> io_step [r] [] s s'"
    if c: "uc_connected b (conn s) r" and a: "posted_then (completion b []) a" "script s = a @ rest"
  proof -
    from c obtain y where y: "cc_conn_t (conn s) = UC" "cc_blocking (conn s) = b"
      "cc_uc_server_conn (conn s) = Some y" "usc_request y = Some r" "usc_client_request_mr y \<noteq> 0"
      by (auto simp: uc_connected_def)
    let ?call = "Post_send (usc_client_qp y) 1 sizeof_request r None"
    from posted_completion [OF a] obtain p s1 s' where "ext ?call s = Return (p, s1)" "rep_ret p = 0"
      "process_work_completion_events (usc_io_completion_channel y) 1 (usc_client_cq y) b s1 = Return (1, s')" "script s' = rest"
      "io_step (sent_messages [(?call, p)]) [] s s'" by blast
    with y show ?thesis
      by (simp add: send_request_def uc_send_request_def post_send_def cmd_run)
  qed
  show "\<exists>n s'. receive_response s = Return (n, s') \<and> 0 < n \<and> script s' = rest \<and> io_step [] [(0, x)] s s'"
    if c: "uc_connected b (conn s) r" and a: "posted_then (timed_wait b 1 [(0, x)]) a" "script s = a @ rest"
  proof -
    from c obtain y where y: "cc_conn_t (conn s) = UC" "cc_blocking (conn s) = b"
      "cc_uc_server_conn (conn s) = Some y" "usc_client_response_mr y \<noteq> 0"
      by (auto simp: uc_connected_def)
    let ?call = "Post_recv (usc_client_qp y) 0 0 sizeof_response"
    from posted_timed_wait [OF a semiring_1_class.of_nat_1] obtain p s1 s' where "ext ?call s = Return (p, s1)" "rep_ret p = 0"
      "process_work_completion_events_with_timeout 1 (usc_client_cq y) (usc_io_completion_channel y) b s1 = Return (1, s')" "script s' = rest"
      "io_step (sent_messages [(?call, p)]) [(0, x)] s s'" by blast
    with y show ?thesis
      by (simp add: receive_response_def uc_receive_response_def post_recieve_def cmd_run)
  qed
  show "\<exists>s'. receive_response s = Return (0, s') \<and> script s' = rest \<and> io_step [] [] s s'"
    if c: "uc_connected b (conn s) r" and a: "posted_then (timed_wait b 0 []) a" "script s = a @ rest"
  proof -
    from c obtain y where y: "cc_conn_t (conn s) = UC" "cc_blocking (conn s) = b"
      "cc_uc_server_conn (conn s) = Some y" "usc_client_response_mr y \<noteq> 0"
      by (auto simp: uc_connected_def)
    let ?call = "Post_recv (usc_client_qp y) 0 0 sizeof_response"
    from posted_timed_wait [OF a semiring_1_class.of_nat_0] obtain p s1 s' where "ext ?call s = Return (p, s1)" "rep_ret p = 0"
      "process_work_completion_events_with_timeout 1 (usc_client_cq y) (usc_io_completion_channel y) b s1 = Return (0, s')" "script s' = rest"
      "io_step (sent_messages [(?call, p)]) [] s s'" by blast
    with y show ?thesis
      by (simp add: receive_response_def uc_receive_response_def post_recieve_def cmd_run)
  qed
  show "a \<noteq> []" if "posted_then (completion b []) a" using that by (auto simp: posted_then_def)
  show "conn_request s = Return (r, s) \<and>
      (\<exists>c. put_request r' s = Return ((), s\<lparr>conn := c\<rparr>) \<and> uc_connected b c r' \<and> cc_instance_nr c = cc_instance_nr (conn s))"
    if "uc_connected b (conn s) r"
    using that by (auto simp: uc_connected_def conn_request_def put_request_def cmd_run)
qed

definition ud_connected :: "bool \<Rightarrow> client_to_server_conn \<Rightarrow> request \<Rightarrow> bool" where
  "ud_connected b c r \<longleftrightarrow> cc_conn_t c = UD \<and> cc_blocking c = b \<and>
     (\<exists>x. cc_ud_server_conn c = Some x \<and> dsc_request x = Some r \<and> dsc_client_request_mr x \<noteq> 0 \<and> dsc_client_response_mr x \<noteq> 0)"

interpretation ud_link: client_transport "ud_connected b" "posted_then (completion b [])"
  "\<lambda>x. posted_then (timed_wait b 1 [(0, x)])" "posted_then (timed_wait b 0 [])"
proof
  fix s :: bench and r r' :: request and a rest :: "response reply list" and x :: response
  show "\<exists>s'. send_request s = Return (0, s') \<and> script s' = rest \<and> io_step [r] [] s s'"
    if c: "ud_connected b (conn s) r" and a: "posted_then (completion b []) a" "script s = a @ rest"
  proof -
    from c obtain y where y: "cc_conn_t (conn s) = UD" "cc_blocking (conn s) = b"
      "cc_ud_server_conn (conn s) = Some y" "dsc_request y = Some r" "dsc_client_request_mr y \<noteq> 0"
      by (auto simp: ud_connected_def)
    let ?call = "Post_send (dsc_ud_qp y) 1 sizeof_request r (Some (dsc_ah y, qa_qpn (dsc_remote_dgram_qp_attrs y)))"
    from posted_completion [OF a] obtain p s1 s' where "ext ?call s = Return (p, s1)" "rep_ret p = 0"
      "process_work_completion_events (dsc_io_completion_channel y) 1 (dsc_ud_cq y) b s1 = Return (1, s')" "script s' = rest"
      "io_step (sent_messages [(?call, p)]) [] s s'" by blast
    with y show ?thesis
      by (simp add: send_request_def ud_send_request_def ud_post_send_def cmd_run)
  qed
  show "\<exists>n s'. receive_response s = Return (n, s') \<and> 0 < n \<and> script s' = rest \<and> io_step [] [(0, x)] s s'"
    if c: "ud_connected b (conn s) r" and a: "posted_then (timed_wait b 1 [(0, x)]) a" "script s = a @ rest"
  proof -
    from c obtain y where y: "cc_conn_t (conn s) = UD" "cc_blocking (conn s) = b"
      "cc_ud_server_conn (conn s) = Some y" "dsc_client_response_mr y \<noteq> 0"
      by (auto simp: ud_connected_def)
    let ?call = "Post_recv (dsc_ud_qp y) 0 0 sizeof_ud_response"
    from posted_timed_wait [OF a semiring_1_class.of_nat_1] obtain p s1 s' where "ext ?call s = Return (p, s1)" "rep_ret p = 0"
      "process_work_completion_events_with_timeout 1 (dsc_ud_cq y) (dsc_io_completion_channel y) b s1 = Return (1, s')" "script s' = rest"
      "io_step (sent_messages [(?call, p)]) [(0, x)] s s'" by blast
    with y show ?thesis
      by (simp add: receive_response_def ud_receive_response_def post_recieve_def cmd_run)
  qed
  show "\<exists>s'. receive_response s = Return (0, s') \<and> script s' = rest \<and> io_step [] [] s s'"
    if c: "ud_connected b (conn s) r" and a: "posted_then (timed_wait b 0 []) a" "script s = a @ rest"
  proof -
    from c obtain y where y: "cc_conn_t (conn s) = UD" "cc_blocking (conn s) = b"
      "cc_ud_server_conn (conn s) = Some y" "dsc_client_response_mr y \<noteq> 0"
      by (auto simp: ud_connected_def)
    let ?call = "Post_recv (dsc_ud_qp y) 0 0 sizeof_ud_response"
    from posted_timed_wait [OF a semiring_1_class.of_nat_0] obtain p s1 s' where "ext ?call s = Return (p, s1)" "rep_ret p = 0"
      "process_work_completion_events_with_timeout 1 (dsc_ud_cq y) (dsc_io_completion_channel y) b s1 = Return (0, s')" "script s' = rest"
      "io_step (sent_messages [(?call, p)]) [] s s'" by blast
    with y show ?thesis
      by (simp add: receive_response_def ud_receive_response_def post_recieve_def cmd_run)
  qed
  show "a \<noteq> []" if "posted_then (completion b []) a" using that by (auto simp: posted_then_def)
  show "conn_request s = Return (r, s) \<and>
      (\<exists>c. put_request r' s = Return ((), s\<lparr>conn := c\<rparr>) \<and> ud_connected b c r' \<and> cc_instance_nr c = cc_instance_nr (conn s))"
    if "ud_connected b (conn s) r"
    using that by (auto simp: ud_connected_def conn_request_def put_request_def cmd_run)
qed

end
