(* ===== verification/Memory.thy ===== *)
theory Memory
  imports Common
begin

text \<open>
  The memory of the server process as \<^verbatim>\<open>src/server/hash.c\<close> and
  \<^verbatim>\<open>src/server/kvstore.c\<close> use it: the structures \<open>hash_item_t\<close> and
  \<open>hashtable_t\<close> of \<^verbatim>\<open>src/server/hash.h\<close>, the global \<open>ht\<close>, an explicit store for the
  items and the character buffers that \<open>malloc\<close> and \<open>calloc\<close> hand out, and the POSIX locks.

  A pointer is an address or \<^const>\<open>None\<close> for \<open>NULL\<close>; an address that is not allocated (any
  more) is a dangling pointer, and using it is \<^const>\<open>Use_after_free\<close>. Addresses are never
  reused, so a use after free is never hidden by a later allocation. The bytes \<open>malloc\<close>
  returns are arbitrary: the field \<open>junk\<close> says what they are and no theorem restricts it. The
  allocations of items and buffers, which the code does not check, are taken to succeed.
\<close>

section \<open>Locks\<close>

text \<open>
  A \<open>pthread_rwlock_t\<close>, with the threads that hold it. The zero bytes that \<open>calloc\<close>
  writes are a free lock. \<open>EBUSY\<close> is what the \<open>try\<close> variants return on a held lock.
\<close>

datatype rwlock = Lock_free | Read_held "tid list" | Write_held tid

definition EBUSY :: int where "EBUSY = 16"

fun rw_trywrlock :: "tid \<Rightarrow> rwlock \<Rightarrow> int \<times> rwlock" where
  "rw_trywrlock me Lock_free = (0, Write_held me)"
| "rw_trywrlock me l = (EBUSY, l)"

fun rw_tryrdlock :: "tid \<Rightarrow> rwlock \<Rightarrow> int \<times> rwlock" where
  "rw_tryrdlock me Lock_free = (0, Read_held [me])"
| "rw_tryrdlock me (Read_held ts) = (0, Read_held (me # ts))"
| "rw_tryrdlock me (Write_held t) = (EBUSY, Write_held t)"

fun rw_unlock :: "tid \<Rightarrow> rwlock \<Rightarrow> rwlock outcome" where
  "rw_unlock me Lock_free = Undefined Unlock_not_held"
| "rw_unlock me (Read_held ts) =
     (if me \<in> set ts
      then Return (if remove1 me ts = [] then Lock_free else Read_held (remove1 me ts))
      else Undefined Unlock_not_held)"
| "rw_unlock me (Write_held t) =
     (if t = me then Return Lock_free else Undefined Unlock_not_held)"

lemma rw_trywrlock_zero: "fst (rw_trywrlock me l) = 0 \<longleftrightarrow> l = Lock_free"
  by (cases l) (simp_all add: EBUSY_def)

lemma rw_trywrlock_busy: "l \<noteq> Lock_free \<Longrightarrow> rw_trywrlock me l = (EBUSY, l)"
  by (cases l) simp_all

lemma rw_lock_unlock:
  "fst (rw_trywrlock me l) = 0 \<Longrightarrow> rw_unlock me (snd (rw_trywrlock me l)) = Return l"
  "l = Lock_free \<or> (\<exists>ts. l = Read_held ts \<and> ts \<noteq> []) \<Longrightarrow>
     rw_unlock me (snd (rw_tryrdlock me l)) = Return l"
  by (cases l; auto simp: EBUSY_def)+

section \<open>Structures\<close>

record hash_item_t =
  item_next :: "addr option"
  item_prev :: "addr option"
  item_key :: "addr option"
  item_value :: "addr option"
  item_value_size :: size_t
  item_rwlock :: rwlock

text \<open>\<open>calloc(1, sizeof(hash_item_t))\<close>: all pointers \<open>NULL\<close>, size 0, lock free.\<close>

definition zero_item :: hash_item_t where
  "zero_item = \<lparr>item_next = None, item_prev = None, item_key = None, item_value = None,
     item_value_size = 0, item_rwlock = Lock_free\<rparr>"

record hashtable_t =
  ht_capacity :: u32
  ht_items :: "addr option list"
  ht_locks :: "bool list"

text \<open>
  The global \<open>hashtable_t *ht\<close>: \<open>NULL\<close> at program start, then a table; after a failed
  \<open>init_hashtable\<close> it points to freed memory.
\<close>

datatype ht_pointer = Ht_null | Ht_live hashtable_t | Ht_dangling

record memory =
  ht :: ht_pointer
  cells :: "addr \<Rightarrow> hash_item_t option"
  blocks :: "addr \<Rightarrow> byte list option"
  fresh :: addr
  junk :: "addr \<Rightarrow> nat \<Rightarrow> byte"

definition empty_memory :: "(addr \<Rightarrow> nat \<Rightarrow> byte) \<Rightarrow> memory" where
  "empty_memory j =
     \<lparr>ht = Ht_null, cells = (\<lambda>_. None), blocks = (\<lambda>_. None), fresh = 0, junk = j\<rparr>"

section \<open>Allocation, dereference, release\<close>

definition malloc_buf :: "nat \<Rightarrow> (memory, addr) cmd" where
  "malloc_buf n s =
     Return (fresh s,
       s\<lparr>blocks := (blocks s)(fresh s \<mapsto> map (junk s (fresh s)) [0..<n]), fresh := fresh s + 1\<rparr>)"

definition calloc_item :: "(memory, addr) cmd" where
  "calloc_item s =
     Return (fresh s, s\<lparr>cells := (cells s)(fresh s \<mapsto> zero_item), fresh := fresh s + 1\<rparr>)"

definition deref :: "addr option \<Rightarrow> memory \<Rightarrow> hash_item_t outcome" where
  "deref p s =
     (case p of
        None \<Rightarrow> Undefined Null_deref
      | Some a \<Rightarrow> (case cells s a of None \<Rightarrow> Undefined Use_after_free | Some it \<Rightarrow> Return it))"

definition read_buf :: "addr option \<Rightarrow> memory \<Rightarrow> byte list outcome" where
  "read_buf p s =
     (case p of
        None \<Rightarrow> Undefined Null_deref
      | Some a \<Rightarrow> (case blocks s a of None \<Rightarrow> Undefined Use_after_free | Some b \<Rightarrow> Return b))"

definition write_buf :: "addr option \<Rightarrow> (byte list \<Rightarrow> byte list outcome) \<Rightarrow> (memory, unit) cmd" where
  "write_buf p f s =
     (case p of
        None \<Rightarrow> Undefined Null_deref
      | Some a \<Rightarrow>
          (case blocks s a of
             None \<Rightarrow> Undefined Use_after_free
           | Some b \<Rightarrow> obind (f b) (\<lambda>b'. Return ((), s\<lparr>blocks := (blocks s)(a \<mapsto> b')\<rparr>))))"

definition upd_item :: "addr option \<Rightarrow> (hash_item_t \<Rightarrow> hash_item_t) \<Rightarrow> (memory, unit) cmd" where
  "upd_item p f s =
     obind (deref p s) (\<lambda>it. Return ((), s\<lparr>cells := (cells s)(the p \<mapsto> f it)\<rparr>))"

definition free_buf :: "addr option \<Rightarrow> (memory, unit) cmd" where
  "free_buf p s =
     (case p of
        None \<Rightarrow> Return ((), s)
      | Some a \<Rightarrow>
          (case blocks s a of
             None \<Rightarrow> Undefined Use_after_free
           | Some b \<Rightarrow> Return ((), s\<lparr>blocks := (blocks s)(a := None)\<rparr>)))"

definition free_item :: "addr \<Rightarrow> (memory, unit) cmd" where
  "free_item a s =
     (case cells s a of
        None \<Rightarrow> Undefined Use_after_free
      | Some it \<Rightarrow> Return ((), s\<lparr>cells := (cells s)(a := None)\<rparr>))"

definition item :: "addr \<Rightarrow> (memory, hash_item_t) cmd" where
  "item a s = obind (deref (Some a) s) (\<lambda>it. Return (it, s))"

definition the_ht :: "(memory, hashtable_t) cmd" where
  "the_ht s =
     (case ht s of
        Ht_null \<Rightarrow> Undefined Null_deref
      | Ht_dangling \<Rightarrow> Undefined Use_after_free
      | Ht_live t \<Rightarrow> Return (t, s))"

definition upd_ht :: "(hashtable_t \<Rightarrow> hashtable_t) \<Rightarrow> (memory, unit) cmd" where
  "upd_ht f = cbind the_ht (\<lambda>t. cput (\<lambda>s. s\<lparr>ht := Ht_live (f t)\<rparr>))"

section \<open>Lock operations on the store\<close>

definition mutex_lock :: "nat \<Rightarrow> (memory, unit) cmd" where
  "mutex_lock b =
     cbind the_ht (\<lambda>t.
     cbind (clift (array_get (ht_locks t) b)) (\<lambda>held.
     if held then (\<lambda>s. Blocked) else upd_ht (\<lambda>t. t\<lparr>ht_locks := (ht_locks t)[b := True]\<rparr>)))"

definition mutex_unlock :: "nat \<Rightarrow> (memory, unit) cmd" where
  "mutex_unlock b =
     cbind the_ht (\<lambda>t.
     cbind (clift (array_get (ht_locks t) b)) (\<lambda>held.
     if held then upd_ht (\<lambda>t. t\<lparr>ht_locks := (ht_locks t)[b := False]\<rparr>)
     else (\<lambda>s. Undefined Unlock_not_held)))"

definition rwlock_trywrlock :: "tid \<Rightarrow> addr \<Rightarrow> (memory, int) cmd" where
  "rwlock_trywrlock me a =
     cbind (item a) (\<lambda>it.
     let (r, l) = rw_trywrlock me (item_rwlock it)
     in cseq (upd_item (Some a) (\<lambda>it. it\<lparr>item_rwlock := l\<rparr>)) (cret r))"

definition rwlock_tryrdlock :: "tid \<Rightarrow> addr \<Rightarrow> (memory, int) cmd" where
  "rwlock_tryrdlock me a =
     cbind (item a) (\<lambda>it.
     let (r, l) = rw_tryrdlock me (item_rwlock it)
     in cseq (upd_item (Some a) (\<lambda>it. it\<lparr>item_rwlock := l\<rparr>)) (cret r))"

definition rwlock_unlock :: "tid \<Rightarrow> addr \<Rightarrow> (memory, unit) cmd" where
  "rwlock_unlock me a =
     cbind (item a) (\<lambda>it.
     cbind (clift (rw_unlock me (item_rwlock it))) (\<lambda>l.
     upd_item (Some a) (\<lambda>it. it\<lparr>item_rwlock := l\<rparr>)))"

section \<open>Running the primitives\<close>

text \<open>
  The rules of \<open>cmd_run\<close> for the primitives: each is a conditional equation whose premise
  names the cell, buffer or table the primitive uses.
\<close>

lemma deref_Some [simp]: "cells s a = Some it \<Longrightarrow> deref (Some a) s = Return it"
  by (simp add: deref_def)

lemma read_buf_Some [simp]: "blocks s a = Some b \<Longrightarrow> read_buf (Some a) s = Return b"
  by (simp add: read_buf_def)

lemma malloc_buf_run [cmd_run]:
  "malloc_buf n s =
     Return (fresh s,
       s\<lparr>blocks := (blocks s)(fresh s \<mapsto> map (junk s (fresh s)) [0..<n]), fresh := fresh s + 1\<rparr>)"
  by (simp add: malloc_buf_def)

lemma calloc_item_run [cmd_run]:
  "calloc_item s =
     Return (fresh s, s\<lparr>cells := (cells s)(fresh s \<mapsto> zero_item), fresh := fresh s + 1\<rparr>)"
  by (simp add: calloc_item_def)

lemma write_buf_run [cmd_run]:
  "blocks s a = Some b \<Longrightarrow> f b = Return b' \<Longrightarrow>
     write_buf (Some a) f s = Return ((), s\<lparr>blocks := (blocks s)(a \<mapsto> b')\<rparr>)"
  by (simp add: write_buf_def)

lemma upd_item_run [cmd_run]:
  "cells s a = Some it \<Longrightarrow>
     upd_item (Some a) f s = Return ((), s\<lparr>cells := (cells s)(a \<mapsto> f it)\<rparr>)"
  by (simp add: upd_item_def)

lemma free_buf_run [cmd_run]:
  "free_buf None s = Return ((), s)"
  "blocks s a = Some b \<Longrightarrow> free_buf (Some a) s = Return ((), s\<lparr>blocks := (blocks s)(a := None)\<rparr>)"
  by (simp_all add: free_buf_def)

lemma free_item_run [cmd_run]:
  "cells s a = Some it \<Longrightarrow> free_item a s = Return ((), s\<lparr>cells := (cells s)(a := None)\<rparr>)"
  by (simp add: free_item_def)

lemma item_run [cmd_run]: "cells s a = Some it \<Longrightarrow> item a s = Return (it, s)"
  by (simp add: item_def)

lemma the_ht_run [cmd_run]: "ht s = Ht_live t \<Longrightarrow> the_ht s = Return (t, s)"
  by (simp add: the_ht_def)

lemma upd_ht_run [cmd_run]:
  "ht s = Ht_live t \<Longrightarrow> upd_ht f s = Return ((), s\<lparr>ht := Ht_live (f t)\<rparr>)"
  by (simp add: upd_ht_def cmd_run)

lemma mutex_lock_run [cmd_run]:
  "ht s = Ht_live t \<Longrightarrow> b < length (ht_locks t) \<Longrightarrow>
     mutex_lock b s =
       (if ht_locks t ! b then Blocked
        else Return ((), s\<lparr>ht := Ht_live (t\<lparr>ht_locks := (ht_locks t)[b := True]\<rparr>)\<rparr>))"
  by (simp add: mutex_lock_def cmd_run)

lemma mutex_unlock_run [cmd_run]:
  "ht s = Ht_live t \<Longrightarrow> b < length (ht_locks t) \<Longrightarrow> ht_locks t ! b \<Longrightarrow>
     mutex_unlock b s = Return ((), s\<lparr>ht := Ht_live (t\<lparr>ht_locks := (ht_locks t)[b := False]\<rparr>)\<rparr>)"
  by (simp add: mutex_unlock_def cmd_run)

lemma rwlock_trywrlock_run [cmd_run]:
  "cells s a = Some it \<Longrightarrow>
     rwlock_trywrlock me a s =
       Return (fst (rw_trywrlock me (item_rwlock it)),
         s\<lparr>cells := (cells s)(a \<mapsto> it\<lparr>item_rwlock := snd (rw_trywrlock me (item_rwlock it))\<rparr>)\<rparr>)"
  by (simp add: rwlock_trywrlock_def cmd_run case_prod_beta Let_def)

lemma rwlock_tryrdlock_run [cmd_run]:
  "cells s a = Some it \<Longrightarrow>
     rwlock_tryrdlock me a s =
       Return (fst (rw_tryrdlock me (item_rwlock it)),
         s\<lparr>cells := (cells s)(a \<mapsto> it\<lparr>item_rwlock := snd (rw_tryrdlock me (item_rwlock it))\<rparr>)\<rparr>)"
  by (simp add: rwlock_tryrdlock_def cmd_run case_prod_beta Let_def)

lemma rwlock_unlock_run [cmd_run]:
  "cells s a = Some it \<Longrightarrow> rw_unlock me (item_rwlock it) = Return l \<Longrightarrow>
     rwlock_unlock me a s = Return ((), s\<lparr>cells := (cells s)(a \<mapsto> it\<lparr>item_rwlock := l\<rparr>)\<rparr>)"
  by (simp add: rwlock_unlock_def cmd_run)

lemma rwlock_unlock_ub [cmd_run]:
  "cells s a = Some it \<Longrightarrow> rw_unlock me (item_rwlock it) = Undefined u \<Longrightarrow>
     rwlock_unlock me a s = Undefined u"
  by (simp add: rwlock_unlock_def cmd_run)

end
