(* ===== verification/Hash_Table.thy ===== *)
theory Hash_Table
  imports Memory
begin

text \<open>
  \<^verbatim>\<open>src/server/hash.c\<close>: the chained hash table. \<open>init_hashtable\<close>, the \<open>djb2\<close> hash,
  \<open>get_bucket\<close>, \<open>search\<close>, \<open>get_key_entry\<close> and \<open>remove_item\<close>, each on the explicit store of
  theory \<open>Memory\<close>.

  \<open>get_key_entry\<close> and \<open>remove_item\<close> hold the mutex of a bucket around the parts \<open>new_entry\<close> and
  \<open>delete_entry\<close>, which the steps of theory \<open>KV_Concurrent\<close> use as well. What the operations do to a
  well-formed table is in the theories \<open>Hash_Table_Inv\<close> and \<open>Hash_Table_Remove\<close>.
\<close>

section \<open>The operations\<close>

definition init_hashtable :: "bool \<times> bool \<times> bool \<Rightarrow> size_t \<Rightarrow> (memory, int) cmd" where
  "init_hashtable oks capacity =
     (case oks of (ok_ht, ok_items, ok_locks) \<Rightarrow>
      cseq (\<lambda>s. case ht s of
              Ht_null \<Rightarrow> Return ((), s)
            | Ht_dangling \<Rightarrow> Undefined Use_after_free
            | Ht_live t \<Rightarrow> Return ((), s\<lparr>ht := Ht_dangling\<rparr>))
        (if \<not> ok_ht \<and> capacity \<noteq> 0 then cseq (cput (\<lambda>s. s\<lparr>ht := Ht_null\<rparr>)) (cret (- 1))
         else if \<not> ok_ht then (\<lambda>s. Undefined Null_deref)
         else if \<not> ok_items \<and> capacity \<noteq> 0
           then cseq (cput (\<lambda>s. s\<lparr>ht := Ht_dangling\<rparr>)) (cret (- 2))
         else if \<not> ok_locks \<and> capacity \<noteq> 0
           then cseq (cput (\<lambda>s. s\<lparr>ht := Ht_dangling\<rparr>)) (cret (- 3))
         else
           cseq (cput (\<lambda>s. s\<lparr>ht := Ht_live
                   \<lparr>ht_capacity = ucast capacity,
                    ht_items = replicate (unat capacity) None,
                    ht_locks = replicate (unat capacity) False\<rparr>\<rparr>))
             (cret 0)))"

fun hash_loop :: "u32 \<Rightarrow> byte list \<Rightarrow> u32 outcome" where
  "hash_loop h [] = Undefined Out_of_bounds"
| "hash_loop h (c # cs) =
     (if c = 0 then Return h else hash_loop (push_bit 5 h + h + scast c) cs)"

definition hash :: "byte list \<Rightarrow> u32 outcome" where
  "hash str = hash_loop 5381 str"

definition get_bucket :: "byte list \<Rightarrow> (memory, nat) cmd" where
  "get_bucket key =
     cbind (clift (hash key)) (\<lambda>hashed.
     cbind the_ht (\<lambda>t.
     if ht_capacity t = 0 then (\<lambda>s. Undefined Division_by_zero)
     else cret (unat (hashed mod ht_capacity t))))"

text \<open>
  The loop of \<open>search\<close>. A walk that has visited as many cells as were ever allocated is in a
  cycle: that is the fuel \<open>search\<close> passes, and running out of it is \<^const>\<open>Diverges\<close>.
\<close>

fun search_loop :: "nat \<Rightarrow> memory \<Rightarrow> byte list \<Rightarrow> nat \<Rightarrow> addr option \<Rightarrow> addr option outcome" where
  "search_loop 0 s key n current = Diverges"
| "search_loop (Suc fuel) s key n None = Return None"
| "search_loop (Suc fuel) s key n (Some a) =
     obind (deref (Some a) s) (\<lambda>it.
     obind (read_buf (item_key it) s) (\<lambda>k.
     obind (strncmp k key n) (\<lambda>r.
     if r = 0 then Return (Some a) else search_loop fuel s key n (item_next it))))"

definition search :: "byte list \<Rightarrow> size_t \<Rightarrow> (memory, addr option) cmd" where
  "search key key_len =
     cbind (get_bucket key) (\<lambda>bucket.
     cbind the_ht (\<lambda>t.
     cbind (clift (array_get (ht_items t) bucket)) (\<lambda>current s.
     obind (search_loop (Suc (fresh s)) s key (unat key_len) current) (\<lambda>r. Return (r, s)))))"

definition array_set :: "'a list \<Rightarrow> nat \<Rightarrow> 'a \<Rightarrow> 'a list outcome" where
  "array_set xs i x = (if i < length xs then Return (xs[i := x]) else Undefined Out_of_bounds)"

text \<open>Lines 85--107 of \<open>remove_item\<close>: the item that was found is unlinked and freed.\<close>

definition delete_entry :: "tid \<Rightarrow> nat \<Rightarrow> addr \<Rightarrow> (memory, int) cmd" where
  "delete_entry me bucket a =
     cbind (rwlock_trywrlock me a) (\<lambda>r.
     if r \<noteq> 0 then cseq (rwlock_unlock me a) (cret (- 1))
     else
       cbind (item a) (\<lambda>it.
       cseq (free_buf (item_value it)) (
       cseq (upd_item (Some a) (\<lambda>it. it\<lparr>item_value := None\<rparr>)) (
       cseq (upd_item (Some a) (\<lambda>it. it\<lparr>item_value_size := 0\<rparr>)) (
       cseq (free_buf (item_key it)) (
       cseq (upd_item (Some a) (\<lambda>it. it\<lparr>item_key := None\<rparr>)) (
       cseq (cwhen (item_next it \<noteq> None)
              (upd_item (item_next it) (\<lambda>nx. nx\<lparr>item_prev := item_prev it\<rparr>))) (
       cseq (cwhen (item_prev it \<noteq> None)
              (upd_item (item_prev it) (\<lambda>pv. pv\<lparr>item_next := item_next it\<rparr>))) (
       cbind the_ht (\<lambda>t.
       cbind (clift (array_get (ht_items t) bucket)) (\<lambda>head.
       cseq (cwhen (head = Some a)
              (upd_ht (\<lambda>t. t\<lparr>ht_items := (ht_items t)[bucket := item_next it]\<rparr>))) (
       cseq (free_item a)
         (cret 0)))))))))))))"

definition remove_item :: "tid \<Rightarrow> byte list \<Rightarrow> size_t \<Rightarrow> (memory, int) cmd" where
  "remove_item me key key_len =
     cbind (get_bucket key) (\<lambda>bucket.
     cseq (mutex_lock bucket) (
     cbind (search key key_len) (\<lambda>found.
     case found of
       None \<Rightarrow> cseq (mutex_unlock bucket) (cret (- 1))
     | Some a \<Rightarrow>
         cbind (delete_entry me bucket a) (\<lambda>r.
         cseq (mutex_unlock bucket)
           (cret r)))))"

text \<open>Lines 120--134 of \<open>get_key_entry\<close>: a new item at the head of the bucket.\<close>

definition new_entry :: "nat \<Rightarrow> addr option \<Rightarrow> byte list \<Rightarrow> size_t \<Rightarrow> (memory, addr) cmd" where
  "new_entry bucket item_head key key_len =
     cbind calloc_item (\<lambda>entry.
     cbind (malloc_buf (unat (key_len + 1))) (\<lambda>k.
     cseq (upd_item (Some entry) (\<lambda>it. it\<lparr>item_key := Some k\<rparr>)) (
     cseq (write_buf (Some k) (\<lambda>b. memcpy b key (unat key_len))) (
     cseq (write_buf (Some k) (\<lambda>b. array_set b (unat key_len) 0)) (
     cseq (upd_item (Some entry)
            (\<lambda>it. it\<lparr>item_prev := None, item_next := None, item_value := None\<rparr>)) (
     cseq (cwhen (item_head \<noteq> None)
            (cseq (upd_item item_head (\<lambda>it. it\<lparr>item_prev := Some entry\<rparr>))
                  (upd_item (Some entry) (\<lambda>it. it\<lparr>item_next := item_head\<rparr>)))) (
     cseq (upd_ht (\<lambda>t. t\<lparr>ht_items := (ht_items t)[bucket := Some entry]\<rparr>))
       (cret entry))))))))"

definition get_key_entry :: "byte list \<Rightarrow> size_t \<Rightarrow> (memory, addr) cmd" where
  "get_key_entry key key_len =
     cbind (get_bucket key) (\<lambda>bucket.
     cseq (mutex_lock bucket) (
     cbind the_ht (\<lambda>t.
     cbind (clift (array_get (ht_items t) bucket)) (\<lambda>item_head.
     cbind (search key key_len) (\<lambda>found.
     cbind (case found of Some e \<Rightarrow> cret e | None \<Rightarrow> new_entry bucket item_head key key_len) (\<lambda>entry.
     cseq (mutex_unlock bucket)
       (cret entry)))))))"

section \<open>The hash function\<close>

text \<open>
  \<open>djb2\<close> as a polynomial: the shift-and-add loop computes
  \<open>5381 * 33 ^ n + (\<Sum>i < n. c\<^sub>i * 33 ^ (n - 1 - i))\<close> modulo \<open>2 ^ 32\<close>, each character sign
  extended.
\<close>

fun djb2 :: "byte list \<Rightarrow> u32" where
  "djb2 k = foldl (\<lambda>h c. 33 * h + scast c) 5381 k"

declare djb2.simps [simp del]

lemma shift_add_33: "push_bit 5 (h :: u32) + h = 33 * h"
proof -
  have "push_bit 5 h = h * 32" by (simp add: push_bit_eq_mult)
  then show ?thesis by simp
qed

lemma hash_loop_cstr:
  "cstr k buf \<Longrightarrow> hash_loop h buf = Return (foldl (\<lambda>h c. 33 * h + scast c) h k)"
  by (induction buf arbitrary: k h) (auto simp: cstr_Cons shift_add_33 split: if_splits)

lemma hash_cstr: "cstr k buf \<Longrightarrow> hash buf = Return (djb2 k)"
  by (simp add: hash_def djb2.simps hash_loop_cstr)

lemma hash_loop_unterminated: "0 \<notin> set buf \<Longrightarrow> hash_loop h buf = Undefined Out_of_bounds"
  by (induction buf arbitrary: h) auto

definition bucket_of :: "u32 \<Rightarrow> byte list \<Rightarrow> nat" where
  "bucket_of cap k = unat (djb2 k mod cap)"

lemma bucket_of_less: "0 < cap \<Longrightarrow> bucket_of cap k < unat cap"
  by (simp add: bucket_of_def unat_mod word_gt_0 unat_gt_0)

lemma get_bucket_run [cmd_run]:
  "cstr k key \<Longrightarrow> ht s = Ht_live t \<Longrightarrow> ht_capacity t \<noteq> 0 \<Longrightarrow>
     get_bucket key s = Return (bucket_of (ht_capacity t) k, s)"
  by (simp add: get_bucket_def hash_cstr bucket_of_def cmd_run)

end
