(* ===== verification/Hash_Table_Inv.thy ===== *)
theory Hash_Table_Inv
  imports Hash_Table
begin

text \<open>
  The invariant of the hash table and what its operations do under it.

  \<open>chain\<close> is a doubly linked list in the store; \<open>item_ok\<close> says what an item owns; \<open>table_inv\<close>
  collects the invariant, with the addresses of the items of bucket \<open>b\<close> in \<open>bs b\<close>.
  \<open>entries\<close> reads the contents: for each bucket the list of key and value strings. The lemmas of
  the form \<open>..._run\<close> give the complete result of an operation, and the others show that the
  invariant holds again.
\<close>

section \<open>Items, chains and contents\<close>

definition item_links :: "(addr \<Rightarrow> hash_item_t option) \<Rightarrow> addr \<Rightarrow> (addr option \<times> addr option) option" where
  "item_links c a = map_option (\<lambda>it. (item_next it, item_prev it)) (c a)"

primrec chain ::
  "(addr \<Rightarrow> hash_item_t option) \<Rightarrow> addr option \<Rightarrow> addr option \<Rightarrow> addr list \<Rightarrow> bool" where
  "chain c p prv [] \<longleftrightarrow> p = None"
| "chain c p prv (a # as) \<longleftrightarrow>
     p = Some a \<and> (case item_links c a of
                     None \<Rightarrow> False
                   | Some (nx, pv) \<Rightarrow> pv = prv \<and> chain c nx (Some a) as)"

definition bufs_of :: "hash_item_t \<Rightarrow> addr set" where
  "bufs_of it = set_option (item_key it) \<union> set_option (item_value it)"

definition bufs :: "memory \<Rightarrow> addr \<Rightarrow> addr set" where
  "bufs s a = (case cells s a of None \<Rightarrow> {} | Some it \<Rightarrow> bufs_of it)"

definition item_content :: "hash_item_t \<Rightarrow> addr option \<times> addr option \<times> size_t" where
  "item_content it = (item_key it, item_value it, item_value_size it)"

definition buf_at :: "memory \<Rightarrow> addr option \<Rightarrow> byte list" where
  "buf_at s p = (case p of None \<Rightarrow> [] | Some x \<Rightarrow> (case blocks s x of None \<Rightarrow> [] | Some b \<Rightarrow> b))"

definition key_of :: "memory \<Rightarrow> addr \<Rightarrow> byte list" where
  "key_of s a = (case cells s a of None \<Rightarrow> [] | Some it \<Rightarrow> cstr_of (buf_at s (item_key it)))"

definition value_of :: "memory \<Rightarrow> addr \<Rightarrow> byte list" where
  "value_of s a =
     (case cells s a of None \<Rightarrow> []
      | Some it \<Rightarrow> take (unat (item_value_size it)) (buf_at s (item_value it)))"

definition key_ok :: "memory \<Rightarrow> hash_item_t \<Rightarrow> bool" where
  "key_ok s it \<longleftrightarrow> (\<exists>k kb. item_key it = Some k \<and> blocks s k = Some kb \<and> 0 \<in> set kb)"

definition value_ok :: "memory \<Rightarrow> hash_item_t \<Rightarrow> bool" where
  "value_ok s it \<longleftrightarrow>
     (case item_value it of
        None \<Rightarrow> item_value_size it = 0
      | Some v \<Rightarrow> item_key it \<noteq> Some v \<and>
          (\<exists>vb. blocks s v = Some vb \<and> length vb = MSG_SIZE \<and> unat (item_value_size it) \<le> MSG_SIZE))"

definition item_ok :: "memory \<Rightarrow> addr \<Rightarrow> bool" where
  "item_ok s a \<longleftrightarrow> (\<exists>it. cells s a = Some it \<and> key_ok s it \<and> value_ok s it)"

definition lock_of :: "memory \<Rightarrow> addr \<Rightarrow> rwlock" where
  "lock_of s a = (case cells s a of None \<Rightarrow> Lock_free | Some it \<Rightarrow> item_rwlock it)"

lemmas content_defs = key_of_def value_of_def buf_at_def bufs_def bufs_of_def
  item_ok_def key_ok_def value_ok_def item_content_def

lemma item_links_upd [simp]:
  "item_links (c(x \<mapsto> it)) a = (if a = x then Some (item_next it, item_prev it) else item_links c a)"
  "item_links (c(x := None)) a = (if a = x then None else item_links c a)"
  by (simp_all add: item_links_def)

lemma chain_cong:
  "(\<And>a. a \<in> set as \<Longrightarrow> item_links c a = item_links c' a) \<Longrightarrow> chain c p prv as = chain c' p prv as"
  by (induction as arbitrary: p prv) (auto split: option.splits)

text \<open>What an operation must leave alone for an item to keep its meaning.\<close>

lemma content_cong:
  assumes "map_option item_content (cells s' a) = map_option item_content (cells s a)"
    and "\<And>x. x \<in> bufs s a \<Longrightarrow> blocks s' x = blocks s x"
  shows "key_of s' a = key_of s a" and "value_of s' a = value_of s a"
    and "bufs s' a = bufs s a" and "item_ok s' a = item_ok s a"
proof -
  have "key_of s' a = key_of s a \<and> value_of s' a = value_of s a \<and> bufs s' a = bufs s a
    \<and> item_ok s' a = item_ok s a"
  proof (cases "cells s a")
    case None
    with assms show ?thesis by (auto simp: content_defs)
  next
    case (Some it)
    with assms(1) obtain it' where it': "cells s' a = Some it'"
      "item_key it' = item_key it" "item_value it' = item_value it"
      "item_value_size it' = item_value_size it"
      by (auto simp: item_content_def map_option_case split: option.splits)
    have "item_key it = Some x \<Longrightarrow> blocks s' x = blocks s x" for x
      using assms(2) Some by (auto simp: bufs_def bufs_of_def)
    moreover have "item_value it = Some x \<Longrightarrow> blocks s' x = blocks s x" for x
      using assms(2) Some by (auto simp: bufs_def bufs_of_def)
    ultimately show ?thesis
      using Some it' by (auto simp: content_defs split: option.splits)
  qed
  then show "key_of s' a = key_of s a" and "value_of s' a = value_of s a"
    and "bufs s' a = bufs s a" and "item_ok s' a = item_ok s a" by auto
qed

section \<open>The invariant\<close>

definition nodes :: "nat \<Rightarrow> (nat \<Rightarrow> addr list) \<Rightarrow> addr set" where
  "nodes n bs = (\<Union>b<n. set (bs b))"

definition below_fresh :: "memory \<Rightarrow> bool" where
  "below_fresh s \<longleftrightarrow> (\<forall>a. fresh s \<le> a \<longrightarrow> cells s a = None \<and> blocks s a = None)"

definition shape_ok :: "hashtable_t \<Rightarrow> bool" where
  "shape_ok t \<longleftrightarrow> ht_capacity t \<noteq> 0 \<and> length (ht_items t) = unat (ht_capacity t)
     \<and> length (ht_locks t) = unat (ht_capacity t)"

definition chains_ok :: "memory \<Rightarrow> hashtable_t \<Rightarrow> (nat \<Rightarrow> addr list) \<Rightarrow> bool" where
  "chains_ok s t bs \<longleftrightarrow>
     (\<forall>b < length (ht_items t). chain (cells s) (ht_items t ! b) None (bs b) \<and> distinct (bs b))"

definition disjoint_ok :: "nat \<Rightarrow> memory \<Rightarrow> (nat \<Rightarrow> addr list) \<Rightarrow> bool" where
  "disjoint_ok n s bs \<longleftrightarrow>
     (\<forall>b < n. \<forall>c < n. b \<noteq> c \<longrightarrow> set (bs b) \<inter> set (bs c) = {}) \<and>
     (\<forall>a \<in> nodes n bs. \<forall>a' \<in> nodes n bs. a \<noteq> a' \<longrightarrow> bufs s a \<inter> bufs s a' = {})"

definition table_ok :: "memory \<Rightarrow> hashtable_t \<Rightarrow> (nat \<Rightarrow> addr list) \<Rightarrow> bool" where
  "table_ok s t bs \<longleftrightarrow>
     shape_ok t \<and> chains_ok s t bs \<and> disjoint_ok (length (ht_items t)) s bs
     \<and> (\<forall>a \<in> nodes (length (ht_items t)) bs. item_ok s a) \<and> below_fresh s"

definition table_inv :: "memory \<Rightarrow> (nat \<Rightarrow> addr list) \<Rightarrow> bool" where
  "table_inv s bs \<longleftrightarrow>
     (\<exists>t. ht s = Ht_live t \<and> table_ok s t bs \<and> (\<forall>b < length (ht_locks t). \<not> ht_locks t ! b))"

definition cap_of :: "memory \<Rightarrow> u32" where
  "cap_of s = (case ht s of Ht_live t \<Rightarrow> ht_capacity t | _ \<Rightarrow> 0)"

definition entries :: "memory \<Rightarrow> (nat \<Rightarrow> addr list) \<Rightarrow> nat \<Rightarrow> (byte list \<times> byte list) list" where
  "entries s bs b = map (\<lambda>a. (key_of s a, value_of s a)) (bs b)"

section \<open>Searching a chain\<close>

text \<open>
  \<open>matches s n q a\<close>: the key of item \<open>a\<close> and the key \<open>q\<close> agree in their first \<open>n\<close> characters,
  which is what \<open>strncmp(...) == 0\<close> tests.
\<close>

definition matches :: "memory \<Rightarrow> nat \<Rightarrow> byte list \<Rightarrow> addr \<Rightarrow> bool" where
  "matches s n q a \<longleftrightarrow> take n (key_of s a) = take n q"

lemma item_ok_key:
  "item_ok s a \<Longrightarrow> \<exists>it k kb. cells s a = Some it \<and> item_key it = Some k \<and> blocks s k = Some kb
     \<and> cstr (key_of s a) kb"
  by (auto simp: item_ok_def key_ok_def key_of_def buf_at_def cstr_cstr_of)

lemma search_loop_chain:
  "chain (cells s) p prv as \<Longrightarrow> length as < fuel \<Longrightarrow> \<forall>a \<in> set as. item_ok s a \<Longrightarrow> cstr q key \<Longrightarrow>
     search_loop fuel s key n p = Return (find (matches s n q) as)"
proof (induction as arbitrary: fuel p prv)
  case Nil
  then obtain f where "fuel = Suc f" by (cases fuel) auto
  with Nil show ?case by simp
next
  case (Cons a as)
  then obtain f where f: "fuel = Suc f" by (cases fuel) auto
  from Cons.prems(3) obtain it k kb where it: "cells s a = Some it" "item_key it = Some k"
    "blocks s k = Some kb" "cstr (key_of s a) kb"
    using item_ok_key [of s a] by auto
  from strncmp_cstr [OF it(4) Cons.prems(4), of n] obtain r
    where r: "strncmp kb key n = Return r" "r = 0 \<longleftrightarrow> matches s n q a"
    by (auto simp: matches_def)
  have p: "p = Some a" and tl: "chain (cells s) (item_next it) (Some a) as"
    using Cons.prems(1) it(1) by (auto simp: item_links_def)
  have "search_loop f s key n (item_next it) = Return (find (matches s n q) as)"
    using Cons.IH [OF tl] Cons.prems f by simp
  with p f it r show ?case by simp
qed

lemma nodes_bucket: "b < n \<Longrightarrow> a \<in> set (bs b) \<Longrightarrow> a \<in> nodes n bs"
  by (auto simp: nodes_def)

lemma item_ok_below: "below_fresh s \<Longrightarrow> item_ok s a \<Longrightarrow> a < fresh s"
  by (auto simp: below_fresh_def item_ok_def not_le [symmetric])

lemma bufs_below: "below_fresh s \<Longrightarrow> item_ok s a \<Longrightarrow> x \<in> bufs s a \<Longrightarrow> x < fresh s"
  by (auto simp: below_fresh_def content_defs not_le [symmetric] split: option.splits)

lemma bucket_length: "table_ok s t bs \<Longrightarrow> b < length (ht_items t) \<Longrightarrow> length (bs b) \<le> fresh s"
proof -
  assume t: "table_ok s t bs" and b: "b < length (ht_items t)"
  then have "distinct (bs b)" and "\<forall>a \<in> set (bs b). a < fresh s"
    using nodes_bucket [OF b] item_ok_below by (auto simp: table_ok_def chains_ok_def)
  then show ?thesis by (rule distinct_length_le_bound)
qed

lemma search_run [cmd_run]:
  assumes "ht s = Ht_live t" and "table_ok s t bs" and "cstr q key"
  shows "search key n s =
    Return (find (matches s (unat n) q) (bs (bucket_of (ht_capacity t) q)), s)"
proof -
  let ?b = "bucket_of (ht_capacity t) q"
  have cap: "ht_capacity t \<noteq> 0" "?b < length (ht_items t)"
    using assms(2) bucket_of_less [of "ht_capacity t" q]
    by (auto simp: table_ok_def shape_ok_def word_gt_0)
  have "chain (cells s) (ht_items t ! ?b) None (bs ?b)" "\<forall>a \<in> set (bs ?b). item_ok s a"
    using assms(2) cap(2) nodes_bucket [OF cap(2)] by (auto simp: table_ok_def chains_ok_def)
  from search_loop_chain [OF this(1) _ this(2) assms(3)] bucket_length [OF assms(2) cap(2)]
  have "search_loop (Suc (fresh s)) s key (unat n) (ht_items t ! ?b)
      = Return (find (matches s (unat n) q) (bs ?b))"
    by simp
  with assms cap show ?thesis by (simp add: search_def cmd_run)
qed

section \<open>Inserting an item\<close>

text \<open>The store after \<open>new_entry\<close> has put an item with key \<open>take n key\<close> at the head of a bucket.\<close>

definition inserted :: "nat \<Rightarrow> hashtable_t \<Rightarrow> byte list \<Rightarrow> nat \<Rightarrow> memory \<Rightarrow> memory" where
  "inserted b t key n s =
     (let e = fresh s; k = fresh s + 1; head = ht_items t ! b;
          c = (cells s)(e \<mapsto> zero_item\<lparr>item_key := Some k, item_next := head\<rparr>)
      in s\<lparr>ht := Ht_live (t\<lparr>ht_items := (ht_items t)[b := Some e]\<rparr>),
           cells := (case head of None \<Rightarrow> c
                     | Some h \<Rightarrow> (case cells s h of None \<Rightarrow> c
                                  | Some hit \<Rightarrow> c(h \<mapsto> hit\<lparr>item_prev := Some e\<rparr>))),
           blocks := (blocks s)(k \<mapsto> take n key @ [0]),
           fresh := fresh s + 2\<rparr>)"

lemma unat_succ_small:
  assumes "unat (n :: size_t) \<le> KEY_SIZE"
  shows "unat (n + 1) = Suc (unat n)"
proof -
  have "unat n + 1 < 2 ^ 64" using assms by (simp add: KEY_SIZE_def)
  then show ?thesis by (simp add: unat_word_ariths)
qed

lemma head_of_chain:
  "chain c p None as \<Longrightarrow> p = Some h \<Longrightarrow> \<exists>hit. c h = Some hit \<and> item_prev hit = None \<and> h \<in> set as"
  by (cases as) (auto simp: item_links_def split: option.splits)

lemma new_entry_run:
  assumes "ht s = Ht_live t" and "b < length (ht_items t)"
    and "chain (cells s) (ht_items t ! b) None as" and "below_fresh s"
    and "unat n \<le> KEY_SIZE" and "KEY_SIZE \<le> length key"
  shows "new_entry b (ht_items t ! b) key n s = Return (fresh s, inserted b t key (unat n) s)"
proof -
  let ?n = "unat n"
  have len: "?n \<le> length key" "unat (n + 1) = Suc ?n"
    using assms(5,6) unat_succ_small by auto
  have copy: "memcpy (map (junk s f) [0..<Suc ?n]) key ?n = Return (take ?n key @ [junk s f ?n])" for f
    using len(1) by (simp add: memcpy_def)
  have zero: "array_set (take ?n key @ [x]) ?n 0 = Return (take ?n key @ [0])" for x
    using len(1) by (simp add: array_set_def list_update_append)
  show ?thesis
  proof (cases "ht_items t ! b")
    case None
    then show ?thesis
      using assms(1,2) len copy zero
      by (simp add: new_entry_def inserted_def Let_def cmd_run fun_upd_twist zero_item_def)
  next
    case (Some h)
    with head_of_chain [OF assms(3)] obtain hit where h: "cells s h = Some hit" by blast
    moreover have "h \<noteq> fresh s" using h assms(4) by (auto simp: below_fresh_def)
    ultimately show ?thesis
      using Some assms(1,2) len copy zero
      by (simp add: new_entry_def inserted_def Let_def cmd_run fun_upd_twist zero_item_def)
  qed
qed

lemma inserted_simps [simp]:
  "ht (inserted b t key n s) = Ht_live (t\<lparr>ht_items := (ht_items t)[b := Some (fresh s)]\<rparr>)"
  "blocks (inserted b t key n s) = (blocks s)(fresh s + 1 \<mapsto> take n key @ [0])"
  "fresh (inserted b t key n s) = fresh s + 2"
  "junk (inserted b t key n s) = junk s"
  by (simp_all add: inserted_def Let_def)

lemma inserted_cells_new:
  assumes "\<And>h. ht_items t ! b = Some h \<Longrightarrow> h < fresh s"
  shows "cells (inserted b t key n s) (fresh s) =
    Some (zero_item\<lparr>item_key := Some (fresh s + 1), item_next := ht_items t ! b\<rparr>)"
  using assms by (fastforce simp: inserted_def Let_def split: option.splits)

lemma inserted_frame:
  assumes "a \<noteq> fresh s"
  shows "map_option item_content (cells (inserted b t key n s) a) = map_option item_content (cells s a)"
    and "map_option item_rwlock (cells (inserted b t key n s) a) = map_option item_rwlock (cells s a)"
    and "ht_items t ! b \<noteq> Some a \<Longrightarrow> cells (inserted b t key n s) a = cells s a"
  using assms by (auto simp: inserted_def Let_def item_content_def split: option.splits)

lemma inserted_links_head:
  assumes "ht_items t ! b = Some h" and "cells s h = Some hit" and "h \<noteq> fresh s"
  shows "item_links (cells (inserted b t key n s)) h = Some (item_next hit, Some (fresh s))"
  using assms by (auto simp: inserted_def Let_def item_links_def)

lemma table_ok_bucket:
  assumes "table_ok s t bs" and "b < length (ht_items t)"
  shows "chain (cells s) (ht_items t ! b) None (bs b)" and "distinct (bs b)"
    and "\<And>a. a \<in> set (bs b) \<Longrightarrow> item_ok s a" and "\<And>a. a \<in> set (bs b) \<Longrightarrow> a < fresh s"
  using assms nodes_bucket [OF assms(2)] item_ok_below
  by (auto simp: table_ok_def chains_ok_def)

lemma table_ok_apart:
  "table_ok s t bs \<Longrightarrow> b < length (ht_items t) \<Longrightarrow> c < length (ht_items t) \<Longrightarrow> b \<noteq> c \<Longrightarrow>
     set (bs b) \<inter> set (bs c) = {}"
  "table_ok s t bs \<Longrightarrow> a \<in> nodes (length (ht_items t)) bs \<Longrightarrow> a' \<in> nodes (length (ht_items t)) bs \<Longrightarrow>
     a \<noteq> a' \<Longrightarrow> bufs s a \<inter> bufs s a' = {}"
  unfolding table_ok_def disjoint_ok_def by blast+

lemma nodes_upd:
  "b < n \<Longrightarrow> nodes n (bs(b := as)) = set as \<union> (\<Union>c \<in> {..<n} - {b}. set (bs c))"
  by (auto simp: nodes_def split: if_splits)

lemma inserted_item_ok:
  assumes "below_fresh s" and "a \<noteq> fresh s" and "item_ok s a"
  shows "item_ok (inserted b t key n s) a" and "key_of (inserted b t key n s) a = key_of s a"
    and "value_of (inserted b t key n s) a = value_of s a"
    and "bufs (inserted b t key n s) a = bufs s a"
proof -
  have "blocks (inserted b t key n s) x = blocks s x" if "x \<in> bufs s a" for x
    using bufs_below [OF assms(1,3) that] by simp
  note cong = content_cong [OF inserted_frame(1) [OF assms(2)] this]
  show "item_ok (inserted b t key n s) a" and "key_of (inserted b t key n s) a = key_of s a"
    and "value_of (inserted b t key n s) a = value_of s a"
    and "bufs (inserted b t key n s) a = bufs s a"
    using assms(3) by (simp_all add: cong)
qed

lemma inserted_new_item:
  assumes "\<And>h. ht_items t ! b = Some h \<Longrightarrow> h < fresh s"
  shows "item_ok (inserted b t key n s) (fresh s)"
    and "key_of (inserted b t key n s) (fresh s) = cstr_of (take n key @ [0])"
    and "value_of (inserted b t key n s) (fresh s) = []"
    and "bufs (inserted b t key n s) (fresh s) = {fresh s + 1}"
    and "lock_of (inserted b t key n s) (fresh s) = Lock_free"
  using inserted_cells_new [OF assms]
  by (simp_all add: content_defs zero_item_def lock_of_def)

lemma inserted_chain_new:
  assumes ok: "table_ok s t bs" and b: "b < length (ht_items t)"
  shows "chain (cells (inserted b t key n s)) (Some (fresh s)) None (fresh s # bs b)"
proof -
  let ?c = "cells (inserted b t key n s)"
  note bk = table_ok_bucket [OF ok b]
  have below: "h < fresh s" if "ht_items t ! b = Some h" for h
    using head_of_chain [OF bk(1) that] bk(4) by blast
  have "chain ?c (ht_items t ! b) (Some (fresh s)) (bs b)"
  proof (cases "bs b")
    case Nil
    with bk(1) show ?thesis by simp
  next
    case (Cons h as)
    with bk(1) have h: "ht_items t ! b = Some h" by simp
    with head_of_chain [OF bk(1)] obtain hit where hit: "cells s h = Some hit" by blast
    have "h \<noteq> fresh s" using below [OF h] by simp
    note lh = inserted_links_head [OF h hit this, of key n]
    have tl: "chain (cells s) (item_next hit) (Some h) as"
      using bk(1) Cons hit by (simp add: item_links_def)
    have "item_links (cells s) x = item_links ?c x" if "x \<in> set as" for x
    proof -
      have "x \<noteq> h" using that bk(2) Cons by auto
      moreover have "x \<noteq> fresh s" using bk(4) [of x] that Cons by auto
      ultimately show ?thesis using inserted_frame(3) [of x s t b key n] h
        by (simp add: item_links_def)
    qed
    from chain_cong [OF this] tl have "chain ?c (item_next hit) (Some h) as" by blast
    with Cons h lh show ?thesis by simp
  qed
  with inserted_cells_new [OF below] show ?thesis
    by (simp add: item_links_def zero_item_def)
qed

lemma inserted_chain_other:
  assumes ok: "table_ok s t bs" and b: "b < length (ht_items t)"
    and c: "c < length (ht_items t)" "c \<noteq> b"
  shows "chain (cells (inserted b t key n s)) (ht_items t ! c) None (bs c)"
proof -
  note bk = table_ok_bucket [OF ok b] and ck = table_ok_bucket [OF ok c(1)]
  have "item_links (cells s) x = item_links (cells (inserted b t key n s)) x" if "x \<in> set (bs c)" for x
  proof -
    have "x \<notin> set (bs b)"
      using ok b c that by (auto simp: table_ok_def disjoint_ok_def)
    then have "ht_items t ! b \<noteq> Some x" using head_of_chain [OF bk(1)] by blast
    then show ?thesis
      using inserted_frame(3) [of x s t b key n] ck(4) [OF that] by (simp add: item_links_def)
  qed
  from chain_cong [OF this] ck(1) show ?thesis by blast
qed

lemma inserted_below_fresh:
  assumes "below_fresh s"
  shows "below_fresh (inserted b t key n s)"
proof -
  have "cells (inserted b t key n s) a = None" if a: "fresh s + 2 \<le> a" for a
  proof -
    have "cells s a = None" using assms a by (simp add: below_fresh_def)
    with inserted_frame(1) [of a s b t key n] a show ?thesis by simp
  qed
  with assms show ?thesis by (simp add: below_fresh_def)
qed

lemma table_ok_below: "table_ok s t bs \<Longrightarrow> a \<in> nodes (length (ht_items t)) bs \<Longrightarrow> a < fresh s"
  using item_ok_below by (auto simp: table_ok_def)

lemma inserted_nodes:
  "b < n \<Longrightarrow> nodes n (bs(b := e # bs b)) = insert e (nodes n bs)"
  by (auto simp: nodes_def split: if_splits)

lemma inserted_disjoint:
  assumes ok: "table_ok s t bs" and b: "b < length (ht_items t)"
  shows "disjoint_ok (length (ht_items t)) (inserted b t key n s) (bs(b := fresh s # bs b))"
proof -
  let ?n = "length (ht_items t)" and ?s = "inserted b t key n s"
  have old: "bufs ?s a = bufs s a" "bufs s a \<subseteq> {..<fresh s}" "a < fresh s" if "a \<in> nodes ?n bs" for a
  proof -
    have a: "item_ok s a" and bf: "below_fresh s" using ok that by (auto simp: table_ok_def)
    show lt: "a < fresh s" using item_ok_below [OF bf a] .
    show "bufs ?s a = bufs s a" using inserted_item_ok(4) [OF bf _ a] lt by simp
    show "bufs s a \<subseteq> {..<fresh s}" using bufs_below [OF bf a] by auto
  qed
  have head: "h < fresh s" if "ht_items t ! b = Some h" for h
    using head_of_chain [OF table_ok_bucket(1) [OF ok b] that] table_ok_bucket(4) [OF ok b] by blast
  have dis: "\<forall>a \<in> nodes ?n bs. \<forall>a' \<in> nodes ?n bs. a \<noteq> a' \<longrightarrow> bufs s a \<inter> bufs s a' = {}"
    and bkt: "\<forall>b < ?n. \<forall>c < ?n. b \<noteq> c \<longrightarrow> set (bs b) \<inter> set (bs c) = {}"
    using ok by (auto simp: table_ok_def disjoint_ok_def)
  have "bufs ?s a \<inter> bufs ?s a' = {}"
    if "a \<in> insert (fresh s) (nodes ?n bs)" "a' \<in> insert (fresh s) (nodes ?n bs)" "a \<noteq> a'" for a a'
  proof -
    note ab = that
    have new: "bufs ?s (fresh s) = {fresh s + 1}"
      using inserted_new_item(4) head by blast
    have apart: "bufs ?s x \<inter> {fresh s + 1} = {}" if "x \<in> nodes ?n bs" for x
      using old [OF that] by auto
    consider "a = fresh s" "a' \<in> nodes ?n bs" | "a' = fresh s" "a \<in> nodes ?n bs"
      | "a \<in> nodes ?n bs" "a' \<in> nodes ?n bs" using ab by auto
    then show ?thesis
    proof cases
      case 1
      then show ?thesis using new apart [of a'] by auto
    next
      case 2
      then show ?thesis using new apart [of a] by auto
    next
      case 3
      then show ?thesis using old(1) dis \<open>a \<noteq> a'\<close> by simp
    qed
  qed
  moreover have "set ((bs(b := fresh s # bs b)) i) \<inter> set ((bs(b := fresh s # bs b)) j) = {}"
    if "i < ?n" "j < ?n" "i \<noteq> j" for i j
  proof -
    have nf: "fresh s \<notin> set (bs d)" if "d < ?n" for d
      using table_ok_bucket(4) [OF ok that] by blast
    have "set (bs i) \<inter> set (bs j) = {}" using bkt that by blast
    with nf [OF \<open>i < ?n\<close>] nf [OF \<open>j < ?n\<close>] \<open>i \<noteq> j\<close> show ?thesis by auto
  qed
  ultimately show ?thesis
    by (simp add: disjoint_ok_def inserted_nodes [OF b])
qed

lemma inserted_table_ok:
  assumes ok: "table_ok s t bs" and b: "b < length (ht_items t)"
  shows "table_ok (inserted b t key n s) (t\<lparr>ht_items := (ht_items t)[b := Some (fresh s)]\<rparr>)
           (bs(b := fresh s # bs b))"
proof -
  let ?s = "inserted b t key n s"
  have head: "h < fresh s" if "ht_items t ! b = Some h" for h
    using head_of_chain [OF table_ok_bucket(1) [OF ok b] that] table_ok_bucket(4) [OF ok b] by blast
  have bf: "below_fresh s" using ok by (simp add: table_ok_def)
  have "item_ok ?s a" if "a \<in> insert (fresh s) (nodes (length (ht_items t)) bs)" for a
  proof (cases "a = fresh s")
    case True
    then show ?thesis using inserted_new_item(1) [OF head] by simp
  next
    case False
    then show ?thesis using that ok inserted_item_ok(1) [OF bf False] by (auto simp: table_ok_def)
  qed
  moreover have "chain (cells ?s) (((ht_items t)[b := Some (fresh s)]) ! c) None
      ((bs(b := fresh s # bs b)) c) \<and> distinct ((bs(b := fresh s # bs b)) c)"
    if "c < length (ht_items t)" for c
  proof (cases "c = b")
    case True
    have "fresh s \<notin> set (bs b)" using table_ok_bucket(4) [OF ok b] by blast
    then show ?thesis
      using True b inserted_chain_new [OF ok b] table_ok_bucket(2) [OF ok b] by simp
  next
    case False
    then show ?thesis
      using inserted_chain_other [OF ok b that] table_ok_bucket(2) [OF ok that] by simp
  qed
  ultimately show ?thesis
    using ok b inserted_disjoint [OF ok b] inserted_below_fresh [OF bf]
    by (auto simp: table_ok_def shape_ok_def chains_ok_def inserted_nodes)
qed

lemma inserted_entries:
  assumes ok: "table_ok s t bs" and b: "b < length (ht_items t)" and c: "c < length (ht_items t)"
  shows "entries (inserted b t key n s) (bs(b := fresh s # bs b)) c =
    (if c = b then (cstr_of (take n key @ [0]), []) # entries s bs b else entries s bs c)"
proof -
  have head: "h < fresh s" if "ht_items t ! b = Some h" for h
    using head_of_chain [OF table_ok_bucket(1) [OF ok b] that] table_ok_bucket(4) [OF ok b] by blast
  have bf: "below_fresh s" using ok by (simp add: table_ok_def)
  have "map (\<lambda>a. (key_of (inserted b t key n s) a, value_of (inserted b t key n s) a)) (bs d)
      = entries s bs d" if "d < length (ht_items t)" for d
    using inserted_item_ok(2,3) [OF bf] table_ok_bucket(3,4) [OF ok that]
    by (fastforce simp: entries_def)
  with b c inserted_new_item(2,3) [OF head] show ?thesis by (simp add: entries_def)
qed

section \<open>\<open>get_key_entry\<close>\<close>

text \<open>\<open>stored_key key n\<close> is the string \<open>get_key_entry\<close> stores for a new item.\<close>

definition stored_key :: "byte list \<Rightarrow> nat \<Rightarrow> byte list" where
  "stored_key key n = cstr_of (take n key @ [0])"

lemma stored_key_cstr: "cstr q key \<Longrightarrow> stored_key key n = take n q"
proof -
  assume q: "cstr q key"
  then obtain rest where key: "key = q @ 0 # rest" and nz: "0 \<notin> set q" by (auto simp: cstr_def)
  have "cstr (take n q) (take n key @ [0])"
  proof (cases "n \<le> length q")
    case True
    then have "take n key = take n q" by (simp add: key)
    moreover have "0 \<notin> set (take n q)" using nz by (auto dest: in_set_takeD)
    ultimately show ?thesis using cstr_append_zero [of "take n q" "[]"] by simp
  next
    case False
    then obtain m where "n = length q + Suc m" by (metis add_Suc_right less_imp_Suc_add not_le)
    then show ?thesis using nz by (simp add: key)
  qed
  then show ?thesis by (simp add: stored_key_def)
qed

lemma table_inv_obtain:
  assumes "table_inv s bs"
  obtains t where "ht s = Ht_live t" "table_ok s t bs" "ht_capacity t \<noteq> 0"
    "length (ht_items t) = unat (ht_capacity t)" "length (ht_locks t) = unat (ht_capacity t)"
    "\<And>b. b < unat (ht_capacity t) \<Longrightarrow> \<not> ht_locks t ! b"
    "\<And>q. bucket_of (ht_capacity t) q < unat (ht_capacity t)"
  using assms bucket_of_less
  by (fastforce simp: table_inv_def table_ok_def shape_ok_def word_gt_0)

text \<open>The global \<open>ht\<close> and the mutexes are not part of what the invariant says of the items.\<close>

lemma ht_upd_content [simp]:
  "key_of (s\<lparr>ht := p\<rparr>) a = key_of s a"
  "value_of (s\<lparr>ht := p\<rparr>) a = value_of s a"
  "bufs (s\<lparr>ht := p\<rparr>) a = bufs s a"
  "item_ok (s\<lparr>ht := p\<rparr>) a = item_ok s a"
  "matches (s\<lparr>ht := p\<rparr>) n q a = matches s n q a"
  "below_fresh (s\<lparr>ht := p\<rparr>) = below_fresh s"
  "disjoint_ok m (s\<lparr>ht := p\<rparr>) bs = disjoint_ok m s bs"
  using content_cong [of "s\<lparr>ht := p\<rparr>" a s]
  by (simp_all add: matches_def below_fresh_def disjoint_ok_def bufs_def)

lemma matches_ht_upd [simp]: "matches (s\<lparr>ht := p\<rparr>) n q = matches s n q"
  by (rule ext) simp

lemma entries_ht_upd [simp]: "entries (s\<lparr>ht := p\<rparr>) bs = entries s bs"
  by (rule ext) (simp add: entries_def)

lemma table_ok_locks [simp]:
  "table_ok (s\<lparr>ht := p\<rparr>) t bs = table_ok s t bs"
  "length l = length (ht_locks t) \<Longrightarrow> table_ok s (t\<lparr>ht_locks := l\<rparr>) bs = table_ok s t bs"
  by (simp_all add: table_ok_def shape_ok_def chains_ok_def)

lemma ht_upd_same: "ht s = p \<Longrightarrow> s\<lparr>ht := p\<rparr> = s"
  by (cases s) simp

lemma ht_locks_restore [simp]:
  "l = ht_locks t \<Longrightarrow> t\<lparr>ht_locks := l, ht_items := i\<rparr> = t\<lparr>ht_items := i\<rparr>"
  "l = ht_locks t \<Longrightarrow> t\<lparr>ht_items := i, ht_locks := l\<rparr> = t\<lparr>ht_items := i\<rparr>"
  by (cases t; simp)+

lemma get_key_entry_found [cmd_run]:
  assumes t: "ht s = Ht_live t" "table_ok s t bs"
    and free: "\<not> ht_locks t ! bucket_of (ht_capacity t) q"
    and q: "cstr q key"
    and found: "find (matches s (unat n) q) (bs (bucket_of (ht_capacity t) q)) = Some e"
  shows "get_key_entry key n s = Return (e, s)"
proof -
  let ?b = "bucket_of (ht_capacity t) q"
  have sh: "ht_capacity t \<noteq> 0" "?b < length (ht_items t)" "?b < length (ht_locks t)"
    using t(2) bucket_of_less [of "ht_capacity t" q] by (auto simp: table_ok_def shape_ok_def word_gt_0)
  have "t\<lparr>ht_locks := (ht_locks t)[?b := False]\<rparr> = t"
    using free sh(3) by (metis (full_types) hashtable_t.surjective hashtable_t.update_convs(3) list_update_id)
  moreover have "s\<lparr>ht := Ht_live t\<rparr> = s" using t(1) by simp
  ultimately show ?thesis
    using t free q found sh
    by (simp add: get_key_entry_def cmd_run search_run [where t = "t\<lparr>ht_locks := (ht_locks t)[?b := True]\<rparr>"])
qed

lemma inserted_locks:
  "inserted b (t\<lparr>ht_locks := l\<rparr>) key n (s\<lparr>ht := p\<rparr>) =
     (inserted b t key n s)\<lparr>ht := Ht_live (t\<lparr>ht_locks := l, ht_items := (ht_items t)[b := Some (fresh s)]\<rparr>)\<rparr>"
  by (simp add: inserted_def Let_def split: option.splits)

lemma get_key_entry_new [cmd_run]:
  assumes t: "ht s = Ht_live t" "table_ok s t bs"
    and free: "\<not> ht_locks t ! bucket_of (ht_capacity t) q"
    and q: "cstr q key" and len: "length key = KEY_SIZE" "unat n \<le> KEY_SIZE"
    and none: "find (matches s (unat n) q) (bs (bucket_of (ht_capacity t) q)) = None"
  shows "get_key_entry key n s =
    Return (fresh s, inserted (bucket_of (ht_capacity t) q) t key (unat n) s)"
proof -
  let ?b = "bucket_of (ht_capacity t) q" and ?l = "(ht_locks t)[bucket_of (ht_capacity t) q := True]"
  let ?t = "t\<lparr>ht_locks := ?l\<rparr>" and ?s = "s\<lparr>ht := Ht_live (t\<lparr>ht_locks := ?l\<rparr>)\<rparr>"
  have sh: "ht_capacity t \<noteq> 0" "?b < length (ht_items t)" "?b < length (ht_locks t)"
    using t(2) bucket_of_less [of "ht_capacity t" q] by (auto simp: table_ok_def shape_ok_def word_gt_0)
  have "new_entry ?b (ht_items ?t ! ?b) key n ?s = Return (fresh ?s, inserted ?b ?t key (unat n) ?s)"
    using table_ok_bucket(1) [OF t(2) sh(2)] t(2) sh len
    by (intro new_entry_run) (simp_all add: table_ok_def)
  moreover have "(ht_locks t)[?b := False] = ht_locks t"
    using free by (metis (full_types) list_update_id)
  ultimately show ?thesis
    using t free q none sh ht_upd_same [of "inserted ?b t key (unat n) s"]
    by (simp add: get_key_entry_def cmd_run search_run [where t = ?t] inserted_locks)
qed

end
