(* ===== verification/Hash_Table_Remove.thy ===== *)
theory Hash_Table_Remove
  imports Hash_Table_Inv
begin

text \<open>
  \<open>remove_item\<close> under the invariant: unlinking a cell from the middle, the head or the end of its
  chain, releasing its buffers, and the two branches that return \<open>-1\<close>.
\<close>

section \<open>Segments of a chain\<close>

primrec seg ::
  "(addr \<Rightarrow> hash_item_t option) \<Rightarrow> addr option \<Rightarrow> addr option \<Rightarrow> addr list \<Rightarrow>
     addr option \<Rightarrow> addr option \<Rightarrow> bool" where
  "seg c p prv [] e pv \<longleftrightarrow> p = e \<and> prv = pv"
| "seg c p prv (a # as) e pv \<longleftrightarrow>
     p = Some a \<and> (case item_links c a of
                     None \<Rightarrow> False
                   | Some (nx, q) \<Rightarrow> q = prv \<and> seg c nx (Some a) as e pv)"

lemma chain_append:
  "chain c p prv (as @ cs) \<longleftrightarrow> (\<exists>e pv. seg c p prv as e pv \<and> chain c e pv cs)"
  by (induction as arbitrary: p prv) (auto split: option.splits)

lemma seg_last: "seg c p prv as e pv \<Longrightarrow> pv = (if as = [] then prv else Some (last as))"
  by (induction as arbitrary: p prv) (auto split: option.splits)

lemma seg_last_links:
  "seg c p prv as e pv \<Longrightarrow> as \<noteq> [] \<Longrightarrow> \<exists>q. item_links c (last as) = Some (e, q)"
  by (induction as arbitrary: p prv) (auto split: option.splits if_splits)

lemma seg_retarget:
  "seg c p prv as e pv \<Longrightarrow> distinct as \<Longrightarrow> as \<noteq> [] \<Longrightarrow>
     (\<And>x. x \<in> set as \<Longrightarrow> x \<noteq> last as \<Longrightarrow> item_links c' x = item_links c x) \<Longrightarrow>
     (\<And>q. item_links c (last as) = Some (e, q) \<Longrightarrow> item_links c' (last as) = Some (e', q)) \<Longrightarrow>
     seg c' p prv as e' pv"
proof (induction as arbitrary: p prv)
  case Nil
  then show ?case by simp
next
  case (Cons a as)
  then obtain nx where nx: "item_links c a = Some (nx, prv)" "p = Some a" "seg c nx (Some a) as e pv"
    by (auto split: option.splits)
  show ?case
  proof (cases "as = []")
    case True
    with Cons.prems nx show ?thesis by simp
  next
    case False
    have "a \<noteq> last as" using Cons.prems(2) False by auto
    then have "item_links c' a = item_links c a" using Cons.prems(4) [of a] False by simp
    moreover have "seg c' nx (Some a) as e' pv"
      using Cons.IH [OF nx(3)] Cons.prems False by simp
    ultimately show ?thesis using nx by simp
  qed
qed

lemma seg_cong:
  "(\<And>x. x \<in> set as \<Longrightarrow> item_links c x = item_links c' x) \<Longrightarrow>
     seg c p prv as e pv = seg c' p prv as e pv"
  by (induction as arbitrary: p prv) (auto split: option.splits)

lemma chain_next: "chain c p prv as \<Longrightarrow> p = (case as of [] \<Rightarrow> None | x # _ \<Rightarrow> Some x)"
  by (cases as) auto

section \<open>Unlinking a cell\<close>

definition unlink_cells ::
  "(addr \<Rightarrow> hash_item_t option) \<Rightarrow> hash_item_t \<Rightarrow> addr \<Rightarrow> addr \<Rightarrow> hash_item_t option" where
  "unlink_cells c it a =
     (let c1 = (case item_next it of None \<Rightarrow> c
                | Some x \<Rightarrow> c(x := map_option (\<lambda>nx. nx\<lparr>item_prev := item_prev it\<rparr>) (c x)));
          c2 = (case item_prev it of None \<Rightarrow> c1
                | Some y \<Rightarrow> c1(y := map_option (\<lambda>pv. pv\<lparr>item_next := item_next it\<rparr>) (c1 y)))
      in c2(a := None))"

lemma unlink_links:
  assumes "item_next it \<noteq> item_prev it \<or> item_next it = None"
  shows "item_links (unlink_cells c it a) x =
    (if x = a then None
     else if item_next it = Some x then map_option (\<lambda>(n, p). (n, item_prev it)) (item_links c x)
     else if item_prev it = Some x then map_option (\<lambda>(n, p). (item_next it, p)) (item_links c x)
     else item_links c x)"
  using assms
  by (auto simp: unlink_cells_def Let_def item_links_def option.map_comp o_def split: option.splits)

lemma unlink_content:
  "x \<noteq> a \<Longrightarrow> map_option item_content (unlink_cells c it a x) = map_option item_content (c x)"
  "x \<noteq> a \<Longrightarrow> map_option item_rwlock (unlink_cells c it a x) = map_option item_rwlock (c x)"
  by (cases "c x"; auto simp: unlink_cells_def Let_def item_content_def split: option.splits)+

lemma unlink_None:
  "c x = None \<Longrightarrow> unlink_cells c it a x = None"
  by (auto simp: unlink_cells_def Let_def split: option.splits)

lemma chain_unlink:
  assumes ch: "chain (cells s) p None (xs @ a # ys)" and dist: "distinct (xs @ a # ys)"
    and a: "cells s a = Some it"
  shows "chain (unlink_cells (cells s) it a) (if xs = [] then item_next it else p) None (xs @ ys)"
    and "item_next it = (case ys of [] \<Rightarrow> None | y # _ \<Rightarrow> Some y)"
    and "item_prev it = (if xs = [] then None else Some (last xs))"
    and "p = Some a \<longleftrightarrow> xs = []"
proof -
  let ?c = "cells s" and ?c' = "unlink_cells (cells s) it a"
  from ch obtain e pv where sg: "seg ?c p None xs e pv" and tl: "chain ?c e pv (a # ys)"
    by (auto simp: chain_append)
  have e: "e = Some a" and la: "item_prev it = pv" and ys: "chain ?c (item_next it) (Some a) ys"
    using tl a by (auto simp: item_links_def)
  show nx: "item_next it = (case ys of [] \<Rightarrow> None | y # _ \<Rightarrow> Some y)"
    by (rule chain_next [OF ys])
  show pv: "item_prev it = (if xs = [] then None else Some (last xs))"
    using seg_last [OF sg] la by simp
  show "p = Some a \<longleftrightarrow> xs = []"
    using sg e dist by (cases xs) auto
  have apart: "item_next it \<noteq> item_prev it \<or> item_next it = None"
    using nx pv dist by (auto split: list.splits)
  note links = unlink_links [OF apart, of ?c a]
  have tail: "chain ?c' (item_next it) (item_prev it) ys"
  proof (cases ys)
    case Nil
    with nx show ?thesis by simp
  next
    case (Cons y ys')
    with ys obtain n where n: "item_links ?c y = Some (n, Some a)" "chain ?c n (Some y) ys'"
      by (auto split: option.splits)
    have "item_links ?c z = item_links ?c' z" if z: "z \<in> set ys'" for z
    proof -
      have "z \<notin> set xs" "z \<noteq> a" "z \<noteq> y" using z dist Cons by auto
      moreover from this have "item_prev it \<noteq> Some z" using pv last_in_set [of xs] by auto
      ultimately show ?thesis using links [of z] Cons nx by simp
    qed
    from chain_cong [OF this] n(2) have "chain ?c' n (Some y) ys'" by blast
    moreover have "item_links ?c' y = Some (n, item_prev it)"
      using links [of y] n(1) Cons nx dist by auto
    ultimately show ?thesis using Cons nx by simp
  qed
  show "chain ?c' (if xs = [] then item_next it else p) None (xs @ ys)"
  proof (cases "xs = []")
    case True
    with tail pv show ?thesis by simp
  next
    case False
    have "seg ?c' p None xs (item_next it) pv"
    proof (rule seg_retarget [OF sg _ False])
      show "distinct xs" using dist by simp
      show "item_links ?c' x = item_links ?c x" if "x \<in> set xs" "x \<noteq> last xs" for x
        using links [of x] that dist nx pv by (auto split: list.splits)
      show "item_links ?c' (last xs) = Some (item_next it, q)"
        if "item_links ?c (last xs) = Some (e, q)" for q
        using links [of "last xs"] that dist nx pv False last_in_set [OF False]
        by (auto split: list.splits)
    qed
    with tail la False show ?thesis by (auto simp: chain_append)
  qed
qed

section \<open>The store after a removal\<close>

definition removed :: "nat \<Rightarrow> hashtable_t \<Rightarrow> hash_item_t \<Rightarrow> addr \<Rightarrow> memory \<Rightarrow> memory" where
  "removed b t it a s =
     s\<lparr>ht := Ht_live (if ht_items t ! b = Some a
                      then t\<lparr>ht_items := (ht_items t)[b := item_next it]\<rparr> else t),
       cells := unlink_cells (cells s) it a,
       blocks := (\<lambda>x. if x \<in> bufs_of it then None else blocks s x)\<rparr>"

lemma removed_simps [simp]:
  "ht (removed b t it a s) = Ht_live (if ht_items t ! b = Some a
     then t\<lparr>ht_items := (ht_items t)[b := item_next it]\<rparr> else t)"
  "cells (removed b t it a s) = unlink_cells (cells s) it a"
  "blocks (removed b t it a s) x = (if x \<in> bufs_of it then None else blocks s x)"
  "fresh (removed b t it a s) = fresh s"
  "junk (removed b t it a s) = junk s"
  by (simp_all add: removed_def)

text \<open>The neighbours of a cell of a chain are allocated cells other than the cell itself.\<close>

lemma chain_neighbours:
  assumes "chain (cells s) p None (xs @ a # ys)" and "distinct (xs @ a # ys)"
    and "cells s a = Some it"
    and "\<And>x. x \<in> set (xs @ a # ys) \<Longrightarrow> cells s x \<noteq> None"
  shows "item_next it = Some x \<Longrightarrow> x \<noteq> a \<and> (\<exists>nx. cells s x = Some nx)"
    and "item_prev it = Some y \<Longrightarrow> y \<noteq> a \<and> (\<exists>pv. cells s y = Some pv)"
    and "item_next it = Some x \<Longrightarrow> item_prev it = Some y \<Longrightarrow> x \<noteq> y"
  using chain_unlink(2,3) [OF assms(1-3)] assms(2,4) last_in_set [of xs]
  by (auto split: list.splits if_splits)

lemma find_split:
  "find P xs = Some a \<Longrightarrow> \<exists>ys zs. xs = ys @ a # zs \<and> P a \<and> (\<forall>y \<in> set ys. \<not> P y)"
  by (fastforce simp: find_Some_iff dest!: id_take_nth_drop [of _ xs] simp: in_set_conv_nth
        intro: exI [of _ "take _ xs"])

lemma removed_locks:
  "removed b (t\<lparr>ht_locks := l\<rparr>) it a (s\<lparr>ht := p\<rparr>) =
     (removed b t it a s)\<lparr>ht := Ht_live
        (if ht_items t ! b = Some a then t\<lparr>ht_locks := l, ht_items := (ht_items t)[b := item_next it]\<rparr>
         else t\<lparr>ht_locks := l\<rparr>)\<rparr>"
  by (simp add: removed_def cong: if_cong)

lemma table_ok_cap: "table_ok s t bs \<Longrightarrow> ht_capacity t \<noteq> 0"
  by (simp add: table_ok_def shape_ok_def)

lemma table_ok_index:
  assumes "table_ok s t bs"
  shows "bucket_of (ht_capacity t) q < length (ht_items t)"
    and "bucket_of (ht_capacity t) q < length (ht_locks t)"
  using assms bucket_of_less [of "ht_capacity t" q] by (auto simp: table_ok_def shape_ok_def word_gt_0)

lemma remove_item_none [cmd_run]:
  assumes t: "ht s = Ht_live t" "table_ok s t bs"
    and free: "\<not> ht_locks t ! bucket_of (ht_capacity t) q" and q: "cstr q key"
    and none: "find (matches s (unat n) q) (bs (bucket_of (ht_capacity t) q)) = None"
  shows "remove_item me key n s = Return (- 1, s)"
proof -
  let ?b = "bucket_of (ht_capacity t) q"
  note sh = table_ok_cap [OF t(2)] table_ok_index [OF t(2), of q]
  have "(ht_locks t)[?b := False] = ht_locks t"
    using free by (metis (full_types) list_update_id)
  then have "t\<lparr>ht_locks := (ht_locks t)[?b := False]\<rparr> = t" by simp
  with t free q none sh show ?thesis
    by (simp add: remove_item_def cmd_run search_run [where t = "t\<lparr>ht_locks := (ht_locks t)[?b := True]\<rparr>"]
          ht_upd_same)
qed

text \<open>
  The item is locked by another thread. The code then \<^emph>\<open>unlocks\<close> the lock it failed to take.
\<close>

lemma remove_item_busy [cmd_run]:
  assumes t: "ht s = Ht_live t" "table_ok s t bs"
    and free: "\<not> ht_locks t ! bucket_of (ht_capacity t) q" and q: "cstr q key"
    and found: "find (matches s (unat n) q) (bs (bucket_of (ht_capacity t) q)) = Some a"
    and it: "cells s a = Some it" and held: "item_rwlock it \<noteq> Lock_free"
    and others: "rw_unlock me (item_rwlock it) = Undefined Unlock_not_held"
  shows "remove_item me key n s = Undefined Unlock_not_held"
proof -
  let ?b = "bucket_of (ht_capacity t) q"
  note sh = table_ok_cap [OF t(2)] table_ok_index [OF t(2), of q]
  have "rw_trywrlock me (item_rwlock it) = (EBUSY, item_rwlock it)"
    using held by (rule rw_trywrlock_busy)
  with t free q found sh it others show ?thesis
    by (simp add: remove_item_def delete_entry_def cmd_run search_run [where t = "t\<lparr>ht_locks := (ht_locks t)[?b := True]\<rparr>"]
          EBUSY_def)
qed

lemma delete_entry_run:
  assumes t: "ht s = Ht_live t" "table_ok s t bs" and b: "b < length (ht_items t)" and a: "a \<in> set (bs b)"
    and it: "cells s a = Some it" and lock: "item_rwlock it = Lock_free"
  shows "delete_entry me b a s = Return (0, removed b t it a s)"
proof -
  from split_list [OF a] obtain xs ys where split: "bs b = xs @ a # ys" by blast
  note bk = table_ok_bucket [OF t(2) b]
  have alloc: "cells s x \<noteq> None" if "x \<in> set (xs @ a # ys)" for x
    using bk(3) [of x] that split by (auto simp: item_ok_def)
  have nb: "item_next it = Some x \<Longrightarrow> x \<noteq> a \<and> (\<exists>nx. cells s x = Some nx)"
    "item_prev it = Some y \<Longrightarrow> y \<noteq> a \<and> (\<exists>pv. cells s y = Some pv)"
    "item_next it = Some x \<Longrightarrow> item_prev it = Some y \<Longrightarrow> x \<noteq> y" for x y
    using chain_neighbours [OF bk(1) [unfolded split] bk(2) [unfolded split] it alloc] by blast+
  from nb(1) obtain nx where nx: "\<And>x. item_next it = Some x \<Longrightarrow> x \<noteq> a \<and> cells s x = Some (nx x)"
    by metis
  from nb(2) obtain pv where pv: "\<And>x. item_prev it = Some x \<Longrightarrow> x \<noteq> a \<and> cells s x = Some (pv x)"
    by metis
  from bk(3) [of a] split it obtain k kb where k: "item_key it = Some k" "blocks s k = Some kb"
    "value_ok s it" by (auto simp: item_ok_def key_ok_def)
  note rem = removed_def unlink_cells_def Let_def
  have "delete_entry me b a s = Return (0, removed b t it a s)"
    if "item_value it = Some v" "v \<noteq> k" "blocks s v = Some vb" for v vb
    using t(1) b it lock k that nx pv nb(3)
    by (cases "item_next it"; cases "item_prev it")
       (simp_all add: delete_entry_def cmd_run rem bufs_of_def fun_eq_iff)
  moreover have "delete_entry me b a s = Return (0, removed b t it a s)"
    if "item_value it = None"
    using t(1) b it lock k that nx pv nb(3)
    by (cases "item_next it"; cases "item_prev it")
       (simp_all add: delete_entry_def cmd_run rem bufs_of_def fun_eq_iff)
  ultimately show ?thesis using k by (auto simp: value_ok_def split: option.splits)
qed

lemma remove_item_found [cmd_run]:
  assumes t: "ht s = Ht_live t" "table_ok s t bs"
    and free: "\<not> ht_locks t ! bucket_of (ht_capacity t) q" and q: "cstr q key"
    and found: "find (matches s (unat n) q) (bs (bucket_of (ht_capacity t) q)) = Some a"
    and it: "cells s a = Some it" and lock: "item_rwlock it = Lock_free"
  shows "remove_item me key n s = Return (0, removed (bucket_of (ht_capacity t) q) t it a s)"
proof -
  let ?b = "bucket_of (ht_capacity t) q" and ?l = "(ht_locks t)[bucket_of (ht_capacity t) q := True]"
  let ?t = "t\<lparr>ht_locks := ?l\<rparr>" and ?s = "s\<lparr>ht := Ht_live (t\<lparr>ht_locks := ?l\<rparr>)\<rparr>"
  note sh = table_ok_cap [OF t(2)] table_ok_index [OF t(2), of q]
  have "a \<in> set (bs ?b)" using find_split [OF found] by auto
  then have del: "delete_entry me ?b a ?s = Return (0, removed ?b ?t it a ?s)"
    using t(2) sh it lock by (intro delete_entry_run [where bs = bs]) simp_all
  have "(ht_locks t)[?b := False] = ht_locks t"
    using free by (metis (full_types) list_update_id)
  then have unlock: "mutex_unlock ?b (removed ?b ?t it a ?s) = Return ((), removed ?b t it a s)"
    using sh by (simp add: removed_locks mutex_unlock_run ht_upd_same cong: if_cong)
  have lock: "mutex_lock ?b s = Return ((), ?s)" using t(1) sh free by (simp add: mutex_lock_run)
  have "get_bucket key s = Return (?b, s)" using get_bucket_run [OF q t(1) sh(1)] .
  moreover have "search key n ?s = Return (Some a, ?s)"
    using search_run [of ?s ?t bs q key n] t(2) q sh found by simp
  ultimately show ?thesis using lock del unlock by (simp add: remove_item_def cbind_run cseq_run cret_run)
qed

section \<open>The invariant after a removal\<close>

lemma removed_item_ok:
  assumes "x \<noteq> a" and "bufs s x \<inter> bufs_of it = {}"
  shows "key_of (removed b t it a s) x = key_of s x"
    and "value_of (removed b t it a s) x = value_of s x"
    and "bufs (removed b t it a s) x = bufs s x"
    and "item_ok (removed b t it a s) x = item_ok s x"
proof -
  have same: "map_option item_content (cells (removed b t it a s) x) = map_option item_content (cells s x)"
    using unlink_content(1) [OF assms(1)] by simp
  have "blocks (removed b t it a s) y = blocks s y" if "y \<in> bufs s x" for y
    using assms(2) that by auto
  note cong = content_cong [OF same this]
  show "key_of (removed b t it a s) x = key_of s x" by (rule cong(1))
  show "value_of (removed b t it a s) x = value_of s x" by (rule cong(2))
  show "bufs (removed b t it a s) x = bufs s x" by (rule cong(3))
  show "item_ok (removed b t it a s) x = item_ok s x" by (rule cong(4))
qed

text \<open>
  The lemmas below are about one removal: bucket \<open>b\<close> of a table in order is
  \<open>xs @ a # ys\<close> and \<open>a\<close> is the item that goes.
\<close>

definition removal :: "memory \<Rightarrow> hashtable_t \<Rightarrow> (nat \<Rightarrow> addr list) \<Rightarrow> nat \<Rightarrow> addr list \<Rightarrow> addr \<Rightarrow>
    addr list \<Rightarrow> hash_item_t \<Rightarrow> bool" where
  "removal s t bs b xs a ys it \<longleftrightarrow>
     table_ok s t bs \<and> b < length (ht_items t) \<and> bs b = xs @ a # ys \<and> cells s a = Some it"

lemma removal_apart:
  assumes r: "removal s t bs b xs a ys it" and c: "c < length (ht_items t)" "c \<noteq> b"
  shows "a \<notin> set (bs c)"
proof -
  have "set (bs b) \<inter> set (bs c) = {}"
    using r c table_ok_apart(1) [of s t bs b c] by (auto simp: removal_def)
  moreover have "a \<in> set (bs b)" using r by (simp add: removal_def)
  ultimately show ?thesis by blast
qed

lemma removal_distinct: "removal s t bs b xs a ys it \<Longrightarrow> distinct (xs @ a # ys)"
  using table_ok_bucket(2) [of s t bs b] by (auto simp: removal_def)

lemma removal_nodes:
  assumes r: "removal s t bs b xs a ys it"
  shows "nodes (length (ht_items t)) (bs(b := xs @ ys)) = nodes (length (ht_items t)) bs - {a}"
proof -
  let ?n = "length (ht_items t)"
  have b: "b < ?n" "bs b = xs @ a # ys" using r by (simp_all add: removal_def)
  have "nodes ?n bs = set (bs b) \<union> (\<Union>c \<in> {..<?n} - {b}. set (bs c))"
    using nodes_upd [OF b(1), of bs "bs b"] by simp
  moreover have "a \<notin> (\<Union>c \<in> {..<?n} - {b}. set (bs c))" using removal_apart [OF r] by blast
  ultimately show ?thesis
    using nodes_upd [OF b(1), of bs "xs @ ys"] b(2) removal_distinct [OF r] by auto
qed

lemma removal_bufs:
  assumes r: "removal s t bs b xs a ys it"
    and x: "x \<in> nodes (length (ht_items t)) bs" "x \<noteq> a"
  shows "bufs s x \<inter> bufs_of it = {}"
proof -
  have "a \<in> nodes (length (ht_items t)) bs"
    using r nodes_bucket [of b _ a bs] by (simp add: removal_def)
  moreover have "bufs s a = bufs_of it" using r by (simp add: bufs_def removal_def)
  ultimately show ?thesis using r x table_ok_apart(2) [of s t bs x a] by (simp add: removal_def)
qed

lemma removal_item_ok:
  assumes r: "removal s t bs b xs a ys it"
    and x: "x \<in> nodes (length (ht_items t)) bs" "x \<noteq> a"
  shows "key_of (removed b t it a s) x = key_of s x"
    and "value_of (removed b t it a s) x = value_of s x"
    and "bufs (removed b t it a s) x = bufs s x"
    and "item_ok (removed b t it a s) x"
  using removed_item_ok [OF x(2) removal_bufs [OF r x]] r x(1)
  by (auto simp: removal_def table_ok_def)

lemma removal_chain_other:
  assumes r: "removal s t bs b xs a ys it" and c: "c < length (ht_items t)" "c \<noteq> b"
  shows "chain (unlink_cells (cells s) it a) (ht_items t ! c) None (bs c)"
proof -
  have ok: "table_ok s t bs" and b: "b < length (ht_items t)" "bs b = xs @ a # ys" "cells s a = Some it"
    using r by (simp_all add: removal_def)
  note bk = table_ok_bucket [OF ok b(1)]
  note un = chain_unlink [OF bk(1) [unfolded b(2)] removal_distinct [OF r] b(3)]
  have apart: "item_next it \<noteq> item_prev it \<or> item_next it = None"
    using un(2,3) removal_distinct [OF r] last_in_set [of xs] by (auto split: list.splits)
  have "item_links (cells s) x = item_links (unlink_cells (cells s) it a) x" if x: "x \<in> set (bs c)" for x
  proof -
    have "x \<notin> set (bs b)" using table_ok_apart(1) [OF ok b(1) c(1)] c(2) x by blast
    then have "x \<noteq> a" "item_next it \<noteq> Some x" "item_prev it \<noteq> Some x"
      using un(2,3) b(2) last_in_set [of xs] by (auto split: list.splits)
    then show ?thesis using unlink_links [OF apart, of "cells s" a x] by simp
  qed
  from chain_cong [OF this] table_ok_bucket(1) [OF ok c(1)] show ?thesis by blast
qed

lemma removed_table_ok:
  assumes r: "removal s t bs b xs a ys it"
  shows "table_ok (removed b t it a s)
    (if ht_items t ! b = Some a then t\<lparr>ht_items := (ht_items t)[b := item_next it]\<rparr> else t)
    (bs(b := xs @ ys))"
proof -
  let ?n = "length (ht_items t)" and ?s = "removed b t it a s"
  let ?t = "if ht_items t ! b = Some a then t\<lparr>ht_items := (ht_items t)[b := item_next it]\<rparr> else t"
  have ok: "table_ok s t bs" and b: "b < ?n" "bs b = xs @ a # ys" "cells s a = Some it"
    using r by (simp_all add: removal_def)
  note bk = table_ok_bucket [OF ok b(1)]
  note un = chain_unlink [OF bk(1) [unfolded b(2)] removal_distinct [OF r] b(3)]
  have n: "length (ht_items ?t) = ?n" "shape_ok ?t" using ok by (auto simp: table_ok_def shape_ok_def)
  have "chain (cells ?s) (ht_items ?t ! c) None ((bs(b := xs @ ys)) c) \<and> distinct ((bs(b := xs @ ys)) c)"
    if c: "c < ?n" for c
  proof (cases "c = b")
    case True
    then show ?thesis using un(1,4) b(1) removal_distinct [OF r] by (auto split: if_splits)
  next
    case False
    then show ?thesis using removal_chain_other [OF r c False] table_ok_bucket(2) [OF ok c] by simp
  qed
  moreover have "disjoint_ok ?n ?s (bs(b := xs @ ys))"
  proof -
    have "set ((bs(b := xs @ ys)) i) \<subseteq> set (bs i)" for i using b(2) by auto
    moreover have "bufs ?s x = bufs s x" if "x \<in> nodes ?n bs - {a}" for x
      using removal_item_ok(3) [OF r] that by simp
    ultimately show ?thesis
      using ok unfolding disjoint_ok_def table_ok_def removal_nodes [OF r] by blast
  qed
  moreover have "below_fresh ?s"
    using ok unlink_None by (auto simp: table_ok_def below_fresh_def)
  moreover have "item_ok ?s x" if "x \<in> nodes ?n bs - {a}" for x
    using removal_item_ok(4) [OF r] that by simp
  ultimately show ?thesis
    using n by (simp add: table_ok_def chains_ok_def removal_nodes [OF r])
qed

lemma removed_entries:
  assumes r: "removal s t bs b xs a ys it" and c: "c < length (ht_items t)"
  shows "entries (removed b t it a s) (bs(b := xs @ ys)) c =
    (if c = b then map (\<lambda>x. (key_of s x, value_of s x)) (xs @ ys) else entries s bs c)"
proof -
  have "x \<in> nodes (length (ht_items t)) bs \<and> x \<noteq> a" if "x \<in> set ((bs(b := xs @ ys)) c)" for x
    using removal_nodes [OF r] nodes_bucket [of c _ x "bs(b := xs @ ys)"] c that by blast
  then have "map (\<lambda>x. (key_of (removed b t it a s) x, value_of (removed b t it a s) x))
      ((bs(b := xs @ ys)) c) = map (\<lambda>x. (key_of s x, value_of s x)) ((bs(b := xs @ ys)) c)"
    using removal_item_ok(1,2) [OF r] by (intro map_cong) auto
  then show ?thesis by (simp add: entries_def)
qed

end
