(* ===== verification/KV_Store.thy ===== *)
theory KV_Store
  imports Hash_Table_Remove
begin

text \<open>
  \<^verbatim>\<open>src/server/kvstore.c\<close>, the requests: \<open>set_request\<close>, \<open>get_request\<close> and
  \<open>del_request\<close>, each with every branch. The lemmas say what each does to the contents of the
  table, as functions on the list of one bucket: \<open>bucket_put\<close>, \<open>bucket_get\<close>, \<open>bucket_del\<close>.
\<close>

section \<open>The requests\<close>

definition set_request :: "tid \<Rightarrow> request \<Rightarrow> response \<Rightarrow> (memory, int \<times> response) cmd" where
  "set_request me request response =
     cbind (get_key_entry (req_key request) (req_key_len request)) (\<lambda>e.
     cbind (rwlock_trywrlock me e) (\<lambda>r.
     if r \<noteq> 0 then cret (- 1, response\<lparr>resp_code := KEY_ERROR\<rparr>)
     else
       cbind (malloc_buf MSG_SIZE) (\<lambda>v.
       cseq (upd_item (Some e) (\<lambda>it. it\<lparr>item_value := Some v\<rparr>)) (
       cseq (write_buf (Some v) (\<lambda>b. memcpy b (req_msg request) (unat (req_msg_len request)))) (
       cseq (upd_item (Some e) (\<lambda>it. it\<lparr>item_value_size := req_msg_len request\<rparr>)) (
       cseq (rwlock_unlock me e)
         (cret (0, response\<lparr>resp_code := OK\<rparr>))))))))"

text \<open>
  \<open>memcpy(response->msg, item->value, item->value_size)\<close>. An item whose value has not been
  written yet has \<open>value == NULL\<close> and size 0, for which nothing is copied.
\<close>

definition copy_value :: "hash_item_t \<Rightarrow> byte list \<Rightarrow> (memory, byte list) cmd" where
  "copy_value it dst =
     (if item_value_size it = 0 then cret dst
      else (\<lambda>s. obind (read_buf (item_value it) s) (\<lambda>src.
                obind (memcpy dst src (unat (item_value_size it))) (\<lambda>msg. Return (msg, s)))))"

definition get_request :: "tid \<Rightarrow> request \<Rightarrow> response \<Rightarrow> (memory, response) cmd" where
  "get_request me pRequest response =
     cbind (search (req_key pRequest) (req_key_len pRequest)) (\<lambda>found.
     case found of
       None \<Rightarrow> cret (response\<lparr>resp_code := KEY_ERROR\<rparr>)
     | Some a \<Rightarrow>
         cbind (rwlock_tryrdlock me a) (\<lambda>r.
         if r \<noteq> 0 then cret (response\<lparr>resp_code := KEY_ERROR\<rparr>)
         else
           cbind (item a) (\<lambda>it.
           cbind (copy_value it (resp_msg response)) (\<lambda>msg.
           cseq (rwlock_unlock me a)
             (cret (response\<lparr>resp_code := OK, resp_msg := msg, resp_msg_len := item_value_size it\<rparr>))))))"

definition del_request :: "tid \<Rightarrow> request \<Rightarrow> response \<Rightarrow> (memory, response) cmd" where
  "del_request me pRequest response =
     cbind (remove_item me (req_key pRequest) (req_key_len pRequest)) (\<lambda>r.
     if r < 0 then cret (response\<lparr>resp_code := KEY_ERROR\<rparr>)
     else cret (response\<lparr>resp_code := OK\<rparr>))"

text \<open>
  The \<open>switch\<close> of \<open>main_job\<close>, on a response of zeroes. \<open>oks\<close> says which allocations of
  \<open>init_hashtable\<close> succeed; its result is ignored there.
\<close>

definition HT_CAPACITY :: size_t where "HT_CAPACITY = 1024"

definition serve_request ::
  "tid \<Rightarrow> bool \<times> bool \<times> bool \<Rightarrow> request \<Rightarrow> response \<Rightarrow> (memory, response) cmd" where
  "serve_request me oks request response =
     (case req_method request of
        SET \<Rightarrow> cbind (set_request me request response) (\<lambda>(r, response). cret response)
      | GET \<Rightarrow> get_request me request response
      | DEL \<Rightarrow> del_request me request response
      | RST \<Rightarrow> cbind (init_hashtable oks HT_CAPACITY) (\<lambda>r. cret (response\<lparr>resp_code := OK\<rparr>))
      | _ \<Rightarrow> cret response)"

section \<open>Requests that fit their buffers\<close>

text \<open>
  What the code relies on and does not check: the key field holds a terminated string and the two
  lengths do not exceed the buffers.
\<close>

definition request_fits :: "request \<Rightarrow> bool" where
  "request_fits r \<longleftrightarrow> request_wf r \<and> 0 \<in> set (req_key r)
     \<and> unat (req_key_len r) \<le> KEY_SIZE \<and> unat (req_msg_len r) \<le> MSG_SIZE"

abbreviation req_string :: "request \<Rightarrow> byte list" where
  "req_string r \<equiv> cstr_of (req_key r)"

abbreviation req_prefix :: "request \<Rightarrow> nat" where
  "req_prefix r \<equiv> unat (req_key_len r)"

definition req_value :: "request \<Rightarrow> byte list" where
  "req_value r = take (unat (req_msg_len r)) (req_msg r)"

lemma request_fits_cstr: "request_fits r \<Longrightarrow> cstr (req_string r) (req_key r)"
  by (simp add: request_fits_def cstr_cstr_of)

section \<open>Buckets as lists\<close>

definition key_match :: "nat \<Rightarrow> byte list \<Rightarrow> byte list \<times> byte list \<Rightarrow> bool" where
  "key_match n q kv \<longleftrightarrow> take n (fst kv) = take n q"

fun upd_first :: "('a \<Rightarrow> bool) \<Rightarrow> ('a \<Rightarrow> 'a) \<Rightarrow> 'a list \<Rightarrow> 'a list" where
  "upd_first P f [] = []"
| "upd_first P f (x # xs) = (if P x then f x # xs else x # upd_first P f xs)"

fun del_first :: "('a \<Rightarrow> bool) \<Rightarrow> 'a list \<Rightarrow> 'a list" where
  "del_first P [] = []"
| "del_first P (x # xs) = (if P x then xs else x # del_first P xs)"

definition bucket_get :: "nat \<Rightarrow> byte list \<Rightarrow> (byte list \<times> byte list) list \<Rightarrow> byte list option" where
  "bucket_get n q es = map_option snd (find (key_match n q) es)"

definition bucket_put ::
  "nat \<Rightarrow> byte list \<Rightarrow> byte list \<Rightarrow> (byte list \<times> byte list) list \<Rightarrow> (byte list \<times> byte list) list" where
  "bucket_put n q v es =
     (if list_ex (key_match n q) es then upd_first (key_match n q) (\<lambda>(k, _). (k, v)) es
      else (take n q, v) # es)"

definition bucket_del :: "nat \<Rightarrow> byte list \<Rightarrow> (byte list \<times> byte list) list \<Rightarrow> (byte list \<times> byte list) list" where
  "bucket_del n q es = del_first (key_match n q) es"

lemma upd_first_append:
  "\<forall>x \<in> set xs. \<not> P x \<Longrightarrow> P a \<Longrightarrow> upd_first P f (xs @ a # ys) = xs @ f a # ys"
  by (induction xs) auto

lemma del_first_append:
  "\<forall>x \<in> set xs. \<not> P x \<Longrightarrow> P a \<Longrightarrow> del_first P (xs @ a # ys) = xs @ ys"
  by (induction xs) auto

lemma del_first_none: "\<forall>x \<in> set xs. \<not> P x \<Longrightarrow> del_first P xs = xs"
  by (induction xs) auto

lemma filter_del_first: "filter P (del_first P xs) = tl (filter P xs)"
  by (induction xs) auto

lemma find_filter: "find P xs = (case filter P xs of [] \<Rightarrow> None | x # _ \<Rightarrow> Some x)"
  by (induction xs) auto

lemma find_upd_first:
  assumes "\<And>x. Q (f x) = Q x"
  shows "find Q (upd_first P f xs) =
    (case find Q xs of None \<Rightarrow> None | Some x \<Rightarrow> Some (if find P xs = Some x then f x else x))"
proof (induction xs)
  case (Cons y xs)
  have "Q x" if "find Q xs = Some x" for x using that by (induction xs) (auto split: if_splits)
  moreover have "P x" if "find P xs = Some x" for x using that by (induction xs) (auto split: if_splits)
  ultimately show ?case using Cons assms by (auto split: option.splits)
qed simp

lemma find_map: "find P (map f xs) = map_option f (find (P \<circ> f) xs)"
  by (induction xs) auto

lemma list_ex_find: "list_ex P xs \<longleftrightarrow> find P xs \<noteq> None"
  by (induction xs) auto

lemma matches_key_match: "matches s n q a = key_match n q (key_of s a, value_of s a)"
  by (simp add: matches_def key_match_def)

lemma find_entries:
  "find (key_match n q) (entries s bs b) =
     map_option (\<lambda>a. (key_of s a, value_of s a)) (find (matches s n q) (bs b))"
  by (simp add: entries_def find_map o_def matches_key_match [abs_def])

section \<open>What a table represents\<close>

definition quiet :: "memory \<Rightarrow> (nat \<Rightarrow> addr list) \<Rightarrow> bool" where
  "quiet s bs \<longleftrightarrow> (\<forall>b < unat (cap_of s). \<forall>a \<in> set (bs b). lock_of s a = Lock_free)"

definition represents :: "memory \<Rightarrow> u32 \<Rightarrow> (nat \<Rightarrow> (byte list \<times> byte list) list) \<Rightarrow> bool" where
  "represents s cap tab \<longleftrightarrow>
     (\<exists>bs. table_inv s bs \<and> quiet s bs \<and> cap_of s = cap \<and>
        (\<forall>b < unat cap. tab b = entries s bs b))"

section \<open>Writing a value\<close>

definition written :: "addr \<Rightarrow> byte list \<Rightarrow> size_t \<Rightarrow> memory \<Rightarrow> memory" where
  "written e msg n s =
     s\<lparr>cells := (cells s)(e := map_option (\<lambda>it. it\<lparr>item_value := Some (fresh s), item_value_size := n\<rparr>)
                                 (cells s e)),
       blocks := (blocks s)(fresh s \<mapsto>
         take (unat n) msg @ drop (unat n) (map (junk s (fresh s)) [0..<MSG_SIZE])),
       fresh := fresh s + 1\<rparr>"

lemma written_simps [simp]:
  "ht (written e msg n s) = ht s"
  "junk (written e msg n s) = junk s"
  "fresh (written e msg n s) = fresh s + 1"
  "blocks (written e msg n s) = (blocks s)(fresh s \<mapsto>
     take (unat n) msg @ drop (unat n) (map (junk s (fresh s)) [0..<MSG_SIZE]))"
  by (simp_all add: written_def)

lemma written_frame:
  "x \<noteq> e \<Longrightarrow> cells (written e msg n s) x = cells s x"
  "item_links (cells (written e msg n s)) x = item_links (cells s) x"
  "lock_of (written e msg n s) x = lock_of s x"
  by (cases "cells s x"; auto simp: written_def item_links_def lock_of_def)+

lemma written_item_other:
  assumes "x \<noteq> e" and "below_fresh s" and "item_ok s x"
  shows "key_of (written e msg n s) x = key_of s x"
    and "value_of (written e msg n s) x = value_of s x"
    and "bufs (written e msg n s) x = bufs s x" and "item_ok (written e msg n s) x"
proof -
  have same: "map_option item_content (cells (written e msg n s) x) = map_option item_content (cells s x)"
    using written_frame(1) [OF assms(1)] by simp
  have "blocks (written e msg n s) y = blocks s y" if "y \<in> bufs s x" for y
    using bufs_below [OF assms(2,3) that] by simp
  note cong = content_cong [OF same this]
  show "key_of (written e msg n s) x = key_of s x" by (rule cong(1))
  show "value_of (written e msg n s) x = value_of s x" by (rule cong(2))
  show "bufs (written e msg n s) x = bufs s x" by (rule cong(3))
  show "item_ok (written e msg n s) x" using cong(4) assms(3) by simp
qed

lemma written_item_same:
  assumes "below_fresh s" and "item_ok s e" and "unat n \<le> length msg" and "unat n \<le> MSG_SIZE"
  shows "key_of (written e msg n s) e = key_of s e"
    and "value_of (written e msg n s) e = take (unat n) msg"
    and "bufs (written e msg n s) e \<subseteq> insert (fresh s) (bufs s e)"
    and "item_ok (written e msg n s) e"
proof -
  obtain it k kb where it: "cells s e = Some it" "item_key it = Some k" "blocks s k = Some kb"
    "0 \<in> set kb" using assms(2) by (auto simp: item_ok_def key_ok_def)
  have "k < fresh s" using bufs_below [OF assms(1,2), of k] it by (simp add: bufs_def bufs_of_def)
  moreover have "min (unat n) (length msg) = unat n" using assms(3) by simp
  moreover have "min (length msg) (unat n) = unat n" using assms(3) by simp
  moreover have "unat n + (MSG_SIZE - unat n) = MSG_SIZE" using assms(4) by simp
  moreover have c: "cells (written e msg n s) e =
      Some (it\<lparr>item_value := Some (fresh s), item_value_size := n\<rparr>)"
    using it by (simp add: written_def)
  ultimately show "key_of (written e msg n s) e = key_of s e"
    and "value_of (written e msg n s) e = take (unat n) msg"
    and "bufs (written e msg n s) e \<subseteq> insert (fresh s) (bufs s e)"
    and "item_ok (written e msg n s) e"
    using it assms(4) by (auto simp: content_defs)
qed

lemma written_table_ok:
  assumes ok: "table_ok s t bs" and e: "e \<in> nodes (length (ht_items t)) bs"
    and n: "unat n \<le> length msg" "unat n \<le> MSG_SIZE"
  shows "table_ok (written e msg n s) t bs"
proof -
  let ?s = "written e msg n s" and ?N = "nodes (length (ht_items t)) bs"
  have good: "item_ok s x" if "x \<in> ?N" for x
    using ok that by (auto simp: table_ok_def)
  have bf: "below_fresh s" using ok by (simp add: table_ok_def)
  have lt: "y < fresh s" if "x \<in> ?N" "y \<in> bufs s x" for x y
    using bufs_below [OF bf good [OF that(1)] that(2)] .
  have other: "bufs ?s x = bufs s x" if "x \<in> ?N" "x \<noteq> e" for x
    using written_item_other(3) [OF that(2) bf good [OF that(1)]] .
  have sub: "bufs ?s e \<subseteq> insert (fresh s) (bufs s e)"
    using written_item_same(3) [OF bf good [OF e] n] .
  have "bufs ?s x \<inter> bufs ?s y = {}" if xy: "x \<in> ?N" "y \<in> ?N" "x \<noteq> y" for x y
  proof -
    have d: "bufs s x \<inter> bufs s y = {}" by (rule table_ok_apart(2) [OF ok xy])
    consider "x = e" "y \<noteq> e" | "y = e" "x \<noteq> e" | "x \<noteq> e" "y \<noteq> e" using xy(3) by blast
    then show ?thesis
    proof cases
      case 1
      then show ?thesis using other [OF xy(2)] sub d lt [OF xy(2)] by fastforce
    next
      case 2
      then show ?thesis using other [OF xy(1)] sub d lt [OF xy(1)] by fastforce
    next
      case 3
      then show ?thesis using other xy d by simp
    qed
  qed
  moreover have "item_ok ?s x" if "x \<in> ?N" for x
    using written_item_other(4) [OF _ bf good [OF that]] written_item_same(4) [OF bf good [OF e] n]
    by (cases "x = e") auto
  moreover have "chain (cells ?s) p prv as = chain (cells s) p prv as" for p prv as
    by (rule chain_cong) (simp add: written_frame)
  moreover have "below_fresh ?s"
    using bf by (auto simp: below_fresh_def written_def)
  ultimately show ?thesis
    using ok by (simp add: table_ok_def chains_ok_def disjoint_ok_def)
qed

lemma written_entries:
  assumes ok: "table_ok s t bs" and c: "c < length (ht_items t)" and e: "item_ok s e"
    and n: "unat n \<le> length msg" "unat n \<le> MSG_SIZE"
  shows "entries (written e msg n s) bs c =
    map (\<lambda>x. (key_of s x, if x = e then take (unat n) msg else value_of s x)) (bs c)"
proof -
  have bf: "below_fresh s" using ok by (simp add: table_ok_def)
  show ?thesis
    using written_item_same(1,2) [OF bf e n] written_item_other(1,2) [OF _ bf]
      table_ok_bucket(3) [OF ok c]
    by (auto simp: entries_def)
qed

section \<open>\<open>set_request\<close>\<close>

lemma item_unlock_same [simp]:
  "item_rwlock it = l \<Longrightarrow> it\<lparr>item_rwlock := l\<rparr> = it"
  by (cases it) simp

lemma cells_upd_same: "cells s a = Some it \<Longrightarrow> s\<lparr>cells := (cells s)(a \<mapsto> it)\<rparr> = s"
  by (cases s) (simp add: fun_upd_idem)

lemma set_request_written:
  assumes "get_key_entry (req_key r) (req_key_len r) s = Return (e, s1)"
    and "cells s1 e = Some it" and "item_rwlock it = Lock_free"
    and "unat (req_msg_len r) \<le> length (req_msg r)" and "unat (req_msg_len r) \<le> MSG_SIZE"
  shows "set_request me r resp s =
    Return ((0, resp\<lparr>resp_code := OK\<rparr>), written e (req_msg r) (req_msg_len r) s1)"
proof -
  have "it\<lparr>item_rwlock := Lock_free, item_value := v, item_value_size := n\<rparr>
      = it\<lparr>item_value := v, item_value_size := n\<rparr>" for v n
    using assms(3) by (cases it) simp
  with assms show ?thesis
    by (simp add: set_request_def cmd_run memcpy_def written_def)
qed

lemma set_request_busy:
  assumes "get_key_entry (req_key r) (req_key_len r) s = Return (e, s1)"
    and "cells s1 e = Some it" and "item_rwlock it \<noteq> Lock_free"
  shows "set_request me r resp s = Return ((- 1, resp\<lparr>resp_code := KEY_ERROR\<rparr>), s1)"
  using assms rw_trywrlock_busy [OF assms(3)] cells_upd_same [OF assms(2)]
  by (simp add: set_request_def cmd_run EBUSY_def)

text \<open>The new item of \<open>get_key_entry\<close>: the invariant, the contents and the locks.\<close>

lemma table_inv_intro:
  "ht s = Ht_live t \<Longrightarrow> table_ok s t bs \<Longrightarrow> \<forall>b < unat (ht_capacity t). \<not> ht_locks t ! b \<Longrightarrow>
     table_inv s bs"
  by (auto simp: table_inv_def table_ok_def shape_ok_def)

lemma cap_of_live [simp]: "ht s = Ht_live t \<Longrightarrow> cap_of s = ht_capacity t"
  by (simp add: cap_of_def)

lemma lock_of_upd_ht [simp]: "lock_of (s\<lparr>ht := p\<rparr>) a = lock_of s a"
  by (simp add: lock_of_def)

lemma lock_of_cong:
  "map_option item_rwlock (cells s' a) = map_option item_rwlock (cells s a) \<Longrightarrow> lock_of s' a = lock_of s a"
  by (cases "cells s a"; cases "cells s' a") (auto simp: lock_of_def)

lemma inserted_quiet:
  assumes q: "quiet s bs" and t: "ht s = Ht_live t" "table_ok s t bs" and b: "b < length (ht_items t)"
  shows "quiet (inserted b t key n s) (bs(b := fresh s # bs b))"
proof -
  let ?s = "inserted b t key n s"
  have cap: "unat (ht_capacity t) = length (ht_items t)" using t(2) by (simp add: table_ok_def shape_ok_def)
  have head: "h < fresh s" if "ht_items t ! b = Some h" for h
    using head_of_chain [OF table_ok_bucket(1) [OF t(2) b] that] table_ok_bucket(4) [OF t(2) b] by blast
  have "lock_of ?s a = Lock_free" if "c < length (ht_items t)" "a \<in> set (bs c)" for a c
  proof -
    have "a \<noteq> fresh s" using table_ok_bucket(4) [OF t(2) that] by simp
    from lock_of_cong [OF inserted_frame(2) [OF this]] show ?thesis
      using q that cap t(1) by (simp add: quiet_def)
  qed
  moreover have "lock_of ?s (fresh s) = Lock_free" using inserted_new_item(5) [OF head] by simp
  ultimately show ?thesis using cap b by (auto simp: quiet_def)
qed

text \<open>
  \<open>opened s t bs cap tab\<close>: a store with its table and node lists in hand. It is what
  \<open>represents\<close> hides behind its quantifier.
\<close>

definition opened ::
  "memory \<Rightarrow> hashtable_t \<Rightarrow> (nat \<Rightarrow> addr list) \<Rightarrow> u32 \<Rightarrow> (nat \<Rightarrow> (byte list \<times> byte list) list) \<Rightarrow> bool" where
  "opened s t bs cap tab \<longleftrightarrow>
     ht s = Ht_live t \<and> ht_capacity t = cap \<and> table_ok s t bs \<and> quiet s bs
     \<and> (\<forall>b < unat cap. \<not> ht_locks t ! b) \<and> (\<forall>b < unat cap. tab b = entries s bs b)"

lemma represents_opened: "represents s cap tab \<longleftrightarrow> (\<exists>t bs. opened s t bs cap tab)"
proof
  assume "represents s cap tab"
  then obtain bs where "table_inv s bs" "quiet s bs" "cap_of s = cap"
    "\<forall>b < unat cap. tab b = entries s bs b" by (auto simp: represents_def)
  then show "\<exists>t bs. opened s t bs cap tab"
    by (auto simp: opened_def table_inv_def table_ok_def shape_ok_def)
next
  assume "\<exists>t bs. opened s t bs cap tab"
  then show "represents s cap tab"
    unfolding opened_def represents_def by (metis cap_of_live table_inv_intro)
qed

lemma opened_index:
  assumes "opened s t bs cap tab"
  shows "bucket_of cap q < length (ht_items t)" and "bucket_of cap q < unat cap"
    and "\<not> ht_locks t ! bucket_of cap q"
  using assms table_ok_index [of s t bs q] by (auto simp: opened_def table_ok_def shape_ok_def)

lemma opened_length: "opened s t bs cap tab \<Longrightarrow> length (ht_items t) = unat cap"
  by (auto simp: opened_def table_ok_def shape_ok_def)

lemma opened_lock:
  assumes "opened s t bs cap tab" and "a \<in> set (bs (bucket_of cap q))"
  shows "\<exists>it. cells s a = Some it \<and> item_rwlock it = Lock_free \<and> item_ok s a"
proof -
  note b = opened_index(1,2) [OF assms(1), of q] opened_length [OF assms(1)] opened_index(3) [OF assms(1), of q]
  have t: "ht s = Ht_live t" "ht_capacity t = cap" "table_ok s t bs" "quiet s bs"
    using assms(1) by (simp_all add: opened_def)
  have "item_ok s a" using table_ok_bucket(3) [OF t(3) b(1) assms(2)] .
  moreover from this obtain it where "cells s a = Some it" by (auto simp: item_ok_def)
  moreover have "lock_of s a = Lock_free"
    using t(1,2,4) b(2) assms(2) unfolding quiet_def by simp
  ultimately show ?thesis by (auto simp: lock_of_def)
qed

text \<open>A value written to an item already in the table.\<close>

lemma written_opened:
  assumes op: "opened s t bs cap tab"
    and split: "bs (bucket_of cap q) = xs @ e # ys"
    and e: "matches s n q e" and xs: "\<forall>x \<in> set xs. \<not> matches s n q x"
    and len: "unat l \<le> length m" "unat l \<le> MSG_SIZE"
  shows "opened (written e m l s) t bs cap
    (tab(bucket_of cap q := bucket_put n q (take (unat l) m) (tab (bucket_of cap q))))"
proof -
  let ?b = "bucket_of cap q" and ?v = "take (unat l) m"
  note b = opened_index(1,2) [OF op, of q] opened_length [OF op] opened_index(3) [OF op, of q]
  have t: "ht s = Ht_live t" "ht_capacity t = cap" "table_ok s t bs" "quiet s bs"
    and tab: "\<And>c. c < unat cap \<Longrightarrow> tab c = entries s bs c" using op by (simp_all add: opened_def)
  have eb: "e \<in> set (bs ?b)" using split by simp
  note eok = table_ok_bucket(3) [OF t(3) b(1) eb]
  have dist: "distinct (xs @ e # ys)" using table_ok_bucket(2) [OF t(3) b(1)] split by simp
  have "entries (written e m l s) bs c = (tab(?b := bucket_put n q ?v (tab ?b))) c"
    if c: "c < unat cap" for c
  proof (cases "c = ?b")
    case True
    have "entries (written e m l s) bs ?b =
        map (\<lambda>x. (key_of s x, if x = e then ?v else value_of s x)) (xs @ e # ys)"
      using written_entries [OF t(3) b(1) eok len] split by simp
    also have "\<dots> = upd_first (key_match n q) (\<lambda>(k, _). (k, ?v)) (entries s bs ?b)"
      using dist xs e by (auto simp: entries_def split upd_first_append matches_key_match)
    also have "\<dots> = bucket_put n q ?v (entries s bs ?b)"
      using e by (simp add: bucket_put_def entries_def split matches_key_match)
    finally show ?thesis using True tab [OF b(2)] by simp
  next
    case False
    have "e \<notin> set (bs c)"
      using table_ok_apart(1) [OF t(3) b(1) _ False [symmetric]] c b(3) eb by auto
    then have "entries (written e m l s) bs c = entries s bs c"
      using written_entries [OF t(3) _ eok len, of c] c b(3) by (auto simp: entries_def)
    then show ?thesis using False tab [OF c] by simp
  qed
  moreover have "quiet (written e m l s) bs"
    using t by (simp add: quiet_def written_frame cap_of_def)
  ultimately show ?thesis
    using op written_table_ok [OF t(3) _ len] nodes_bucket [of "bucket_of cap q" _ e bs] b(1) eb
    by (simp add: opened_def)
qed

text \<open>A new item at the head of a bucket, with no value yet.\<close>

lemma inserted_opened:
  assumes op: "opened s t bs cap tab" and q: "cstr q key"
  defines "b \<equiv> bucket_of cap q"
  shows "opened (inserted b t key n s) (t\<lparr>ht_items := (ht_items t)[b := Some (fresh s)]\<rparr>)
    (bs(b := fresh s # bs b)) cap (tab(b := (take n q, []) # tab b))"
proof -
  have b: "b < length (ht_items t)" "b < unat cap" "length (ht_items t) = unat cap"
    using opened_index [OF op] opened_length [OF op] by (simp_all add: b_def)
  have t: "ht s = Ht_live t" "ht_capacity t = cap" "table_ok s t bs" "quiet s bs"
    and tab: "\<And>c. c < unat cap \<Longrightarrow> tab c = entries s bs c" using op by (simp_all add: opened_def)
  have "entries (inserted b t key n s) (bs(b := fresh s # bs b)) c = (tab(b := (take n q, []) # tab b)) c"
    if "c < unat cap" for c
    using inserted_entries [OF t(3) b(1), of c key n] that b tab stored_key_cstr [OF q, of n]
    by (simp add: stored_key_def)
  then show ?thesis
    using op inserted_table_ok [OF t(3) b(1)] inserted_quiet [OF t(4,1,3) b(1)]
    by (simp add: opened_def)
qed

lemma fits_lengths:
  assumes "request_fits r"
  shows "length (req_key r) = KEY_SIZE" and "req_prefix r \<le> KEY_SIZE"
    and "unat (req_msg_len r) \<le> length (req_msg r)" and "unat (req_msg_len r) \<le> MSG_SIZE"
  using assms by (auto simp: request_fits_def request_wf_def)

text \<open>
  The main lemma on SET: with no lock held, it returns 0 and \<open>OK\<close>, keeps the invariant and acts as
  \<open>bucket_put\<close> on the bucket of its key.
\<close>

lemma set_request_represents:
  assumes rep: "represents s cap tab" and fits: "request_fits r"
  shows "\<exists>s'. set_request me r resp s = Return ((0, resp\<lparr>resp_code := OK\<rparr>), s') \<and>
    represents s' cap (tab(bucket_of cap (req_string r) :=
      bucket_put (req_prefix r) (req_string r) (req_value r) (tab (bucket_of cap (req_string r)))))"
    (is "\<exists>s'. _ \<and> represents s' cap ?tab'")
proof -
  let ?q = "req_string r" and ?n = "req_prefix r" and ?m = "req_msg r" and ?l = "req_msg_len r"
  let ?b = "bucket_of cap ?q"
  from rep obtain t bs where op: "opened s t bs cap tab" by (auto simp: represents_opened)
  note b = opened_index(1,2) [OF op, of ?q] opened_length [OF op] opened_index(3) [OF op, of ?q] and q = request_fits_cstr [OF fits]
  note len = fits_lengths [OF fits]
  have t: "ht s = Ht_live t" "ht_capacity t = cap" "table_ok s t bs" "tab ?b = entries s bs ?b"
    using op b(2) by (simp_all add: opened_def)
  show ?thesis
  proof (cases "find (matches s ?n ?q) (bs ?b)")
    case (Some e)
    from find_split [OF Some] obtain xs ys where split: "bs ?b = xs @ e # ys"
      "matches s ?n ?q e" "\<forall>x \<in> set xs. \<not> matches s ?n ?q x" by blast
    obtain it where it: "cells s e = Some it" "item_rwlock it = Lock_free"
      using opened_lock [OF op, of e ?q] split(1) by auto
    have "get_key_entry (req_key r) (req_key_len r) s = Return (e, s)"
      using get_key_entry_found [OF t(1,3) _ q] Some b(4) t(2) by simp
    from set_request_written [OF this it len(3,4), of me resp]
      written_opened [OF op split len(3,4)]
    show ?thesis unfolding represents_opened req_value_def by blast
  next
    case None
    let ?s1 = "inserted ?b t (req_key r) ?n s" and ?bs = "bs(?b := fresh s # bs ?b)"
    have head: "h < fresh s" if "ht_items t ! ?b = Some h" for h
      using head_of_chain [OF table_ok_bucket(1) [OF t(3) b(1)] that] table_ok_bucket(4) [OF t(3) b(1)] by blast
    note op1 = inserted_opened [OF op q, of ?n]
    have "get_key_entry (req_key r) (req_key_len r) s = Return (fresh s, ?s1)"
      using get_key_entry_new [OF t(1,3) _ q len(1,2)] None b(4) t(2) by simp
    from set_request_written [OF this inserted_cells_new _ len(3,4), of me resp] head
    have run: "set_request me r resp s =
        Return ((0, resp\<lparr>resp_code := OK\<rparr>), written (fresh s) ?m ?l ?s1)"
      by (simp add: zero_item_def)
    have "matches ?s1 ?n ?q (fresh s)"
      using inserted_new_item(2) [of t ?b s, OF head] stored_key_cstr [OF q, of ?n]
      by (simp add: matches_def stored_key_def)
    from written_opened [OF op1, of ?q "[]" "fresh s" "bs ?b", OF _ this _ len(3,4)]
    have "opened (written (fresh s) ?m ?l ?s1) (t\<lparr>ht_items := (ht_items t)[?b := Some (fresh s)]\<rparr>)
        ?bs cap (tab(?b := bucket_put ?n ?q (req_value r) ((take ?n ?q, []) # tab ?b)))"
      by (simp add: req_value_def)
    moreover have "bucket_put ?n ?q v ((take ?n ?q, []) # tab ?b) = bucket_put ?n ?q v (tab ?b)" for v
      using None t(4) by (simp add: bucket_put_def key_match_def list_ex_find find_entries)
    ultimately show ?thesis using run unfolding represents_opened by auto
  qed
qed

section \<open>\<open>get_request\<close>\<close>

definition got_response :: "byte list \<Rightarrow> response \<Rightarrow> response" where
  "got_response v resp =
     resp\<lparr>resp_code := OK, resp_msg := v @ drop (length v) (resp_msg resp),
          resp_msg_len := of_nat (length v)\<rparr>"

lemma copy_value_run [cmd_run]:
  assumes "cells s a = Some it" and "item_ok s a" and "length dst = MSG_SIZE"
  shows "copy_value it dst s = Return (value_of s a @ drop (length (value_of s a)) dst, s)"
    and "item_value_size it = of_nat (length (value_of s a))"
proof -
  have v: "value_ok s it" and val: "value_of s a = take (unat (item_value_size it)) (buf_at s (item_value it))"
    using assms(1,2) by (auto simp: item_ok_def value_of_def)
  have "copy_value it dst s = Return (value_of s a @ drop (length (value_of s a)) dst, s)
    \<and> item_value_size it = of_nat (length (value_of s a))"
  proof (cases "item_value it")
    case None
    then show ?thesis using v val by (simp add: value_ok_def copy_value_def cmd_run)
  next
    case (Some x)
    with v obtain vb where vb: "blocks s x = Some vb" "length vb = MSG_SIZE"
      "unat (item_value_size it) \<le> MSG_SIZE" by (auto simp: value_ok_def)
    then have "length (value_of s a) = unat (item_value_size it)"
      using val Some by (simp add: buf_at_def)
    then show ?thesis
      using Some vb val assms(3) by (simp add: copy_value_def cmd_run memcpy_def buf_at_def)
  qed
  then show "copy_value it dst s = Return (value_of s a @ drop (length (value_of s a)) dst, s)"
    and "item_value_size it = of_nat (length (value_of s a))" by blast+
qed

lemma get_request_bucket:
  assumes rep: "represents s cap tab" and terminated: "0 \<in> set (req_key r)" and wf: "response_wf resp"
  shows "get_request me r resp s =
    Return (case bucket_get (req_prefix r) (req_string r) (tab (bucket_of cap (req_string r))) of
              None \<Rightarrow> resp\<lparr>resp_code := KEY_ERROR\<rparr>
            | Some v \<Rightarrow> got_response v resp, s)"
proof -
  let ?q = "req_string r" and ?n = "req_prefix r" and ?b = "bucket_of cap (req_string r)"
  from rep obtain t bs where op: "opened s t bs cap tab" by (auto simp: represents_opened)
  note b = opened_index(1,2) [OF op, of ?q] and q = cstr_cstr_of [OF terminated]
  have t: "ht s = Ht_live t" "ht_capacity t = cap" "table_ok s t bs" "tab ?b = entries s bs ?b"
    using op b(2) by (simp_all add: opened_def)
  have srch: "search (req_key r) (req_key_len r) s = Return (find (matches s ?n ?q) (bs ?b), s)"
    using search_run [OF t(1,3) q] t(2) by simp
  show ?thesis
  proof (cases "find (matches s ?n ?q) (bs ?b)")
    case None
    then show ?thesis using srch t(4)
      by (simp add: get_request_def cmd_run bucket_get_def find_entries)
  next
    case (Some a)
    then have "a \<in> set (bs ?b)" using find_split by fastforce
    with opened_lock [OF op] obtain it where it: "cells s a = Some it" "item_rwlock it = Lock_free"
      "item_ok s a" by blast
    let ?s1 = "s\<lparr>cells := (cells s)(a \<mapsto> it\<lparr>item_rwlock := Read_held [me]\<rparr>)\<rparr>"
    let ?it1 = "it\<lparr>item_rwlock := Read_held [me]\<rparr>"
    have same: "map_option item_content (cells ?s1 a) = map_option item_content (cells s a)"
      using it(1) by (simp add: item_content_def)
    have "blocks ?s1 x = blocks s x" for x by simp
    note cong = content_cong [OF same this]
    have len: "length (resp_msg resp) = MSG_SIZE" using wf by (simp add: response_wf_def)
    have ok1: "item_ok ?s1 a" using cong(4) it(3) by simp
    have c1: "cells ?s1 a = Some ?it1" by simp
    have cv: "copy_value ?it1 (resp_msg resp) ?s1 =
        Return (value_of s a @ drop (length (value_of s a)) (resp_msg resp), ?s1)"
      "item_value_size ?it1 = of_nat (length (value_of s a))"
      using copy_value_run [OF c1 ok1 len] cong(2) by simp_all
    have rel: "rwlock_unlock me a ?s1 = Return ((), s)"
      using it by (simp add: cmd_run cells_upd_same)
    show ?thesis
      using srch Some it cv rel t(4)
      by (simp add: get_request_def cmd_run bucket_get_def find_entries got_response_def)
  qed
qed

lemma get_request_represents:
  assumes rep: "represents s cap tab" and fits: "request_fits r" and wf: "response_wf resp"
  shows "get_request me r resp s =
    Return (case bucket_get (req_prefix r) (req_string r) (tab (bucket_of cap (req_string r))) of
              None \<Rightarrow> resp\<lparr>resp_code := KEY_ERROR\<rparr>
            | Some v \<Rightarrow> got_response v resp, s)"
  using fits by (intro get_request_bucket [OF rep _ wf]) (simp add: request_fits_def)

section \<open>\<open>del_request\<close>\<close>

lemma removed_opened:
  assumes op: "opened s t bs cap tab" and split: "bs (bucket_of cap q) = xs @ a # ys"
    and a: "matches s n q a" and xs: "\<forall>x \<in> set xs. \<not> matches s n q x" and it: "cells s a = Some it"
  shows "opened (removed (bucket_of cap q) t it a s)
    (if ht_items t ! bucket_of cap q = Some a
     then t\<lparr>ht_items := (ht_items t)[bucket_of cap q := item_next it]\<rparr> else t)
    (bs(bucket_of cap q := xs @ ys)) cap
    (tab(bucket_of cap q := bucket_del n q (tab (bucket_of cap q))))"
proof -
  let ?b = "bucket_of cap q"
  let ?s = "removed ?b t it a s"
  note b = opened_index(1,2) [OF op, of q] opened_length [OF op]
  have t: "ht s = Ht_live t" "ht_capacity t = cap" "table_ok s t bs" "quiet s bs"
    and tab: "\<And>c. c < unat cap \<Longrightarrow> tab c = entries s bs c" using op by (simp_all add: opened_def)
  have r: "removal s t bs ?b xs a ys it" using t(3) b(1) split it by (simp add: removal_def)
  have "entries ?s (bs(?b := xs @ ys)) c = (tab(?b := bucket_del n q (tab ?b))) c" if "c < unat cap" for c
  proof -
    have "bucket_del n q (entries s bs ?b) = map (\<lambda>x. (key_of s x, value_of s x)) (xs @ ys)"
      using a xs by (simp add: bucket_del_def entries_def split del_first_append matches_key_match)
    then show ?thesis using removed_entries [OF r, of c] that b tab by simp
  qed
  moreover have "lock_of ?s x = Lock_free"
    if "c < unat cap" "x \<in> set ((bs(?b := xs @ ys)) c)" for c x
  proof -
    have "x \<in> nodes (length (ht_items t)) (bs(?b := xs @ ys))"
      using that b(3) by (intro nodes_bucket [of c]) simp_all
    then have "x \<in> nodes (length (ht_items t)) bs - {a}"
      by (simp only: removal_nodes [OF r])
    then obtain d where d: "d < unat cap" "x \<in> set (bs d)" "x \<noteq> a" using b(3) by (auto simp: nodes_def)
    have "lock_of s x = Lock_free" using t(1,2,4) d(1,2) unfolding quiet_def by simp
    moreover have "lock_of ?s x = lock_of s x"
      by (rule lock_of_cong) (simp add: unlink_content(2) [OF d(3)])
    ultimately show ?thesis by simp
  qed
  ultimately show ?thesis
    using op removed_table_ok [OF r] by (auto simp: opened_def quiet_def cap_of_def)
qed

lemma del_request_bucket:
  assumes rep: "represents s cap tab" and terminated: "0 \<in> set (req_key r)"
  shows "\<exists>s'. del_request me r resp s =
      Return (resp\<lparr>resp_code :=
        (if bucket_get (req_prefix r) (req_string r) (tab (bucket_of cap (req_string r))) = None
         then KEY_ERROR else OK)\<rparr>, s') \<and>
    represents s' cap (tab(bucket_of cap (req_string r) :=
      bucket_del (req_prefix r) (req_string r) (tab (bucket_of cap (req_string r)))))"
proof -
  let ?q = "req_string r" and ?n = "req_prefix r" and ?b = "bucket_of cap (req_string r)"
  from rep obtain t bs where op: "opened s t bs cap tab" by (auto simp: represents_opened)
  note b = opened_index(1,2) [OF op, of ?q] opened_length [OF op] opened_index(3) [OF op, of ?q]
    and q = cstr_cstr_of [OF terminated]
  have t: "ht s = Ht_live t" "ht_capacity t = cap" "table_ok s t bs" "tab ?b = entries s bs ?b"
    using op b(2) by (simp_all add: opened_def)
  show ?thesis
  proof (cases "find (matches s ?n ?q) (bs ?b)")
    case None
    have none: "bucket_del ?n ?q (tab ?b) = tab ?b"
    proof -
      have "\<forall>e \<in> set (tab ?b). \<not> key_match ?n ?q e"
        using None t(4) by (auto simp: find_None_iff entries_def matches_key_match)
      then show ?thesis unfolding bucket_del_def by (rule del_first_none)
    qed
    have "remove_item me (req_key r) (req_key_len r) s = Return (- 1, s)"
      using remove_item_none [OF t(1,3) _ q] None b(4) t(2) by simp
    moreover have "tab(?b := bucket_del ?n ?q (tab ?b)) = tab" by (simp only: none fun_upd_triv)
    moreover have "bucket_get ?n ?q (tab ?b) = None"
      using None t(4) by (simp add: bucket_get_def find_entries)
    ultimately show ?thesis using rep by (simp add: del_request_def cmd_run)
  next
    case (Some a)
    from find_split [OF Some] obtain xs ys where split: "bs ?b = xs @ a # ys"
      "matches s ?n ?q a" "\<forall>x \<in> set xs. \<not> matches s ?n ?q x" by blast
    obtain it where it: "cells s a = Some it" "item_rwlock it = Lock_free"
      using opened_lock [OF op, of a ?q] split(1) by auto
    have "remove_item me (req_key r) (req_key_len r) s = Return (0, removed ?b t it a s)"
      using remove_item_found [OF t(1,3) _ q _ it] Some b(4) t(2) by simp
    moreover have "bucket_get ?n ?q (tab ?b) \<noteq> None"
      using Some t(4) by (simp add: bucket_get_def find_entries)
    ultimately show ?thesis
      using removed_opened [OF op split it(1)] unfolding represents_opened
      by (auto simp: del_request_def cmd_run)
  qed
qed

lemma del_request_represents:
  assumes rep: "represents s cap tab" and fits: "request_fits r"
  shows "\<exists>s'. del_request me r resp s =
      Return (resp\<lparr>resp_code :=
        (if bucket_get (req_prefix r) (req_string r) (tab (bucket_of cap (req_string r))) = None
         then KEY_ERROR else OK)\<rparr>, s') \<and>
    represents s' cap (tab(bucket_of cap (req_string r) :=
      bucket_del (req_prefix r) (req_string r) (tab (bucket_of cap (req_string r)))))"
  using fits by (intro del_request_bucket [OF rep]) (simp add: request_fits_def)

end
