(* ===== verification/KV_Refinement.thy ===== *)
theory KV_Refinement
  imports KV_Store
begin

text \<open>
  The contract of the store: seen from its requests it is a finite map from keys to values. The
  locale \<open>dictionary\<close> states the contract (put, get and delete act on the map), its lemmas are what
  a client may rely on, and it is interpreted on \<open>set_request\<close>, \<open>get_request\<close> and
  \<open>del_request\<close>. \<open>serve_request\<close> is the \<open>switch\<close> of \<open>main_job\<close>; the locale \<open>simulation\<close> is
  interpreted on it, so that every sequence of requests is answered as the map answers it.

  The contract has one condition, \<open>apart\<close>: no other key stored in the same bucket extends the key
  of the request. \<open>search\<close> compares with \<open>strncmp\<close> and the length of the requested key, so a
  stored key that merely starts with it is taken for it. The last section shows that the condition
  is needed and that the keys of the benchmark break it.
\<close>

section \<open>Buckets and maps\<close>

abbreviation table_size :: u32 where "table_size \<equiv> ucast HT_CAPACITY"

text \<open>\<open>key_bucket k\<close>: the bucket of \<open>k\<close> in the server's table.\<close>

definition key_bucket :: "byte list \<Rightarrow> nat" where
  "key_bucket k = bucket_of table_size k"

text \<open>No other key of bucket \<open>es\<close> extends \<open>q\<close>.\<close>

definition no_extension :: "byte list \<Rightarrow> (byte list \<times> byte list) list \<Rightarrow> bool" where
  "no_extension q es \<longleftrightarrow> (\<forall>kv \<in> set es. take (length q) (fst kv) = q \<longrightarrow> fst kv = q)"

lemma key_match_exact:
  "no_extension q es \<Longrightarrow> kv \<in> set es \<Longrightarrow> key_match (length q) q kv \<longleftrightarrow> fst kv = q"
  by (auto simp: no_extension_def key_match_def)

lemma find_key_map_of:
  "no_extension q es \<Longrightarrow> map_option snd (find (key_match (length q) q) es) = map_of es q"
proof (induction es)
  case (Cons kv es)
  from Cons.prems have "no_extension q es" by (simp add: no_extension_def)
  with Cons key_match_exact [OF Cons.prems, of kv] show ?case by (cases kv) auto
qed simp

lemma bucket_get_map_of: "no_extension q es \<Longrightarrow> bucket_get (length q) q es = map_of es q"
  by (simp add: bucket_get_def find_key_map_of)

lemma upd_first_map_of:
  "no_extension q es \<Longrightarrow> list_ex (key_match (length q) q) es \<Longrightarrow>
     map_of (upd_first (key_match (length q) q) (\<lambda>(k, _). (k, v)) es) = (map_of es)(q \<mapsto> v)"
proof (induction es)
  case (Cons kv es)
  from Cons.prems(1) have "no_extension q es" by (simp add: no_extension_def)
  with Cons key_match_exact [OF Cons.prems(1), of kv] show ?case
    by (cases kv) (auto simp: fun_upd_twist)
qed simp

lemma bucket_put_map_of:
  "no_extension q es \<Longrightarrow> map_of (bucket_put (length q) q v es) = (map_of es)(q \<mapsto> v)"
  by (simp add: bucket_put_def upd_first_map_of)

lemma map_fst_upd_first:
  "map fst (upd_first P (\<lambda>(k, _). (k, v)) es) = map fst es"
  by (induction es) auto

lemma bucket_put_keys:
  "no_extension q es \<Longrightarrow> distinct (map fst es) \<Longrightarrow> distinct (map fst (bucket_put (length q) q v es))"
  "fst ` set (bucket_put (length q) q v es) \<subseteq> insert q (fst ` set es)"
proof -
  have "fst ` set (upd_first P (\<lambda>(k, _). (k, v)) es) = fst ` set es" for P
    by (metis map_fst_upd_first set_map)
  then show "fst ` set (bucket_put (length q) q v es) \<subseteq> insert q (fst ` set es)"
    by (auto simp: bucket_put_def)
  assume "no_extension q es" "distinct (map fst es)"
  then show "distinct (map fst (bucket_put (length q) q v es))"
    using key_match_exact [of q es]
    by (auto simp: bucket_put_def map_fst_upd_first list_ex_iff)
qed

lemma set_del_first: "set (del_first P es) \<subseteq> set es"
  by (induction es) auto

lemma bucket_del_keys:
  "distinct (map fst es) \<Longrightarrow> distinct (map fst (bucket_del n q es))"
  "fst ` set (bucket_del n q es) \<subseteq> fst ` set es"
proof -
  show "fst ` set (bucket_del n q es) \<subseteq> fst ` set es"
    unfolding bucket_del_def by (intro image_mono set_del_first)
  show "distinct (map fst es) \<Longrightarrow> distinct (map fst (bucket_del n q es))"
  proof (induction es)
    case (Cons kv es)
    have "fst ` set (bucket_del n q es) \<subseteq> fst ` set es"
      unfolding bucket_del_def by (intro image_mono set_del_first)
    with Cons show ?case by (auto simp: bucket_del_def)
  qed (simp add: bucket_del_def)
qed

lemma bucket_del_map_of:
  "no_extension q es \<Longrightarrow> distinct (map fst es) \<Longrightarrow>
     map_of (bucket_del (length q) q es) = (map_of es)(q := None)"
  unfolding bucket_del_def
proof (induction es)
  case (Cons kv es)
  from Cons.prems(1) have "no_extension q es" by (simp add: no_extension_def)
  with Cons key_match_exact [OF Cons.prems(1), of kv] show ?case
    by (cases kv) (auto simp: fun_upd_twist map_of_eq_None_iff fun_upd_idem)
qed simp

text \<open>The buckets \<open>tab\<close> of a table are the map \<open>m\<close>.\<close>

definition tab_map :: "(nat \<Rightarrow> (byte list \<times> byte list) list) \<Rightarrow> (byte list \<rightharpoonup> byte list) \<Rightarrow> bool" where
  "tab_map tab m \<longleftrightarrow>
     (\<forall>b < 1024. distinct (map fst (tab b)) \<and> (\<forall>k \<in> fst ` set (tab b). key_bucket k = b)) \<and>
     (\<forall>k. m k = map_of (tab (key_bucket k)) k)"

lemma key_bucket_less [simp]: "key_bucket k < 1024"
  using bucket_of_less [of table_size k] by (simp add: key_bucket_def HT_CAPACITY_def)

definition apart :: "(byte list \<rightharpoonup> byte list) \<Rightarrow> byte list \<Rightarrow> bool" where
  "apart m q \<longleftrightarrow>
     (\<forall>k \<in> dom m. key_bucket k = key_bucket q \<longrightarrow> take (length q) k = q \<longrightarrow> k = q)"

lemma apart_upd: "apart m q \<Longrightarrow> apart (m(q := x)) q"
  by (auto simp: apart_def)

lemma tab_map_bucket:
  assumes "tab_map tab m"
  shows "m k = map_of (tab (key_bucket k)) k" and "distinct (map fst (tab (key_bucket k)))"
  using assms key_bucket_less [of k] unfolding tab_map_def by blast+

lemma tab_map_no_extension:
  assumes "tab_map tab m" and "apart m q"
  shows "no_extension q (tab (key_bucket q))"
proof -
  have "fst kv = q" if kv: "kv \<in> set (tab (key_bucket q))" "take (length q) (fst kv) = q" for kv
  proof -
    have b: "key_bucket (fst kv) = key_bucket q"
      using assms(1) kv(1) by (auto simp: tab_map_def)
    have "m (fst kv) = map_of (tab (key_bucket q)) (fst kv)"
      using assms(1) b by (simp add: tab_map_def)
    with kv(1) have "fst kv \<in> dom m" by (auto simp: dom_map_of_conv_image_fst domIff map_of_eq_None_iff)
    with assms(2) b kv(2) show ?thesis by (auto simp: apart_def)
  qed
  then show ?thesis by (simp add: no_extension_def)
qed

lemma tab_map_update:
  assumes "tab_map tab m" and "map_of es = (map_of (tab (key_bucket q)))(q := x)"
    and "distinct (map fst es)" and "fst ` set es \<subseteq> insert q (fst ` set (tab (key_bucket q)))"
  shows "tab_map (tab(key_bucket q := es)) (m(q := x))"
proof -
  have "key_bucket k = key_bucket q" if "k \<in> fst ` set es" for k
  proof -
    have "k = q \<or> k \<in> fst ` set (tab (key_bucket q))" using assms(4) that by blast
    then show ?thesis using assms(1) key_bucket_less [of q] unfolding tab_map_def by blast
  qed
  with assms show ?thesis by (simp add: tab_map_def)
qed

section \<open>The contract of a dictionary\<close>

text \<open>
  The operations a client calls are \<open>put\<close>, \<open>get\<close> and \<open>del\<close> on requests of type \<open>'r\<close>;
  \<open>rel\<close> relates a state to the map it represents, \<open>sep\<close> says when a key can be used with a map.
\<close>

locale dictionary =
  fixes rel :: "'s \<Rightarrow> ('k \<rightharpoonup> 'v) \<Rightarrow> bool"
    and sep :: "('k \<rightharpoonup> 'v) \<Rightarrow> 'k \<Rightarrow> bool"
    and key :: "'r \<Rightarrow> 'k" and val :: "'r \<Rightarrow> 'v" and valid :: "'r \<Rightarrow> bool"
    and put :: "'r \<Rightarrow> ('s, 'p) cmd" and get :: "'r \<Rightarrow> ('s, 'o) cmd" and del :: "'r \<Rightarrow> ('s, 'o) cmd"
    and stored :: 'p and found :: "'v \<Rightarrow> 'o" and missing :: 'o and deleted :: 'o
  assumes put_law: "rel s m \<Longrightarrow> valid r \<Longrightarrow> sep m (key r) \<Longrightarrow>
      \<exists>s'. put r s = Return (stored, s') \<and> rel s' (m(key r \<mapsto> val r))"
    and get_law: "rel s m \<Longrightarrow> valid r \<Longrightarrow> sep m (key r) \<Longrightarrow>
      get r s = Return (case m (key r) of None \<Rightarrow> missing | Some v \<Rightarrow> found v, s)"
    and del_law: "rel s m \<Longrightarrow> valid r \<Longrightarrow> sep m (key r) \<Longrightarrow>
      \<exists>s'. del r s = Return (if m (key r) = None then missing else deleted, s') \<and> rel s' (m(key r := None))"
    and sep_upd: "sep m k \<Longrightarrow> sep (m(k := x)) k"
begin

lemma put_get:
  assumes "rel s m" "valid r" "valid r'" "key r' = key r" "sep m (key r)"
  shows "\<exists>s'. cseq (put r) (get r') s = Return (found (val r), s')"
proof -
  from put_law [OF assms(1,2,5)] obtain s1
    where "put r s = Return (stored, s1)" "rel s1 (m(key r \<mapsto> val r))" by blast
  with get_law [OF this(2) assms(3)] sep_upd [OF assms(5)] assms(4) show ?thesis
    by (simp add: cmd_run)
qed

end

section \<open>The store of the server is a dictionary\<close>

text \<open>
  \<open>stores s m\<close>: the memory \<open>s\<close> holds a well-formed table of 1024 buckets, nobody holds a lock,
  and its contents are the map \<open>m\<close>. \<open>request_ok\<close>: the request fits its buffers and its
  \<open>key_len\<close> is the length of its key, as the benchmark sets it.
\<close>

definition stores :: "memory \<Rightarrow> (byte list \<rightharpoonup> byte list) \<Rightarrow> bool" where
  "stores s m \<longleftrightarrow> (\<exists>tab. represents s table_size tab \<and> tab_map tab m)"

definition request_ok :: "request \<Rightarrow> bool" where
  "request_ok r \<longleftrightarrow> request_fits r \<and> req_prefix r = length (req_string r)"

lemma set_request_stores:
  assumes "stores s m" and r: "request_ok r" and sep: "apart m (req_string r)"
  shows "\<exists>s'. set_request me r resp s = Return ((0, resp\<lparr>resp_code := OK\<rparr>), s') \<and>
    stores s' (m(req_string r \<mapsto> req_value r))"
proof -
  from assms(1) obtain tab where tab: "represents s table_size tab" "tab_map tab m"
    by (auto simp: stores_def)
  note ne = tab_map_no_extension [OF tab(2) sep]
  note new = tab_map_update [OF tab(2) bucket_put_map_of [OF ne]
      bucket_put_keys(1) [OF ne tab_map_bucket(2) [OF tab(2)]] bucket_put_keys(2)]
  from set_request_represents [OF tab(1), of r me resp] r obtain s'
    where "set_request me r resp s = Return ((0, resp\<lparr>resp_code := OK\<rparr>), s')"
      and "represents s' table_size (tab(key_bucket (req_string r) :=
        bucket_put (length (req_string r)) (req_string r) (req_value r) (tab (key_bucket (req_string r)))))"
    by (auto simp: request_ok_def key_bucket_def)
  with new show ?thesis unfolding stores_def by blast
qed

lemma get_request_stores:
  assumes "stores s m" and r: "request_ok r" and sep: "apart m (req_string r)" and "response_wf resp"
  shows "get_request me r resp s =
    Return (case m (req_string r) of None \<Rightarrow> resp\<lparr>resp_code := KEY_ERROR\<rparr>
            | Some v \<Rightarrow> got_response v resp, s)"
proof -
  from assms(1) obtain tab where tab: "represents s table_size tab" "tab_map tab m"
    by (auto simp: stores_def)
  note ne = tab_map_no_extension [OF tab(2) sep]
  from tab_map_bucket(1) [OF tab(2), of "req_string r"] get_request_represents [OF tab(1) _ assms(4), of r me] r bucket_get_map_of [OF ne]
  show ?thesis by (simp add: request_ok_def key_bucket_def)
qed

lemma del_request_stores:
  assumes "stores s m" and r: "request_ok r" and sep: "apart m (req_string r)"
  shows "\<exists>s'. del_request me r resp s =
      Return (resp\<lparr>resp_code := (if m (req_string r) = None then KEY_ERROR else OK)\<rparr>, s') \<and>
    stores s' (m(req_string r := None))"
proof -
  from assms(1) obtain tab where tab: "represents s table_size tab" "tab_map tab m"
    by (auto simp: stores_def)
  note ne = tab_map_no_extension [OF tab(2) sep]
  let ?q = "req_string r"
  note m = tab_map_bucket(1) [OF tab(2), of ?q] and d = tab_map_bucket(2) [OF tab(2), of ?q]
  have "fst ` set (bucket_del n ?q (tab (key_bucket ?q))) \<subseteq> insert ?q (fst ` set (tab (key_bucket ?q)))" for n
    by (rule subset_trans [OF bucket_del_keys(2) subset_insertI])
  note new = tab_map_update [OF tab(2) bucket_del_map_of [OF ne d] bucket_del_keys(1) [OF d] this]
  have "bucket_get (length ?q) ?q (tab (key_bucket ?q)) = m ?q"
    by (simp add: m bucket_get_map_of [OF ne])
  moreover have "request_fits r" "req_prefix r = length ?q" "bucket_of table_size ?q = key_bucket ?q"
    using r by (simp_all add: request_ok_def key_bucket_def)
  ultimately show ?thesis
    using del_request_represents [OF tab(1), of r me resp] new unfolding stores_def by metis
qed

interpretation kv: dictionary stores apart "\<lambda>r. req_string r" req_value request_ok
  "\<lambda>r. set_request me r zero_response" "\<lambda>r. get_request me r zero_response"
  "\<lambda>r. del_request me r zero_response"
  "(0, zero_response\<lparr>resp_code := OK\<rparr>)" "\<lambda>v. got_response v zero_response"
  "zero_response\<lparr>resp_code := KEY_ERROR\<rparr>" "zero_response\<lparr>resp_code := OK\<rparr>" for me
proof
  fix s m r
  assume "stores s m" "request_ok r" "apart m (req_string r)"
  from del_request_stores [OF this, of me zero_response]
  show "\<exists>s'. del_request me r zero_response s =
      Return (if m (req_string r) = None then zero_response\<lparr>resp_code := KEY_ERROR\<rparr>
              else zero_response\<lparr>resp_code := OK\<rparr>, s') \<and> stores s' (m(req_string r := None))"
    by (cases "m (req_string r)") simp_all
qed (simp_all add: set_request_stores get_request_stores apart_upd)

section \<open>Starting and resetting the table\<close>

lemma init_hashtable_succeeds:
  assumes "ht s \<noteq> Ht_dangling"
  shows "init_hashtable (True, True, True) c s = Return (0, s\<lparr>ht := Ht_live
    \<lparr>ht_capacity = ucast c, ht_items = replicate (unat c) None, ht_locks = replicate (unat c) False\<rparr>\<rparr>)"
  using assms by (cases "ht s") (auto simp: init_hashtable_def cmd_run)

lemma fresh_table_stores:
  assumes "below_fresh s"
  shows "stores (s\<lparr>ht := Ht_live \<lparr>ht_capacity = table_size, ht_items = replicate (unat HT_CAPACITY) None,
    ht_locks = replicate (unat HT_CAPACITY) False\<rparr>\<rparr>) Map.empty"
proof -
  let ?t = "\<lparr>ht_capacity = table_size, ht_items = replicate (unat HT_CAPACITY) None :: addr option list,
    ht_locks = replicate (unat HT_CAPACITY) False\<rparr>"
  have cap: "unat HT_CAPACITY = unat table_size" "table_size \<noteq> 0" by (simp_all add: HT_CAPACITY_def)
  then have "table_ok s ?t (\<lambda>_. [])"
    using assms by (simp add: table_ok_def shape_ok_def chains_ok_def disjoint_ok_def nodes_def)
  then have "opened (s\<lparr>ht := Ht_live ?t\<rparr>) ?t (\<lambda>_. []) table_size (\<lambda>_. [])"
    using cap by (simp add: opened_def quiet_def entries_def)
  then have "represents (s\<lparr>ht := Ht_live ?t\<rparr>) table_size (\<lambda>_. [])"
    unfolding represents_opened by blast
  moreover have "tab_map (\<lambda>_. []) Map.empty" by (simp add: tab_map_def)
  ultimately show ?thesis unfolding stores_def by blast
qed

lemma stores_live:
  "stores s m \<Longrightarrow> ht s \<noteq> Ht_dangling \<and> ht s \<noteq> Ht_null \<and> below_fresh s"
  by (auto simp: stores_def represents_opened opened_def table_ok_def)

lemma init_hashtable_stores:
  assumes "ht s \<noteq> Ht_dangling" and "below_fresh s"
  shows "\<exists>s'. init_hashtable (True, True, True) HT_CAPACITY s = Return (0, s') \<and> stores s' Map.empty"
  using init_hashtable_succeeds [OF assms(1), of HT_CAPACITY] fresh_table_stores [OF assms(2)] by blast

lemma empty_memory_start: "ht (empty_memory j) \<noteq> Ht_dangling" "below_fresh (empty_memory j)"
  by (simp_all add: empty_memory_def below_fresh_def)

section \<open>Every request is answered as the map answers it\<close>

definition kv_spec ::
  "request \<Rightarrow> (byte list \<rightharpoonup> byte list) \<Rightarrow> response \<times> (byte list \<rightharpoonup> byte list)" where
  "kv_spec r m =
     (case req_method r of
        SET \<Rightarrow> (zero_response\<lparr>resp_code := OK\<rparr>, m(req_string r \<mapsto> req_value r))
      | GET \<Rightarrow> (case m (req_string r) of
                  None \<Rightarrow> zero_response\<lparr>resp_code := KEY_ERROR\<rparr>
                | Some v \<Rightarrow> got_response v zero_response, m)
      | DEL \<Rightarrow> (zero_response\<lparr>resp_code := (if m (req_string r) = None then KEY_ERROR else OK)\<rparr>,
                m(req_string r := None))
      | RST \<Rightarrow> (zero_response\<lparr>resp_code := OK\<rparr>, Map.empty)
      | _ \<Rightarrow> (zero_response, m))"

definition request_served :: "request \<Rightarrow> (byte list \<rightharpoonup> byte list) \<Rightarrow> bool" where
  "request_served r m \<longleftrightarrow>
     (req_method r \<in> {SET, GET, DEL} \<longrightarrow> request_ok r \<and> apart m (req_string r))"

lemma serve_request_refines:
  assumes st: "stores s m" and ok: "request_served r m"
  shows "\<exists>s'. serve_request me (True, True, True) r zero_response s = Return (fst (kv_spec r m), s')
    \<and> stores s' (snd (kv_spec r m))"
proof -
  have r: "request_ok r" "apart m (req_string r)" if "req_method r \<in> {SET, GET, DEL}"
    using ok that unfolding request_served_def by blast+
  consider "req_method r = SET" | "req_method r = GET" | "req_method r = DEL" | "req_method r = RST"
    | "req_method r \<notin> {SET, GET, DEL, RST}" by auto
  then show ?thesis
  proof cases
    case 1
    with set_request_stores [OF st r, of me zero_response] show ?thesis
      by (auto simp: serve_request_def kv_spec_def cmd_run)
  next
    case 2
    with get_request_stores [OF st r zero_response_wf, of me] st show ?thesis
      by (auto simp: serve_request_def kv_spec_def cmd_run)
  next
    case 3
    with del_request_stores [OF st r, of me zero_response] show ?thesis
      by (simp add: serve_request_def kv_spec_def)
  next
    case 4
    have "ht s \<noteq> Ht_dangling" "below_fresh s" using stores_live [OF st] by simp_all
    from init_hashtable_stores [OF this] 4 show ?thesis
      by (auto simp: serve_request_def kv_spec_def cmd_run)
  next
    case 5
    with st show ?thesis
      by (cases "req_method r") (auto simp: serve_request_def kv_spec_def cmd_run)
  qed
qed

interpretation serving: simulation stores "\<lambda>r. serve_request me (True, True, True) r zero_response"
  kv_spec request_served for me
  by unfold_locales (rule serve_request_refines)

end
