(* ===== verification/KV_Properties.thy ===== *)
theory KV_Properties
  imports KV_Refinement
begin

text \<open>
  The properties of the key-value store: what the hash function computes, what the operations of
  the table do and keep, that the store is a dictionary under the condition \<open>apart\<close>, and what
  happens outside the conditions the code relies on. Each property that has hypotheses is followed
  by a witness on a concrete table.
\<close>

section \<open>Concrete requests and tables\<close>

definition plain_request :: "request_method \<Rightarrow> byte list \<Rightarrow> byte list \<Rightarrow> request" where
  "plain_request m k v = zero_request\<lparr>req_method := m, req_key := pad_to KEY_SIZE k,
     req_msg := pad_to MSG_SIZE v, req_key_len := of_nat (length k), req_msg_len := of_nat (length v)\<rparr>"

lemma unat_of_small: "n < 2 ^ 64 \<Longrightarrow> unat (of_nat n :: size_t) = n"
  by (simp add: unat_of_nat)

lemma take_pad_to: "length v \<le> n \<Longrightarrow> take (length v) (pad_to n v) = v"
  by (simp add: pad_to_def)

lemma plain_request_simps [simp]:
  "req_method (plain_request m k v) = m"
  "0 \<notin> set k \<Longrightarrow> length k < KEY_SIZE \<Longrightarrow> req_string (plain_request m k v) = k"
  "length k < KEY_SIZE \<Longrightarrow> req_prefix (plain_request m k v) = length k"
  "length v \<le> MSG_SIZE \<Longrightarrow> req_value (plain_request m k v) = v"
  using cstr_of_cstr [OF cstr_pad_to [of k KEY_SIZE]]
  by (simp_all add: plain_request_def req_value_def unat_of_small KEY_SIZE_def MSG_SIZE_def take_pad_to)

lemma plain_request_ok:
  "0 \<notin> set k \<Longrightarrow> length k < KEY_SIZE \<Longrightarrow> length v \<le> MSG_SIZE \<Longrightarrow> request_ok (plain_request m k v)"
  using cstr_pad_to [of k KEY_SIZE]
  by (auto simp: request_ok_def request_fits_def request_wf_def)
     (auto simp: plain_request_def cstr_def unat_of_small KEY_SIZE_def MSG_SIZE_def)

text \<open>An empty table of 1024 buckets, as \<open>init_hashtable(HT_CAPACITY)\<close> makes it.\<close>

definition start_memory :: memory where
  "start_memory = (empty_memory (\<lambda>_ _. 0))\<lparr>ht := Ht_live \<lparr>ht_capacity = table_size,
     ht_items = replicate (unat HT_CAPACITY) None, ht_locks = replicate (unat HT_CAPACITY) False\<rparr>\<rparr>"

lemma start_stores: "stores start_memory Map.empty"
  unfolding start_memory_def by (intro fresh_table_stores empty_memory_start)

text \<open>A table of one bucket with one item, whose lock is \<open>l\<close>: key \<open>a\<close>, value \<open>v\<close>.\<close>

definition sample_item :: "rwlock \<Rightarrow> hash_item_t" where
  "sample_item l = \<lparr>item_next = None, item_prev = None, item_key = Some 1, item_value = Some 2,
     item_value_size = 1, item_rwlock = l\<rparr>"

definition sample :: "rwlock \<Rightarrow> memory" where
  "sample l = \<lparr>ht = Ht_live \<lparr>ht_capacity = 1, ht_items = [Some 0], ht_locks = [False]\<rparr>,
     cells = [0 \<mapsto> sample_item l], blocks = [1 \<mapsto> lit ''a'', 2 \<mapsto> pad_to MSG_SIZE (bytes ''v'')],
     fresh = 3, junk = (\<lambda>_ _. 0)\<rparr>"

lemma sample_item_ok: "item_ok (sample l) 0"
  by (simp add: sample_def sample_item_def content_defs lit_def MSG_SIZE_def)

lemma sample_inv: "table_inv (sample l) (\<lambda>_. [0])"
proof -
  let ?t = "\<lparr>ht_capacity = 1, ht_items = [Some 0], ht_locks = [False]\<rparr>"
  have "table_ok (sample l) ?t (\<lambda>_. [0])"
    using sample_item_ok [of l]
    by (auto simp: table_ok_def shape_ok_def chains_ok_def disjoint_ok_def nodes_def below_fresh_def
          sample_def sample_item_def item_links_def)
  then show ?thesis
    by (rule table_inv_intro [rotated]) (simp_all add: sample_def)
qed

lemma sample_key: "key_of (sample l) 0 = bytes ''a''" "cells (sample l) 0 = Some (sample_item l)"
  by (simp_all add: key_of_def buf_at_def sample_def sample_item_def lit_def bytes_def cstr_of_def)

lemma sample_cap: "cap_of (sample l) = 1"
  by (simp add: cap_of_def sample_def)

lemma cstr_lit: "0 \<notin> set (bytes cs) \<Longrightarrow> cstr (bytes cs) (lit cs)"
  by (auto simp: lit_def cstr_def)

section \<open>The hash function\<close>

lemma foldl_horner:
  fixes h :: "'a::comm_ring_1"
  shows "foldl (\<lambda>h c. r * h + f c) h k =
    h * r ^ length k + (\<Sum>i<length k. f (k ! i) * r ^ (length k - 1 - i))"
proof (induction k rule: rev_induct)
  case Nil
  show ?case by simp
next
  case (snoc c k)
  have "(\<Sum>i<length k. f ((k @ [c]) ! i) * r ^ (length k - i)) =
      (\<Sum>i<length k. r * (f (k ! i) * r ^ (length k - 1 - i)))"
  proof (rule sum.cong)
    fix i assume i: "i \<in> {..<length k}"
    then have "length k - i = Suc (length k - 1 - i)" by auto
    with i show "f ((k @ [c]) ! i) * r ^ (length k - i) = r * (f (k ! i) * r ^ (length k - 1 - i))"
      by (simp add: nth_append mult.left_commute)
  qed simp
  with snoc show ?case
    by (simp add: distrib_left sum_distrib_left mult.left_commute)
qed

text \<open>
  C20: the shift-and-add loop of \<open>hash\<close> computes the polynomial
  \<open>5381 * 33^n + c0 * 33^(n-1) + ... + c(n-1)\<close> modulo \<open>2^32\<close>, each character sign extended.
\<close>

theorem hash_is_djb2_polynomial:
  assumes "cstr k buf"
  shows "hash buf = Return (5381 * 33 ^ length k +
    (\<Sum>i<length k. scast (k ! i) * 33 ^ (length k - 1 - i)))"
  using hash_cstr [OF assms] by (simp add: djb2.simps foldl_horner)

theorem hash_is_djb2_polynomial_witness: "hash (lit ''ab'') = Return (5381 * 33 ^ 2 + (97 * 33 + 98))"
proof -
  have "cstr (bytes ''ab'') (lit ''ab'')" by (rule cstr_lit) (simp add: bytes_def)
  from hash_is_djb2_polynomial [OF this] show ?thesis
    by (simp add: bytes_def numeral_2_eq_2 lessThan_Suc)
qed


section \<open>The operations of the table\<close>

text \<open>
  C19: on a well-formed table, \<open>search\<close> ends, touches no memory it must not touch, changes
  nothing, and finds the first item of the key's bucket that agrees with the key in its first
  \<open>key_len\<close> characters.
\<close>

theorem search_finds_first_match:
  assumes "table_inv s bs" and "cstr q key"
  shows "search key n s = Return (find (matches s (unat n) q) (bs (bucket_of (cap_of s) q)), s)"
proof -
  from table_inv_obtain [OF assms(1)] obtain t where t: "ht s = Ht_live t" "table_ok s t bs" .
  from search_run [OF t assms(2)] t(1) show ?thesis by simp
qed

lemma bucket_of_one: "bucket_of 1 q = 0"
  using bucket_of_less [of 1 q] by simp

theorem search_finds_first_match_witness:
  "search (lit ''ab'') 1 (sample Lock_free) = Return (Some 0, sample Lock_free)"
proof -
  have "cstr (bytes ''ab'') (lit ''ab'')" by (rule cstr_lit) (simp add: bytes_def)
  from search_finds_first_match [OF sample_inv this, of 1] show ?thesis
    by (simp add: sample_cap bucket_of_one matches_def sample_key bytes_def)
qed

lemma get_key_entry_represents:
  assumes rep: "represents s cap tab" and q: "cstr q key"
    and len: "length key = KEY_SIZE" "unat n \<le> KEY_SIZE"
  shows "\<exists>e s'. get_key_entry key n s = Return (e, s') \<and> key_match (unat n) q (key_of s' e, value_of s' e) \<and>
    lock_of s' e = Lock_free \<and> item_ok s' e \<and>
    represents s' cap (tab(bucket_of cap q :=
      if list_ex (key_match (unat n) q) (tab (bucket_of cap q)) then tab (bucket_of cap q)
      else (take (unat n) q, []) # tab (bucket_of cap q)))"
proof -
  let ?b = "bucket_of cap q"
  from rep obtain t bs where op: "opened s t bs cap tab" by (auto simp: represents_opened)
  note b = opened_index [OF op, of q]
  have t: "ht s = Ht_live t" "ht_capacity t = cap" "table_ok s t bs" "tab ?b = entries s bs ?b"
    using op b(2) by (simp_all add: opened_def)
  show ?thesis
  proof (cases "find (matches s (unat n) q) (bs ?b)")
    case (Some e)
    from find_split [OF Some] have e: "e \<in> set (bs ?b)" "matches s (unat n) q e" by auto
    then obtain it where "cells s e = Some it" "item_rwlock it = Lock_free" and ok: "item_ok s e"
      using opened_lock [OF op] by blast
    then have "lock_of s e = Lock_free" by (simp add: lock_of_def)
    moreover have "list_ex (key_match (unat n) q) (tab ?b)"
      using Some t(4) by (simp add: list_ex_find find_entries)
    moreover have "get_key_entry key n s = Return (e, s)"
      using get_key_entry_found [OF t(1,3) _ q] Some b(3) t(2) by simp
    ultimately show ?thesis using rep e(2) ok by (auto simp: matches_key_match fun_upd_idem)
  next
    case None
    have head: "h < fresh s" if "ht_items t ! ?b = Some h" for h
      using head_of_chain [OF table_ok_bucket(1) [OF t(3) b(1)] that] table_ok_bucket(4) [OF t(3) b(1)] by blast
    let ?s = "inserted ?b t key (unat n) s"
    have "get_key_entry key n s = Return (fresh s, ?s)"
      using get_key_entry_new [OF t(1,3) _ q len] None b(3) t(2) by simp
    moreover have "key_match (unat n) q (key_of ?s (fresh s), value_of ?s (fresh s))"
      using inserted_new_item(2) [of t ?b s, OF head] stored_key_cstr [OF q, of "unat n"]
      by (simp add: key_match_def stored_key_def)
    moreover have "lock_of ?s (fresh s) = Lock_free" using inserted_new_item(5) [OF head] by simp
    moreover have "\<not> list_ex (key_match (unat n) q) (tab ?b)"
      using None t(4) by (simp add: list_ex_find find_entries)
    moreover have "item_ok ?s (fresh s)" using inserted_new_item(1) [OF head] by simp
    ultimately show ?thesis
      using inserted_opened [OF op q, of "unat n"] unfolding represents_opened by auto
  qed
qed

text \<open>
  C18: \<open>get_key_entry\<close> returns an item of the key's bucket that agrees with the key, keeps the
  table well formed, releases the bucket's mutex, and changes the contents of that bucket only:
  not at all when such an item was there, otherwise by a new first item with an empty value.
\<close>

theorem get_key_entry_finds_or_creates:
  assumes rep: "represents s cap tab" and q: "cstr q key"
    and len: "length key = KEY_SIZE" "unat n \<le> KEY_SIZE"
  shows "\<exists>e s'. get_key_entry key n s = Return (e, s') \<and> key_match (unat n) q (key_of s' e, value_of s' e) \<and>
    lock_of s' e = Lock_free \<and>
    represents s' cap (tab(bucket_of cap q :=
      if list_ex (key_match (unat n) q) (tab (bucket_of cap q)) then tab (bucket_of cap q)
      else (take (unat n) q, []) # tab (bucket_of cap q)))"
  using get_key_entry_represents [OF assms] by blast

lemma start_represents: "represents start_memory table_size (\<lambda>_. [])"
proof -
  have "table_ok (empty_memory (\<lambda>_ _. 0)) \<lparr>ht_capacity = table_size,
     ht_items = replicate (unat HT_CAPACITY) None, ht_locks = replicate (unat HT_CAPACITY) False\<rparr> (\<lambda>_. [])"
    by (simp add: table_ok_def shape_ok_def chains_ok_def disjoint_ok_def nodes_def empty_memory_start
          HT_CAPACITY_def)
  then have "opened start_memory \<lparr>ht_capacity = table_size,
     ht_items = replicate (unat HT_CAPACITY) None, ht_locks = replicate (unat HT_CAPACITY) False\<rparr>
     (\<lambda>_. []) table_size (\<lambda>_. [])"
    by (simp add: opened_def quiet_def entries_def start_memory_def HT_CAPACITY_def)
  then show ?thesis unfolding represents_opened by blast
qed

theorem get_key_entry_finds_or_creates_witness:
  "\<exists>e s'. get_key_entry (pad_to KEY_SIZE (bytes ''ab'')) 2 start_memory = Return (e, s') \<and>
    take 2 (key_of s' e) = bytes ''ab''"
proof -
  have "cstr (bytes ''ab'') (pad_to KEY_SIZE (bytes ''ab''))"
    by (rule cstr_pad_to) (simp_all add: bytes_def KEY_SIZE_def)
  from get_key_entry_finds_or_creates [OF start_represents this, of 2] show ?thesis
    by (auto simp: key_match_def KEY_SIZE_def bytes_def)
qed

text \<open>
  C17: \<open>remove_item\<close> of an item nobody has locked unlinks it and frees the item, its key and its
  value; the table stays well formed, with that item gone from its bucket and nothing else moved.
\<close>

theorem remove_item_unlinks_and_frees:
  assumes rep: "represents s cap tab" and q: "cstr q key"
    and m: "list_ex (key_match (unat n) q) (tab (bucket_of cap q))"
  shows "\<exists>a it s'. remove_item me key n s = Return (0, s') \<and> cells s a = Some it \<and>
    matches s (unat n) q a \<and> cells s' a = None \<and> (\<forall>x \<in> bufs_of it. blocks s' x = None) \<and>
    (\<forall>x. x \<notin> bufs_of it \<longrightarrow> blocks s' x = blocks s x) \<and>
    represents s' cap (tab(bucket_of cap q := bucket_del (unat n) q (tab (bucket_of cap q))))"
proof -
  let ?b = "bucket_of cap q"
  from rep obtain t bs where op: "opened s t bs cap tab" by (auto simp: represents_opened)
  note b = opened_index [OF op, of q]
  have t: "ht s = Ht_live t" "ht_capacity t = cap" "table_ok s t bs" "tab ?b = entries s bs ?b"
    using op b(2) by (simp_all add: opened_def)
  from m t(4) obtain a where Some: "find (matches s (unat n) q) (bs ?b) = Some a"
    by (auto simp: list_ex_find find_entries)
  from find_split [OF Some] obtain xs ys where split: "bs ?b = xs @ a # ys"
    "matches s (unat n) q a" "\<forall>x \<in> set xs. \<not> matches s (unat n) q x" by blast
  obtain it where it: "cells s a = Some it" "item_rwlock it = Lock_free"
    using opened_lock [OF op, of a q] split(1) by auto
  have run: "remove_item me key n s = Return (0, removed ?b t it a s)"
    using remove_item_found [OF t(1,3) _ q _ it] Some b(3) t(2) by simp
  from removed_opened [OF op split it(1)]
  have rep': "represents (removed ?b t it a s) cap (tab(?b := bucket_del (unat n) q (tab ?b)))"
    unfolding represents_opened by blast
  have "cells (removed ?b t it a s) a = None" by (simp add: unlink_cells_def Let_def)
  then show ?thesis
    using run it(1) split(2) rep' by (intro exI [of _ a] exI [of _ it] exI [of _ "removed ?b t it a s"]) simp
qed

lemma sample_represents: "represents (sample Lock_free) 1 (\<lambda>_. [(bytes ''a'', bytes ''v'')])"
proof -
  have "value_of (sample Lock_free) 0 = bytes ''v''"
    by (simp add: value_of_def buf_at_def sample_def sample_item_def pad_to_def MSG_SIZE_def bytes_def)
  moreover have "quiet (sample Lock_free) (\<lambda>_. [0])"
    by (simp add: quiet_def lock_of_def sample_def sample_item_def)
  ultimately show ?thesis
    using sample_inv [of Lock_free] sample_key [of Lock_free] sample_cap [of Lock_free]
    unfolding represents_def by (auto simp: entries_def)
qed

theorem remove_item_unlinks_and_frees_witness:
  "\<exists>s'. remove_item 7 (lit ''a'') 1 (sample Lock_free) = Return (0, s') \<and> represents s' 1 (\<lambda>_. [])"
proof -
  have q: "cstr (bytes ''a'') (lit ''a'')" by (rule cstr_lit) (simp add: bytes_def)
  have m: "list_ex (key_match (unat (1 :: size_t)) (bytes ''a''))
      ((\<lambda>_. [(bytes ''a'', bytes ''v'')]) (bucket_of 1 (bytes ''a'')))"
    by (simp add: key_match_def)
  from remove_item_unlinks_and_frees [OF sample_represents q m, of 7]
  obtain s' where s': "remove_item 7 (lit ''a'') 1 (sample Lock_free) = Return (0, s')"
    "represents s' 1 ((\<lambda>_. [(bytes ''a'', bytes ''v'')])(bucket_of 1 (bytes ''a'') :=
       bucket_del 1 (bytes ''a'') [(bytes ''a'', bytes ''v'')]))" by auto
  from s'(2) have "represents s' 1 (\<lambda>_. [])"
    by (auto simp: represents_def bucket_of_one bucket_del_def key_match_def)
  with s'(1) show ?thesis by blast
qed


section \<open>The store as a dictionary\<close>

text \<open>
  C7: from the start of the server, every sequence of requests is answered as a finite map from
  keys to values answers it, as long as each SET, GET and DEL fits its buffers and its key is apart
  from the keys stored (no other key of its bucket extends it).
\<close>

theorem requests_answered_as_map:
  assumes "ok_all kv_spec request_served rs Map.empty"
  shows "\<exists>s'. cseq (init_hashtable (True, True, True) HT_CAPACITY)
      (run_all (\<lambda>r. serve_request me (True, True, True) r zero_response) rs) (empty_memory j) =
        Return (fst (spec_all kv_spec rs Map.empty), s') \<and>
      stores s' (snd (spec_all kv_spec rs Map.empty))"
proof -
  from init_hashtable_stores [OF empty_memory_start] obtain s1
    where "init_hashtable (True, True, True) HT_CAPACITY (empty_memory j) = Return (0, s1)"
      "stores s1 Map.empty" by blast
  with serving.run_refines [OF this(2) assms, of me] show ?thesis by (simp add: cmd_run)
qed

lemma apart_empty [simp]: "apart Map.empty q"
  by (simp add: apart_def)

lemma apart_single [simp]: "apart [q \<mapsto> v] q"
  by (simp add: apart_def)

theorem requests_answered_as_map_witness:
  defines "a \<equiv> bytes ''alpha''"
  shows "\<exists>s'. cseq (init_hashtable (True, True, True) HT_CAPACITY)
      (run_all (\<lambda>r. serve_request 0 (True, True, True) r zero_response)
        [plain_request SET a (bytes ''one''), plain_request GET a [], plain_request DEL a [],
         plain_request GET a []]) (empty_memory (\<lambda>_ _. 7)) =
      Return ([zero_response, got_response (bytes ''one'') zero_response, zero_response,
        zero_response\<lparr>resp_code := KEY_ERROR\<rparr>], s')"
proof -
  have a: "0 \<notin> set a" "length a < KEY_SIZE" by (simp_all add: a_def bytes_def KEY_SIZE_def)
  have v: "length (bytes ''one'') \<le> MSG_SIZE" by (simp add: bytes_def MSG_SIZE_def)
  note simps = kv_spec_def request_served_def plain_request_simps(1) plain_request_simps(2) [OF a]
    plain_request_simps(4) [OF v] plain_request_ok [OF a] v
  have z: "zero_response\<lparr>resp_code := OK\<rparr> = zero_response" by (simp add: zero_response_def)
  have upd: "([a \<mapsto> x] :: byte list \<rightharpoonup> byte list)(a := None) = Map.empty" for x by simp
  have "ok_all kv_spec request_served
      [plain_request SET a (bytes ''one''), plain_request GET a [], plain_request DEL a [],
       plain_request GET a []] Map.empty"
    by (simp add: simps upd del: fun_upd_apply)
  from requests_answered_as_map [OF this, of 0 "\<lambda>_ _. 7"] show ?thesis
    by (auto simp: simps z)
qed

text \<open>
  C14: a GET right after a SET of the same key returns the value that was set, when both requests fit their
  buffers (\<open>request_ok\<close>) and no other stored key of the bucket begins with the key (\<open>apart\<close>; the next property is without
  this condition).
\<close>

theorem set_then_get:
  assumes "stores s m" and "request_ok r" and "request_ok r'"
    and "req_string r' = req_string r" and "apart m (req_string r)"
  shows "\<exists>s'. cseq (set_request me r zero_response) (get_request me r' zero_response) s =
    Return (got_response (req_value r) zero_response, s')"
  by (rule kv.put_get [OF assms])

theorem set_then_get_witness:
  "\<exists>s'. cseq (set_request 1 (plain_request SET (bytes ''k'') (bytes ''v'')) zero_response)
      (get_request 1 (plain_request GET (bytes ''k'') []) zero_response) start_memory =
    Return (got_response (bytes ''v'') zero_response, s')"
proof -
  have k: "0 \<notin> set (bytes ''k'')" "length (bytes ''k'') < KEY_SIZE"
    and v: "length (bytes ''v'') \<le> MSG_SIZE" by (simp_all add: bytes_def KEY_SIZE_def MSG_SIZE_def)
  from set_then_get [OF start_stores plain_request_ok [OF k v] plain_request_ok [OF k, of "[]"], of GET SET 1]
  show ?thesis using k v by simp
qed

text \<open>The item of a bucket that a request finds.\<close>

abbreviation first_match :: "request \<Rightarrow> (byte list \<times> byte list) list \<Rightarrow> (byte list \<times> byte list) option" where
  "first_match r \<equiv> find (key_match (req_prefix r) (req_string r))"

text \<open>
  C15: what a GET answers after a SET, for any two keys. The SET writes one item: the first of its bucket that
  agrees with its key, or a new one at the head. The GET answers the new value when that item is the first
  one it finds, that is in its own bucket and starting with its key, and otherwise what it would have
  answered before the SET.
\<close>

theorem set_then_any_get:
  assumes rep: "represents s cap tab" and fits: "request_fits w" "request_fits r"
  shows "\<exists>a s'. get_request me r zero_response s = Return (a, s) \<and>
    cseq (set_request me w zero_response) (get_request me r zero_response) s =
      Return (if bucket_of cap (req_string r) = bucket_of cap (req_string w) \<and>
           (case first_match w (tab (bucket_of cap (req_string w))) of
              None \<Rightarrow> key_match (req_prefix r) (req_string r) (take (req_prefix w) (req_string w), req_value w)
            | Some kv \<Rightarrow> first_match r (tab (bucket_of cap (req_string w))) = Some kv)
         then got_response (req_value w) zero_response else a, s')"
proof -
  let ?b = "bucket_of cap (req_string w)" and ?put = "bucket_put (req_prefix w) (req_string w) (req_value w)"
  from set_request_represents [OF rep fits(1), of me zero_response] obtain s' where
    set: "set_request me w zero_response s = Return ((0, zero_response\<lparr>resp_code := OK\<rparr>), s')"
      "represents s' cap (tab(?b := ?put (tab ?b)))" by blast
  have "key_match n q (case kv of (k, _) \<Rightarrow> (k, v)) = key_match n q kv" for n q kv v
    by (cases kv) (simp add: key_match_def)
  note find_upd_first [of "key_match (req_prefix r) (req_string r)", OF this]
  then have "bucket_get (req_prefix r) (req_string r) (?put (tab ?b)) =
      (if case first_match w (tab ?b) of
            None \<Rightarrow> key_match (req_prefix r) (req_string r) (take (req_prefix w) (req_string w), req_value w)
          | Some kv \<Rightarrow> first_match r (tab ?b) = Some kv
       then Some (req_value w) else bucket_get (req_prefix r) (req_string r) (tab ?b))"
    by (auto simp: bucket_put_def bucket_get_def list_ex_find split: option.splits)
  with set(1) get_request_represents [OF rep fits(2) zero_response_wf, of me]
    get_request_represents [OF set(2) fits(2) zero_response_wf, of me]
  show ?thesis by (auto simp: cmd_run)
qed

theorem set_then_any_get_witness:
  "\<exists>s'. cseq (set_request 1 (plain_request SET (bytes ''ab'') (bytes ''w'')) zero_response)
      (get_request 1 (plain_request GET (bytes ''a'') []) zero_response) (sample Lock_free) =
    Return (got_response (bytes ''w'') zero_response, s')"
proof -
  have a: "0 \<notin> set (bytes ''a'')" "length (bytes ''a'') < KEY_SIZE"
    and ab: "0 \<notin> set (bytes ''ab'')" "length (bytes ''ab'') < KEY_SIZE"
    and w: "length (bytes ''w'') \<le> MSG_SIZE" by (simp_all add: bytes_def KEY_SIZE_def MSG_SIZE_def)
  have "request_fits (plain_request SET (bytes ''ab'') (bytes ''w''))" "request_fits (plain_request GET (bytes ''a'') [])"
    using plain_request_ok [OF ab w] plain_request_ok [OF a, of "[]"] by (simp_all add: request_ok_def)
  note set_then_any_get [OF sample_represents this, of 1, unfolded bucket_of_one]
  moreover have "key_match 1 (bytes ''a'') (bytes ''ab'', x)" "\<not> key_match 2 (bytes ''ab'') (bytes ''a'', x)"
    "length (bytes ''a'') = 1" "length (bytes ''ab'') = 2" for x
    by (simp_all add: key_match_def bytes_def)
  ultimately show ?thesis using a ab w by auto
qed

text \<open>
  C16: what a GET answers after a DEL of the same key. The DEL removes the first item of the bucket that
  starts with the key, so the GET answers \<open>KEY_ERROR\<close> exactly when at most one item did, and otherwise the
  value of the second.
\<close>

theorem del_then_get:
  assumes rep: "represents s cap tab" and fits: "request_fits d" "request_fits r"
    and same: "req_string r = req_string d" "req_prefix r = req_prefix d"
  shows "\<exists>s'. cseq (del_request me d zero_response) (get_request me r zero_response) s =
    Return (case filter (key_match (req_prefix d) (req_string d)) (tab (bucket_of cap (req_string d))) of
        _ # kv # _ \<Rightarrow> got_response (snd kv) zero_response
      | _ \<Rightarrow> zero_response\<lparr>resp_code := KEY_ERROR\<rparr>, s')"
proof -
  let ?b = "bucket_of cap (req_string d)" and ?P = "key_match (req_prefix d) (req_string d)"
  from del_request_represents [OF rep fits(1), of me zero_response] obtain x s' where
    del: "del_request me d zero_response s = Return (x, s')"
      "represents s' cap (tab(?b := bucket_del (req_prefix d) (req_string d) (tab ?b)))" by blast
  have "bucket_get (req_prefix d) (req_string d) (bucket_del (req_prefix d) (req_string d) (tab ?b)) =
      (case filter ?P (tab ?b) of _ # kv # _ \<Rightarrow> Some (snd kv) | _ \<Rightarrow> None)"
    by (simp add: bucket_get_def bucket_del_def find_filter filter_del_first split: list.split)
  with del(1) get_request_represents [OF del(2) fits(2) zero_response_wf, of me] same
  show ?thesis by (simp add: cmd_run split: list.splits)
qed

theorem del_then_get_witness:
  "\<exists>s'. cseq (del_request 1 (plain_request DEL (bytes ''a'') []) zero_response)
      (get_request 1 (plain_request GET (bytes ''a'') []) zero_response) (sample Lock_free) =
    Return (zero_response\<lparr>resp_code := KEY_ERROR\<rparr>, s')"
proof -
  have a: "0 \<notin> set (bytes ''a'')" "length (bytes ''a'') < KEY_SIZE" by (simp_all add: bytes_def KEY_SIZE_def)
  have "request_fits (plain_request DEL (bytes ''a'') [])" "request_fits (plain_request GET (bytes ''a'') [])"
    using plain_request_ok [OF a, of "[]"] by (simp_all add: request_ok_def)
  from del_then_get [OF sample_represents this, of 1] show ?thesis
    using a by (simp add: bucket_of_one key_match_def)
qed


section \<open>Outside the conditions\<close>

lemma benchmark_keys_share_bucket:
  "key_bucket (benchmark_key 0 1) = key_bucket (benchmark_key 0 1088)"
  "take (length (benchmark_key 0 1)) (benchmark_key 0 1088) = benchmark_key 0 1"
  "0 \<notin> set (benchmark_key 0 1)" "0 \<notin> set (benchmark_key 0 1088)"
  "length (benchmark_key 0 1) < KEY_SIZE" "length (benchmark_key 0 1088) < KEY_SIZE"
  "benchmark_key 0 1 \<noteq> benchmark_key 0 1088"
  by (simp_all add: benchmark_key_def decimal_def decimal_nat.simps bytes_def KEY_SIZE_def
      key_bucket_def bucket_of_def djb2.simps HT_CAPACITY_def)

text \<open>
  C21: the condition \<open>apart\<close> is needed, and the benchmark's own keys violate it: the key of
  operation 1 of instance 0 is a prefix of the key of operation 1088, and they share a bucket. A GET
  of the former, which was never set, answers the value of the latter.
\<close>

theorem get_answers_other_key:
  "\<exists>s'. cseq (set_request me (plain_request SET (benchmark_key 0 1088) (bytes ''late'')) zero_response)
      (get_request me (plain_request GET (benchmark_key 0 1) []) zero_response) start_memory =
    Return (got_response (bytes ''late'') zero_response, s')"
proof -
  let ?K = "benchmark_key 0 1088" and ?k = "benchmark_key 0 1"
  let ?r = "plain_request SET ?K (bytes ''late'')" and ?r' = "plain_request GET ?k []"
  note keys = benchmark_keys_share_bucket
  have v: "length (bytes ''late'') \<le> MSG_SIZE" by (simp add: bytes_def MSG_SIZE_def)
  have ok: "request_fits ?r" "request_fits ?r'"
    using plain_request_ok [OF keys(4,6) v] plain_request_ok [OF keys(3,5), of "[]"]
    by (simp_all add: request_ok_def)
  have string: "req_string ?r = ?K" "req_prefix ?r = length ?K" "req_string ?r' = ?k"
    "req_prefix ?r' = length ?k" "req_value ?r = bytes ''late''"
    using keys v by simp_all
  from set_request_represents [OF start_represents ok(1), of me zero_response] obtain s1
    where s1: "set_request me ?r zero_response start_memory =
        Return ((0, zero_response\<lparr>resp_code := OK\<rparr>), s1)"
      "represents s1 table_size ((\<lambda>_. [])(bucket_of table_size ?K :=
        bucket_put (length ?K) ?K (bytes ''late'') []))"
    unfolding string by blast
  have "bucket_get (length ?k) ?k (bucket_put (length ?K) ?K (bytes ''late'') []) = Some (bytes ''late'')"
    using keys(2) by (simp add: bucket_put_def bucket_get_def key_match_def)
  with get_request_represents [OF s1(2) ok(2) zero_response_wf, of me] keys(1)
  have "get_request me ?r' zero_response s1 = Return (got_response (bytes ''late'') zero_response, s1)"
    by (simp add: string key_bucket_def)
  with s1(1) show ?thesis by (simp add: cmd_run)
qed

text \<open>
  \<open>remove_item\<close> of an item whose lock another thread holds \<^emph>\<open>unlocks\<close> the lock it failed to
  take: undefined behaviour, whatever kind of lock the other thread holds.
\<close>

lemma remove_item_locked_is_undefined:
  assumes "table_inv s bs" and "cstr q key"
    and "find (matches s (unat n) q) (bs (bucket_of (cap_of s) q)) = Some a"
    and "lock_of s a = Write_held other \<or> lock_of s a = Read_held others"
    and "lock_of s a = Write_held other \<Longrightarrow> other \<noteq> me"
    and "lock_of s a = Read_held others \<Longrightarrow> me \<notin> set others"
  shows "remove_item me key n s = Undefined Unlock_not_held"
proof -
  from table_inv_obtain [OF assms(1)] obtain t where t: "ht s = Ht_live t" "table_ok s t bs"
    "ht_capacity t \<noteq> 0" "length (ht_items t) = unat (ht_capacity t)"
    "length (ht_locks t) = unat (ht_capacity t)"
    "\<And>b. b < unat (ht_capacity t) \<Longrightarrow> \<not> ht_locks t ! b"
    "\<And>q. bucket_of (ht_capacity t) q < unat (ht_capacity t)" by blast
  from assms(4) obtain it where it: "cells s a = Some it" "item_rwlock it = lock_of s a"
    by (cases "cells s a") (auto simp: lock_of_def)
  from assms(3) t(1) have f: "find (matches s (unat n) q) (bs (bucket_of (ht_capacity t) q)) = Some a" by simp
  from assms(4-6) it(2) have "item_rwlock it \<noteq> Lock_free"
    "rw_unlock me (item_rwlock it) = Undefined Unlock_not_held" by auto
  from remove_item_busy [OF t(1,2) t(6) [OF t(7)] assms(2) f it(1) this] show ?thesis .
qed

lemma remove_item_locked_is_undefined_witness:
  "remove_item 1 (lit ''a'') 1 (sample (Write_held 2)) = Undefined Unlock_not_held"
proof -
  have q: "cstr (bytes ''a'') (lit ''a'')" by (rule cstr_lit) (simp add: bytes_def)
  have f: "find (matches (sample (Write_held 2)) (unat (1 :: size_t)) (bytes ''a'')) [0] = Some 0"
    by (simp add: matches_def sample_key)
  have l: "lock_of (sample (Write_held 2)) 0 = Write_held 2" by (simp add: lock_of_def sample_def sample_item_def)
  from remove_item_locked_is_undefined [OF sample_inv q f, of 2 "[]" 1] l show ?thesis by simp
qed

text \<open>
  A SET of an item whose lock another thread holds answers \<open>KEY_ERROR\<close> and changes nothing.
\<close>

lemma set_request_locked_is_key_error:
  assumes "table_inv s bs" and "request_fits r"
    and "find (matches s (req_prefix r) (req_string r)) (bs (bucket_of (cap_of s) (req_string r))) = Some a"
    and "lock_of s a \<noteq> Lock_free"
  shows "set_request me r resp s = Return ((- 1, resp\<lparr>resp_code := KEY_ERROR\<rparr>), s)"
proof -
  from table_inv_obtain [OF assms(1)] obtain t where t: "ht s = Ht_live t" "table_ok s t bs"
    "ht_capacity t \<noteq> 0" "length (ht_items t) = unat (ht_capacity t)"
    "length (ht_locks t) = unat (ht_capacity t)"
    "\<And>b. b < unat (ht_capacity t) \<Longrightarrow> \<not> ht_locks t ! b"
    "\<And>q. bucket_of (ht_capacity t) q < unat (ht_capacity t)" by blast
  from assms(4) obtain it where it: "cells s a = Some it" "item_rwlock it \<noteq> Lock_free"
    by (cases "cells s a") (auto simp: lock_of_def)
  from assms(3) t(1) have f: "find (matches s (unat (req_key_len r)) (req_string r))
      (bs (bucket_of (ht_capacity t) (req_string r))) = Some a" by simp
  from get_key_entry_found [OF t(1,2) t(6) [OF t(7)] request_fits_cstr [OF assms(2)] f]
  show ?thesis by (rule set_request_busy [OF _ it])
qed

lemma set_request_locked_is_key_error_witness:
  "set_request 1 (plain_request SET (bytes ''a'') []) zero_response (sample (Read_held [2])) =
    Return ((- 1, zero_response\<lparr>resp_code := KEY_ERROR\<rparr>), sample (Read_held [2]))"
proof -
  have k: "0 \<notin> set (bytes ''a'')" "length (bytes ''a'') < KEY_SIZE" by (simp_all add: bytes_def KEY_SIZE_def)
  have fits: "request_fits (plain_request SET (bytes ''a'') [])"
    using plain_request_ok [OF k, of "[]"] by (simp add: request_ok_def)
  have "find (matches (sample (Read_held [2])) (req_prefix (plain_request SET (bytes ''a'') []))
      (req_string (plain_request SET (bytes ''a'') []))) [0] = Some 0"
    using k by (simp add: matches_def sample_key)
  from set_request_locked_is_key_error [OF sample_inv fits this, of 1 zero_response] show ?thesis
    by (simp add: lock_of_def sample_def sample_item_def)
qed

lemma write_buf_ub [cmd_run]:
  "blocks s a = Some b \<Longrightarrow> f b = Undefined u \<Longrightarrow> write_buf (Some a) f s = Undefined u"
  by (simp add: write_buf_def)

lemma set_request_too_long_value:
  assumes rep: "represents s cap tab" and q: "cstr (req_string r) (req_key r)"
    and len: "length (req_key r) = KEY_SIZE" "req_prefix r \<le> KEY_SIZE" and msg: "MSG_SIZE < unat (req_msg_len r)"
  shows "set_request me r resp s = Undefined Out_of_bounds"
proof -
  from get_key_entry_represents [OF rep q len] obtain e s1 where
    e: "get_key_entry (req_key r) (req_key_len r) s = Return (e, s1)" "lock_of s1 e = Lock_free" "item_ok s1 e"
    by blast
  then obtain it where "cells s1 e = Some it" "item_rwlock it = Lock_free"
    by (auto simp: item_ok_def lock_of_def)
  with e(1) msg show ?thesis by (simp add: set_request_def cmd_run memcpy_def)
qed

lemma new_entry_too_long_key:
  assumes "KEY_SIZE < unat n" and "length key = KEY_SIZE"
  shows "new_entry b h key n s = Undefined Out_of_bounds"
  using assms by (simp add: new_entry_def cmd_run memcpy_def)

lemma get_key_entry_too_long_key:
  assumes op: "opened s t bs cap tab" and q: "cstr q key"
    and len: "length key = KEY_SIZE" "KEY_SIZE < unat n"
    and none: "find (matches s (unat n) q) (bs (bucket_of cap q)) = None"
  shows "get_key_entry key n s = Undefined Out_of_bounds"
proof -
  let ?b = "bucket_of cap q"
  note b = opened_index [OF op, of q]
  have t: "ht s = Ht_live t" "ht_capacity t = cap" "table_ok s t bs" using op by (simp_all add: opened_def)
  let ?t = "t\<lparr>ht_locks := (ht_locks t)[?b := True]\<rparr>"
  have "ht_capacity t \<noteq> 0" "?b < length (ht_locks t)"
    using table_ok_cap [OF t(3)] table_ok_index(2) [OF t(3), of q] t(2) by simp_all
  with t q none b len show ?thesis
    by (simp add: get_key_entry_def cmd_run search_run [where t = ?t] new_entry_too_long_key)
qed

text \<open>
  C26: the lengths of a request are not checked. A SET whose \<open>msg_len\<close> exceeds the 256 bytes of a
  value buffer writes past its end, and a SET whose \<open>key_len\<close> exceeds the 64 bytes of the key field
  reads past its end when the key is new.
\<close>

theorem set_request_out_of_bounds:
  assumes rep: "represents s cap tab" and q: "cstr q (req_key r)" and len: "length (req_key r) = KEY_SIZE"
    and bad: "(req_prefix r \<le> KEY_SIZE \<and> MSG_SIZE < unat (req_msg_len r)) \<or>
      (KEY_SIZE < req_prefix r \<and>
       \<not> list_ex (key_match (req_prefix r) q) (tab (bucket_of cap q)))"
  shows "set_request me r resp s = Undefined Out_of_bounds"
proof (cases "KEY_SIZE < req_prefix r")
  case False
  then show ?thesis using set_request_too_long_value [OF rep _ len] q bad by auto
next
  case True
  from rep obtain t bs where op: "opened s t bs cap tab" by (auto simp: represents_opened)
  have "tab (bucket_of cap q) = entries s bs (bucket_of cap q)"
    using op opened_index(2) [OF op, of q] by (simp add: opened_def)
  moreover have "find (key_match (req_prefix r) q) (tab (bucket_of cap q)) = None"
    using bad True by (metis list_ex_find not_le)
  ultimately have "find (matches s (req_prefix r) q) (bs (bucket_of cap q)) = None"
    by (simp add: find_entries)
  from get_key_entry_too_long_key [OF op q len True this] show ?thesis
    by (simp add: set_request_def cmd_run)
qed

theorem set_request_out_of_bounds_witness:
  "set_request 1 ((plain_request SET (bytes ''k'') [])\<lparr>req_msg_len := 257\<rparr>) zero_response start_memory =
    Undefined Out_of_bounds"
proof -
  let ?r = "(plain_request SET (bytes ''k'') [])\<lparr>req_msg_len := 257\<rparr>"
  have "cstr (bytes ''k'') (req_key ?r)"
    using cstr_pad_to [of "bytes ''k''" KEY_SIZE] by (simp add: plain_request_def bytes_def KEY_SIZE_def)
  moreover have "length (req_key ?r) = KEY_SIZE" by (simp add: plain_request_def)
  ultimately show ?thesis
    by (rule set_request_out_of_bounds [OF start_represents])
       (simp add: plain_request_def bytes_def KEY_SIZE_def MSG_SIZE_def)
qed

text \<open>
  A key field without a terminating zero makes \<open>hash\<close> run past its end, in all three requests.
\<close>

lemma unterminated_key_is_undefined:
  assumes "0 \<notin> set (req_key r)"
  shows "set_request me r resp s = Undefined Out_of_bounds \<and>
    get_request me r resp s = Undefined Out_of_bounds \<and>
    del_request me r resp s = Undefined Out_of_bounds"
proof -
  have g: "get_bucket (req_key r) s' = Undefined Out_of_bounds" for s'
    using hash_loop_unterminated [OF assms] by (simp add: get_bucket_def hash_def cmd_run)
  show ?thesis
    by (simp add: set_request_def get_key_entry_def get_request_def search_def del_request_def
          remove_item_def g cmd_run)
qed

lemma unterminated_key_is_undefined_witness:
  "get_request 1 (zero_request\<lparr>req_key := replicate KEY_SIZE 65\<rparr>) zero_response start_memory =
    Undefined Out_of_bounds"
  using unterminated_key_is_undefined [of "zero_request\<lparr>req_key := replicate KEY_SIZE 65\<rparr>"]
  by (simp add: KEY_SIZE_def)

text \<open>
  A SET of a key that is stored already leaks the old value: its buffer stays allocated and no
  item of the table owns it any more.
\<close>

lemma set_request_leaks_old_value:
  assumes op: "table_inv s bs" "quiet s bs" and fits: "request_fits r"
    and found: "find (matches s (req_prefix r) (req_string r)) (bs (bucket_of (cap_of s) (req_string r))) = Some e"
    and v: "cells s e = Some it" "item_value it = Some v"
  shows "\<exists>s'. set_request me r resp s = Return ((0, resp\<lparr>resp_code := OK\<rparr>), s') \<and> table_inv s' bs \<and>
    blocks s' v = blocks s v \<and> blocks s' v \<noteq> None \<and>
    (\<forall>b < unat (cap_of s). \<forall>a \<in> set (bs b). v \<notin> bufs s' a)"
proof -
  let ?q = "req_string r" and ?b = "bucket_of (cap_of s) (req_string r)"
  let ?s = "written e (req_msg r) (req_msg_len r) s"
  from table_inv_obtain [OF op(1)] obtain t where t: "ht s = Ht_live t" "table_ok s t bs"
    "ht_capacity t \<noteq> 0" "length (ht_items t) = unat (ht_capacity t)"
    "length (ht_locks t) = unat (ht_capacity t)"
    "\<And>b. b < unat (ht_capacity t) \<Longrightarrow> \<not> ht_locks t ! b"
    "\<And>q. bucket_of (ht_capacity t) q < unat (ht_capacity t)" by blast
  note len = fits_lengths [OF fits]
  have cap: "cap_of s = ht_capacity t" using t(1) by simp
  have f: "find (matches s (unat (req_key_len r)) ?q) (bs (bucket_of (ht_capacity t) ?q)) = Some e"
    using found cap by simp
  from find_split [OF found] have e: "e \<in> set (bs ?b)" by auto
  have en: "e \<in> nodes (length (ht_items t)) bs" using e t(4,7) cap by (intro nodes_bucket [of ?b]) simp_all
  have free: "item_rwlock it = Lock_free"
  proof -
    have "lock_of s e = Lock_free" using op(2) e t(7) cap unfolding quiet_def by metis
    with v(1) show ?thesis by (simp add: lock_of_def)
  qed
  have run: "set_request me r resp s = Return ((0, resp\<lparr>resp_code := OK\<rparr>), ?s)"
    using get_key_entry_found [OF t(1,2) t(6) [OF t(7)] request_fits_cstr [OF fits] f]
    by (rule set_request_written [OF _ v(1) free len(3,4)])
  have inv: "table_inv ?s bs"
    using written_table_ok [OF t(2) en len(3,4)] t by (intro table_inv_intro [where t = t]) simp_all
  have eok: "item_ok s e" and bf: "below_fresh s" using t(2) en by (auto simp: table_ok_def)
  have ve: "v \<in> bufs s e" using v by (simp add: bufs_def bufs_of_def)
  have vb: "v < fresh s" "blocks s v \<noteq> None"
    using bufs_below [OF bf eok ve] eok v by (auto simp: item_ok_def value_ok_def)
  have "v \<notin> bufs ?s a" if a: "b < unat (cap_of s)" "a \<in> set (bs b)" for a b
  proof (cases "a = e")
    case True
    have "item_key it \<noteq> Some v" using eok v by (auto simp: item_ok_def value_ok_def)
    then show ?thesis using True v vb by (auto simp: bufs_def bufs_of_def written_def)
  next
    case False
    have an: "a \<in> nodes (length (ht_items t)) bs" using a t(4) cap by (intro nodes_bucket [of b]) simp_all
    then have "item_ok s a" using t(2) by (simp add: table_ok_def)
    from written_item_other(3) [OF False bf this] table_ok_apart(2) [OF t(2) an en False] ve
    show ?thesis by auto
  qed
  with run inv vb show ?thesis by (intro exI [of _ ?s]) auto
qed

lemma set_request_leaks_old_value_witness:
  "\<exists>s'. set_request 1 (plain_request SET (bytes ''a'') (bytes ''w'')) zero_response (sample Lock_free) =
      Return ((0, zero_response), s') \<and> blocks s' 2 \<noteq> None \<and> 2 \<notin> bufs s' 0"
proof -
  have k: "0 \<notin> set (bytes ''a'')" "length (bytes ''a'') < KEY_SIZE"
    and w: "length (bytes ''w'') \<le> MSG_SIZE" by (simp_all add: bytes_def KEY_SIZE_def MSG_SIZE_def)
  let ?r = "plain_request SET (bytes ''a'') (bytes ''w'')"
  have fits: "request_fits ?r" using plain_request_ok [OF k w] by (simp add: request_ok_def)
  have f: "find (matches (sample Lock_free) (req_prefix ?r) (req_string ?r)) [0] = Some 0"
    using k by (simp add: matches_def sample_key)
  have q: "quiet (sample Lock_free) (\<lambda>_. [0])"
    by (simp add: quiet_def lock_of_def sample_def sample_item_def)
  have z: "zero_response\<lparr>resp_code := OK\<rparr> = zero_response" by (simp add: zero_response_def)
  from set_request_leaks_old_value [OF sample_inv q fits f sample_key(2), of 2 1 zero_response]
  show ?thesis by (auto simp: sample_item_def sample_cap z)
qed

section \<open>Initialisation\<close>

lemma init_hashtable_cases:
  assumes "ht s \<noteq> Ht_dangling" and "c \<noteq> 0"
  shows "init_hashtable (a, b, d) c s =
    (if \<not> a then Return (- 1, s\<lparr>ht := Ht_null\<rparr>)
     else if \<not> b then Return (- 2, s\<lparr>ht := Ht_dangling\<rparr>)
     else if \<not> d then Return (- 3, s\<lparr>ht := Ht_dangling\<rparr>)
     else Return (0, s\<lparr>ht := Ht_live \<lparr>ht_capacity = ucast c, ht_items = replicate (unat c) None,
                       ht_locks = replicate (unat c) False\<rparr>\<rparr>))"
  using assms by (cases "ht s") (auto simp: init_hashtable_def cmd_run)

text \<open>
  \<open>init_hashtable\<close> in every case of its allocations. With capacity 0 nothing is checked. After
  a failure -2 or -3 the global \<open>ht\<close> points to freed memory, and every later request is undefined.
\<close>

lemma init_hashtable_results:
  assumes "ht s \<noteq> Ht_dangling" and "c \<noteq> 0"
  shows "init_hashtable (a, b, d) c s =
    (if \<not> a then Return (- 1, s\<lparr>ht := Ht_null\<rparr>)
     else if \<not> b then Return (- 2, s\<lparr>ht := Ht_dangling\<rparr>)
     else if \<not> d then Return (- 3, s\<lparr>ht := Ht_dangling\<rparr>)
     else Return (0, s\<lparr>ht := Ht_live \<lparr>ht_capacity = ucast c, ht_items = replicate (unat c) None,
                       ht_locks = replicate (unat c) False\<rparr>\<rparr>))"
  by (rule init_hashtable_cases [OF assms])

lemma init_hashtable_results_witness:
  "init_hashtable (True, False, True) 1024 start_memory = Return (- 2, start_memory\<lparr>ht := Ht_dangling\<rparr>)"
  by (subst init_hashtable_results) (simp_all add: start_memory_def)

text \<open>
  C27: a reset whose second or third allocation fails leaves the server with a dangling table: it
  still answers \<open>OK\<close>, and the next GET, SET or DEL uses freed memory.
\<close>

theorem failed_reset_is_use_after_free:
  assumes "stores s m" and "req_method r = RST" and "0 \<in> set (req_key r')"
    and "req_method r' \<in> {SET, GET, DEL}" and "\<not> b \<or> \<not> d"
  shows "cseq (serve_request me (True, b, d) r zero_response)
      (serve_request me oks r' zero_response) s = Undefined Use_after_free \<and>
    (\<exists>s'. serve_request me (True, b, d) r zero_response s = Return (zero_response\<lparr>resp_code := OK\<rparr>, s'))"
proof -
  have "ht s \<noteq> Ht_dangling" using stores_live [OF assms(1)] by simp
  then obtain s' where s': "serve_request me (True, b, d) r zero_response s =
      Return (zero_response\<lparr>resp_code := OK\<rparr>, s')" "ht s' = Ht_dangling"
    using assms(2,5) init_hashtable_cases [of s HT_CAPACITY True b d]
    by (cases b; cases d) (auto simp: serve_request_def cmd_run HT_CAPACITY_def)
  have "get_bucket (req_key r') s' = Undefined Use_after_free"
    using hash_cstr [OF cstr_cstr_of [OF assms(3)]] s'(2) by (simp add: get_bucket_def cmd_run the_ht_def)
  then have "serve_request me oks r' zero_response s' = Undefined Use_after_free"
    using assms(4) by (auto simp: serve_request_def set_request_def get_request_def del_request_def
        get_key_entry_def search_def remove_item_def cmd_run)
  with s' show ?thesis by (simp add: cmd_run)
qed

theorem failed_reset_is_use_after_free_witness:
  "cseq (serve_request 1 (True, True, False) (plain_request RST [] []) zero_response)
      (serve_request 1 (True, True, True) (plain_request GET (bytes ''k'') []) zero_response) start_memory =
    Undefined Use_after_free"
  by (rule failed_reset_is_use_after_free [OF start_stores, THEN conjunct1])
     (simp_all add: plain_request_def pad_to_def bytes_def KEY_SIZE_def)

text \<open>
  A reset (and any later \<open>init_hashtable\<close>) frees the array of buckets but no item: every item
  and every buffer the old table held stays allocated, and none belongs to the new table.
\<close>

lemma reset_leaks_all_items:
  assumes "stores s m" and "req_method r = RST"
  shows "\<exists>s'. serve_request me (True, True, True) r zero_response s =
      Return (zero_response\<lparr>resp_code := OK\<rparr>, s') \<and> stores s' Map.empty \<and>
      cells s' = cells s \<and> blocks s' = blocks s \<and> (\<exists>t. ht s' = Ht_live t \<and> set (ht_items t) = {None})"
proof -
  have live: "ht s \<noteq> Ht_dangling" "below_fresh s" using stores_live [OF assms(1)] by simp_all
  from init_hashtable_succeeds [OF live(1), of HT_CAPACITY] fresh_table_stores [OF live(2)] assms(2)
  show ?thesis by (auto simp: serve_request_def cmd_run HT_CAPACITY_def)
qed

lemma reset_leaks_all_items_witness:
  "\<exists>s'. serve_request 1 (True, True, True) (plain_request RST [] []) zero_response start_memory =
      Return (zero_response\<lparr>resp_code := OK\<rparr>, s') \<and> stores s' Map.empty"
  using reset_leaks_all_items [OF start_stores, of "plain_request RST [] []" 1] by auto

end
