(* ===== verification/Benchmark_Requests.thy ===== *)
theory Benchmark_Requests
  imports Instance KV_Properties
begin

text \<open>
  The requests the benchmark makes: they fit their buffers for every \<open>int\<close>, keys of different
  operations are different, and the keys of the first thousand operations of any clients do not get in
  each other's way in the hash table, so that the server answers them as a map. The response the client
  expects to a GET is the one the server gives.
\<close>

section \<open>The strings\<close>

lemma decimal_length_int: "c_int n \<Longrightarrow> length (decimal n) \<le> 11"
  by (rule decimal_length) (auto simp: abs_less_iff)

lemma benchmark_strings_length:
  assumes "c_int nr" and "c_int count"
  shows "length (benchmark_key nr count) < KEY_SIZE" "length (benchmark_message nr count) < MSG_SIZE"
  using decimal_length_int [OF assms(1)] decimal_length_int [OF assms(2)]
  by (simp_all add: benchmark_key_def benchmark_message_def bytes_def KEY_SIZE_def MSG_SIZE_def)

lemma benchmark_strings_nonzero:
  "0 \<notin> set (benchmark_key nr count)" "0 \<notin> set (benchmark_message nr count)"
  by (simp_all add: benchmark_key_def benchmark_message_def decimal_nonzero bytes_def)

lemma sprintf_into_run:
  assumes "length str < length buf" and "0 \<notin> set str"
  shows "\<exists>buf'. sprintf_into buf str = Return buf' \<and> cstr str buf' \<and> length buf' = length buf"
  using assms by (simp add: sprintf_into_def)

section \<open>The requests\<close>

text \<open>\<open>made m nr count r\<close>: the fields of \<open>r\<close> are those of operation \<open>count\<close> of instance \<open>nr\<close>.\<close>

definition made :: "request_method \<Rightarrow> int \<Rightarrow> int \<Rightarrow> request \<Rightarrow> bool" where
  "made m nr count r \<longleftrightarrow>
     req_method r = m \<and> request_ok r \<and> req_string r = benchmark_key nr count \<and> req_client_id r = nr \<and>
     (m = SET \<longrightarrow> req_value r = benchmark_message nr count)"

lemma request_parts:
  assumes "cstr k (req_key r)" and "unat (req_key_len r) = length k" and "unat (req_msg_len r) \<le> MSG_SIZE"
    and "length (req_key r) = KEY_SIZE" and "length (req_msg r) = MSG_SIZE"
  shows "request_ok r" "req_string r = k"
proof -
  show s: "req_string r = k" using assms(1) by (rule cstr_of_cstr)
  have "0 \<in> set (req_key r)" using assms(1) by (auto simp: cstr_def)
  with assms s cstr_length [OF assms(1)] show "request_ok r"
    by (simp add: request_ok_def request_fits_def request_wf_def)
qed

lemma get_into_run:
  assumes "request_wf r" and "c_int nr" and "c_int count"
  shows "\<exists>r'. get_into nr count r = Return r' \<and> request_wf r' \<and> made GET nr count r' \<and>
    req_connection_close r' = req_connection_close r"
proof -
  note len = benchmark_strings_length(1) [OF assms(2,3)] and nz = benchmark_strings_nonzero(1) [of nr count]
  from sprintf_into_run [of "benchmark_key nr count" "req_key r"] assms(1) len nz
  obtain key where key: "sprintf_into (req_key r) (benchmark_key nr count) = Return key"
    "cstr (benchmark_key nr count) key" "length key = KEY_SIZE" by (auto simp: request_wf_def)
  let ?n = "length (benchmark_key nr count)"
  let ?r = "r\<lparr>req_method := GET, req_key := key, req_key_len := of_nat ?n, req_msg_len := 0, req_client_id := nr\<rparr>"
  have n: "unat (of_nat ?n :: size_t) = ?n" using len by (intro unat_of_small) (simp add: KEY_SIZE_def)
  have "request_ok ?r" "req_string ?r = benchmark_key nr count"
    using request_parts [of "benchmark_key nr count" ?r] key n assms(1) by (simp_all add: request_wf_def)
  with key(1,3) strlen_cstr [OF key(2)] assms(1) show ?thesis
    by (simp add: get_into_def made_def request_wf_def)
qed

lemma set_into_run:
  assumes "request_wf r" and "c_int nr" and "c_int count"
  shows "\<exists>r'. set_into nr count r = Return r' \<and> request_wf r' \<and> made SET nr count r' \<and>
    req_connection_close r' = req_connection_close r"
proof -
  let ?k = "benchmark_key nr count" and ?v = "benchmark_message nr count"
  note len = benchmark_strings_length [OF assms(2,3)] and nz = benchmark_strings_nonzero(1) [of nr count] benchmark_strings_nonzero(2) [of nr count]
  from sprintf_into_run [of ?k "req_key r"] assms(1) len(1) nz(1)
  obtain key where key: "sprintf_into (req_key r) ?k = Return key" "cstr ?k key" "length key = KEY_SIZE"
    by (auto simp: request_wf_def)
  from sprintf_into_run [of ?v "req_msg r"] assms(1) len(2) nz(2)
  obtain msg where msg: "sprintf_into (req_msg r) ?v = Return msg" "cstr ?v msg" "length msg = MSG_SIZE"
    by (auto simp: request_wf_def)
  let ?r = "r\<lparr>req_method := SET, req_key := key, req_key_len := of_nat (length ?k), req_msg := msg,
    req_msg_len := of_nat (length ?v), req_client_id := nr\<rparr>"
  have n: "unat (of_nat (length ?k) :: size_t) = length ?k" "unat (of_nat (length ?v) :: size_t) = length ?v"
    using len by (simp_all add: unat_of_small KEY_SIZE_def MSG_SIZE_def)
  have "request_ok ?r" "req_string ?r = ?k"
    using request_parts [of ?k ?r] key msg n len by simp_all
  with key(1,3) strlen_cstr [OF key(2)] msg(1,3) strlen_cstr [OF msg(2)] cstr_take [OF msg(2)] n(2) show ?thesis
    by (simp add: set_into_def made_def request_wf_def req_value_def)
qed

text \<open>
  C34: whatever is in the request buffer and for all values of the two \<open>int\<close>s, \<open>sprintf\<close> stays within
  the key and message fields, and the request satisfies what the server relies on: a key with its
  terminating zero, of length \<open>key_len\<close>, and a message of at most 256 bytes.
\<close>

theorem benchmark_requests_fit:
  assumes "request_wf r" and "c_int nr" and "c_int count"
  shows "\<exists>g s. get_into nr count r = Return g \<and> made GET nr count g \<and>
    set_into nr count r = Return s \<and> made SET nr count s"
  using get_into_run [OF assms] set_into_run [OF assms] by blast

theorem benchmark_requests_fit_witness:
  "\<exists>g s. get_into (- 2147483648) 2147483647 zero_request = Return g \<and>
     made GET (- 2147483648) 2147483647 g \<and>
     set_into (- 2147483648) 2147483647 zero_request = Return s \<and> made SET (- 2147483648) 2147483647 s"
  by (rule benchmark_requests_fit) simp_all

text \<open>What \<open>make_expected_response\<close> makes for a GET.\<close>

lemma expected_message:
  assumes "req_method r = GET" and "c_int (count - 1)"
  shows "make_expected_response zero_response r count =
    Return (got_response (benchmark_message 0 (count - 1)) zero_response)"
proof -
  let ?v = "benchmark_message 0 (count - 1)"
  note len = benchmark_strings_length(2) [OF _ assms(2), of 0] and nz = benchmark_strings_nonzero(2) [of 0 "count - 1"]
  have buf: "length (resp_msg zero_response) = MSG_SIZE" "resp_msg zero_response = replicate MSG_SIZE 0"
    by (simp_all add: zero_response_def)
  have pad: "0 # replicate (MSG_SIZE - Suc (length ?v)) 0 = replicate (MSG_SIZE - length ?v) (0 :: byte)"
    using len by (simp flip: replicate_Suc add: Suc_diff_Suc)
  have "strlen (?v @ 0 # drop (Suc (length ?v)) (replicate MSG_SIZE 0)) = Return (length ?v)"
    by (intro strlen_cstr cstr_append_zero nz)
  with assms(1) len buf show ?thesis
    by (simp add: make_expected_response_def sprintf_into_def got_response_def pad)
qed

section \<open>The keys do not get in each other's way\<close>

text \<open>The characters of a decimal number, after the first, are digits.\<close>

definition digits :: "byte set" where
  "digits = {48, 49, 50, 51, 52, 53, 54, 55, 56, 57}"

lemma digit_in_digits: "d < 10 \<Longrightarrow> (of_nat (48 + d) :: byte) \<in> digits"
proof -
  assume "d < 10"
  then have "d \<in> set [0..<10]" by simp
  then have "(of_nat (48 + d) :: byte) \<in> (\<lambda>d. of_nat (48 + d)) ` set [0..<10]" by blast
  then show ?thesis by (simp add: digits_def upt_rec)
qed

lemma decimal_nat_digits: "set (decimal_nat n) \<subseteq> digits"
proof (induction n rule: decimal_nat.induct)
  case (1 n)
  have l: "(of_nat (48 + n mod 10) :: byte) \<in> digits" by (rule digit_in_digits) simp
  show ?case
  proof (cases "n < 10")
    case True
    then have "(of_nat (48 + n) :: byte) \<in> digits" by (rule digit_in_digits)
    with True show ?thesis by (subst decimal_nat.simps) (simp del: of_nat_add)
  next
    case False
    with "1.IH" l show ?thesis by (subst decimal_nat.simps) (simp del: of_nat_add)
  qed
qed

lemma decimal_nonempty: "decimal i \<noteq> []" "decimal_nat n \<noteq> []"
proof -
  show n: "decimal_nat n \<noteq> []" for n by (subst decimal_nat.simps) simp
  show "decimal i \<noteq> []" by (simp add: decimal_def n)
qed

lemma decimal_tail_digits: "set (tl (decimal i)) \<subseteq> digits"
  using decimal_nat_digits [of "nat i"] decimal_nat_digits [of "nat (- i)"] decimal_nonempty(2) [of "nat i"]
  by (auto simp: decimal_def dest: list.set_sel(2))

lemma decimal_no_space: "32 \<notin> set (decimal i)"
  using decimal_nat_digits [of "nat i"] decimal_nat_digits [of "nat (- i)"]
  by (auto simp: decimal_def digits_def)

text \<open>Appending digits to a key moves it to another bucket.\<close>

definition hash_mod :: "byte list \<Rightarrow> int" where
  "hash_mod k = uint (djb2 k) mod 1024"

lemma key_bucket_hash_mod: "key_bucket k = key_bucket q \<longleftrightarrow> hash_mod k = hash_mod q"
proof -
  have "key_bucket k = nat (hash_mod k)" for k
    by (simp add: key_bucket_def bucket_of_def hash_mod_def HT_CAPACITY_def unat_mod nat_mod_distrib)
  moreover have "0 \<le> hash_mod k" for k by (simp add: hash_mod_def)
  ultimately show ?thesis by (metis nat_eq_iff2)
qed

lemma hash_mod_snoc:
  assumes "c \<in> digits"
  shows "hash_mod (k @ [c]) = (33 * hash_mod k + uint c) mod 1024"
proof -
  have c: "scast c = (word_of_int (uint c) :: u32)" using assms by (auto simp: digits_def)
  have "33 * w + word_of_int v = (word_of_int (33 * uint w + v) :: u32)" for w :: u32 and v by simp
  then have "uint (33 * w + word_of_int v :: u32) = (33 * uint w + v) mod 2 ^ 32" for w :: u32 and v
    by (simp only: uint_word_of_int) simp
  then have "uint (33 * w + word_of_int v :: u32) mod 1024 = (33 * uint w + v) mod 1024" for w :: u32 and v
    by (simp add: mod_mod_cancel)
  then have "hash_mod (k @ [c]) = (33 * uint (djb2 k) + uint c) mod 1024"
    by (simp only: hash_mod_def djb2.simps foldl_append foldl.simps c)
  then show ?thesis unfolding hash_mod_def by (metis mod_add_left_eq mod_mult_right_eq)
qed

lemma digit_range: "c \<in> digits \<Longrightarrow> 48 \<le> uint c \<and> uint c \<le> 57"
  by (auto simp: digits_def)

lemma extended_key_other_bucket:
  assumes "ds \<noteq> []" and "length ds \<le> 2" and "set ds \<subseteq> digits"
  shows "hash_mod (k @ ds) \<noteq> hash_mod k"
proof -
  have range: "0 \<le> hash_mod k" "hash_mod k < 1024" by (simp_all add: hash_mod_def)
  from assms consider (one) c where "ds = [c]" "c \<in> digits"
    | (two) c d where "ds = [c, d]" "c \<in> digits" "d \<in> digits"
    by (cases ds; cases "tl ds") auto
  then show ?thesis
  proof cases
    case one
    have "(33 * x + v) mod 1024 \<noteq> x" if "48 \<le> v" "v \<le> 57" for x v :: int
    proof
      assume "(33 * x + v) mod 1024 = x"
      then obtain q where "33 * x + v = 1024 * q + x" by (metis mult_div_mod_eq)
      then have "v = 32 * (32 * q - x)" by simp
      then have "v mod 32 = 0" by simp
      with that show False by presburger
    qed
    with one range digit_range show ?thesis by (simp add: hash_mod_snoc)
  next
    case two
    have "t mod 64 = 0" if m: "(1089 * x + t) mod 1024 = x" for x t :: int
    proof -
      obtain q where "1089 * x + t = 1024 * q + x" using m by (metis mult_div_mod_eq)
      then have "t = 64 * (16 * q - 17 * x)" by simp
      then show ?thesis by simp
    qed
    moreover have "(33 * v + w) mod 64 \<noteq> 0" if "48 \<le> v" "v \<le> 57" "48 \<le> w" "w \<le> 57" for v w :: int
    proof -
      have "v = 48 \<or> v = 49 \<or> v = 50 \<or> v = 51 \<or> v = 52 \<or> v = 53 \<or> v = 54 \<or> v = 55 \<or> v = 56 \<or> v = 57"
        using that(1,2) by presburger
      with that(3,4) show ?thesis by (elim disjE; simp; presburger)
    qed
    moreover have "(33 * (y mod 1024) + z) mod 1024 = (33 * y + z) mod 1024" for y z :: int
      by (metis mod_add_left_eq mod_mult_right_eq)
    then have "hash_mod (k @ ds) = (33 * (33 * hash_mod k + uint c) + uint d) mod 1024"
      using hash_mod_snoc [OF two(3), of "k @ [c]"] hash_mod_snoc [OF two(2), of k] two(1) by simp
    then have "hash_mod (k @ ds) = (1089 * hash_mod k + (33 * uint c + uint d)) mod 1024"
      by (simp add: distrib_left add.assoc)
    ultimately show ?thesis using range digit_range two by metis
  qed
qed

lemma take_field:
  "32 \<notin> set a \<Longrightarrow> 32 \<notin> set b \<Longrightarrow> take n (b @ (32 :: byte) # r') = a @ 32 # r \<Longrightarrow>
     a = b \<and> take (n - Suc (length a)) r' = r"
proof (induction a arbitrary: b n)
  case Nil
  then show ?case by (cases b; cases n) auto
next
  case (Cons x a)
  then show ?case by (cases b; cases n) auto
qed

text \<open>A benchmark key that starts with another one has the same number and more digits in the count.\<close>

lemma benchmark_key_extension:
  assumes "take (length (benchmark_key nr c)) (benchmark_key nr' c') = benchmark_key nr c"
  shows "\<exists>ds. benchmark_key nr' c' = benchmark_key nr c @ ds \<and> decimal c' = decimal c @ ds"
proof -
  let ?p = "bytes ''Key from instance ''" and ?q = "bytes ''count ''"
  have key: "benchmark_key i n = ?p @ decimal i @ 32 # ?q @ decimal n" for i n
    by (simp add: benchmark_key_def bytes_def)
  let ?n = "length (decimal nr) + Suc (length ?q + length (decimal c))"
  have "take ?n (decimal nr' @ 32 # ?q @ decimal c') = decimal nr @ 32 # ?q @ decimal c"
    using assms by (simp add: key)
  from take_field [OF decimal_no_space decimal_no_space this]
  have "decimal nr = decimal nr'" "take (length (decimal c)) (decimal c') = decimal c" by simp_all
  then show ?thesis
    using append_take_drop_id [of "length (decimal c)" "decimal c'"]
    by (intro exI [of _ "drop (length (decimal c)) (decimal c')"]) (simp add: key)
qed

lemma decimal_length_3: "- 1 \<le> c \<Longrightarrow> c < 1000 \<Longrightarrow> length (decimal c) \<le> 3"
  using decimal_nat_length [of 3 "nat c"] decimal_nat_length [of 1 1]
  by (cases "c = - 1") (simp_all add: decimal_def nat_less_iff)

lemma benchmark_keys_apart:
  assumes "- 1 \<le> c'" and "c' < 1000"
    and "key_bucket (benchmark_key nr' c') = key_bucket (benchmark_key nr c)"
    and "take (length (benchmark_key nr c)) (benchmark_key nr' c') = benchmark_key nr c"
  shows "benchmark_key nr' c' = benchmark_key nr c"
proof -
  from benchmark_key_extension [OF assms(4)] obtain ds where
    ds: "benchmark_key nr' c' = benchmark_key nr c @ ds" "decimal c' = decimal c @ ds" by blast
  obtain x xs where x: "decimal c = x # xs" using decimal_nonempty(1) [of c] by (cases "decimal c") auto
  have "set ds \<subseteq> digits" using decimal_tail_digits [of c'] ds(2) x by simp
  moreover have "length ds \<le> 2" using decimal_length_3 [OF assms(1,2)] ds(2) x by simp
  ultimately have "ds = []"
    using extended_key_other_bucket [of ds "benchmark_key nr c"] assms(3) ds(1)
    by (auto simp: key_bucket_hash_mod)
  with ds(1) show ?thesis by simp
qed

section \<open>The server answers the benchmark as a map\<close>

text \<open>
  A request of the benchmark among the first thousand operations of some client: a SET of operation
  \<open>count\<close>, or a GET of the key of an earlier one (of \<open>- 1\<close> when there is none).
\<close>

definition benchmark_request :: "request \<Rightarrow> bool" where
  "benchmark_request r \<longleftrightarrow>
     (\<exists>nr count. made SET nr count r \<and> 0 \<le> count \<and> count < 1000) \<or>
     (\<exists>nr count. made GET nr count r \<and> - 1 \<le> count \<and> count < 1000)"

definition benchmark_store :: "(byte list \<rightharpoonup> byte list) \<Rightarrow> bool" where
  "benchmark_store m \<longleftrightarrow> (\<forall>k \<in> dom m. \<exists>nr count. k = benchmark_key nr count \<and> 0 \<le> count \<and> count < 1000)"

lemma benchmark_request_served:
  assumes "benchmark_request r" and "benchmark_store m"
  shows "request_served r m" "benchmark_store (snd (kv_spec r m))"
proof -
  from assms(1) obtain nr count where r: "request_ok r" "req_string r = benchmark_key nr count"
    "req_method r = SET \<and> 0 \<le> count \<or> req_method r = GET" "count < 1000"
    by (auto simp: benchmark_request_def made_def)
  have "k = benchmark_key nr count"
    if "k \<in> dom m" "key_bucket k = key_bucket (benchmark_key nr count)"
      "take (length (benchmark_key nr count)) k = benchmark_key nr count" for k
  proof -
    from that(1) assms(2) obtain nr' count'
      where k: "k = benchmark_key nr' count'" "0 \<le> count'" "count' < 1000"
      unfolding benchmark_store_def by blast
    with benchmark_keys_apart [of count' nr' nr count] that(2,3) show ?thesis by simp
  qed
  with r show "request_served r m" by (auto simp: request_served_def apart_def)
  show "benchmark_store (snd (kv_spec r m))"
  proof (cases "req_method r = SET")
    case True
    with r have "snd (kv_spec r m) = m(benchmark_key nr count \<mapsto> req_value r)" "0 \<le> count"
      by (simp_all add: kv_spec_def)
    with assms(2) r(4) show ?thesis by (auto simp: benchmark_store_def)
  next
    case False
    with r have "snd (kv_spec r m) = m" by (simp add: kv_spec_def)
    with assms(2) show ?thesis by simp
  qed
qed

lemma benchmark_requests_served:
  "\<forall>r \<in> set rs. benchmark_request r \<Longrightarrow> benchmark_store m \<Longrightarrow> ok_all kv_spec request_served rs m"
  using benchmark_request_served by (induction rs arbitrary: m) auto

text \<open>
  C28: the server answers whatever benchmark clients send it, interleaved in any way, as a finite map
  answers it, as long as no client counts to a thousand: the keys of these operations do not get in each
  other's way, because appending one or two digits to a key moves it to another bucket.
\<close>

theorem benchmark_served_as_map:
  assumes "\<forall>r \<in> set rs. benchmark_request r"
  shows "\<exists>s'. cseq (init_hashtable (True, True, True) HT_CAPACITY)
      (run_all (\<lambda>r. serve_request me (True, True, True) r zero_response) rs) (empty_memory j) =
        Return (fst (spec_all kv_spec rs Map.empty), s')"
proof -
  have "benchmark_store Map.empty" by (simp add: benchmark_store_def)
  with assms have "ok_all kv_spec request_served rs Map.empty" by (rule benchmark_requests_served)
  from init_hashtable_stores [OF empty_memory_start] obtain s1
    where "init_hashtable (True, True, True) HT_CAPACITY (empty_memory j) = Return (0, s1)"
      "stores s1 Map.empty" by blast
  with serving.run_refines [OF this(2) \<open>ok_all _ _ _ _\<close>, of me] show ?thesis by (auto simp: cmd_run)
qed

theorem benchmark_served_as_map_witness:
  "\<exists>r q s'. set_into 3 99 zero_request = Return r \<and> get_into 3 99 r = Return q \<and>
     cseq (init_hashtable (True, True, True) HT_CAPACITY)
       (run_all (\<lambda>r. serve_request 0 (True, True, True) r zero_response) [r, q]) (empty_memory (\<lambda>_ _. 7)) =
       Return ([zero_response\<lparr>resp_code := OK\<rparr>, got_response (benchmark_message 3 99) zero_response], s')"
proof -
  obtain r where r: "set_into 3 99 zero_request = Return r" "request_wf r" "made SET 3 99 r"
    using set_into_run [of zero_request 3 99] by auto
  obtain q where q: "get_into 3 99 r = Return q" "made GET 3 99 q"
    using get_into_run [OF r(2), of 3 99] by auto
  have "\<exists>nr count. made SET nr count r \<and> 0 \<le> count \<and> count < 1000"
    using r(3) by (intro exI [of _ 3] exI [of _ 99]) simp
  moreover have "\<exists>nr count. made GET nr count q \<and> - 1 \<le> count \<and> count < 1000"
    using q(2) by (intro exI [of _ 3] exI [of _ 99]) simp
  ultimately have "\<forall>x \<in> set [r, q]. benchmark_request x" by (simp add: benchmark_request_def)
  from benchmark_served_as_map [OF this, of 0 "\<lambda>_ _. 7"] r q show ?thesis
    by (auto simp: made_def kv_spec_def)
qed

lemma benchmark_key_message:
  assumes "benchmark_key nr' c' = benchmark_key nr c"
  shows "benchmark_message nr' c' = benchmark_message nr c"
proof -
  from benchmark_key_extension [of nr c nr' c'] assms have c: "decimal c' = decimal c" by auto
  with assms have "decimal nr' = decimal nr" by (simp add: benchmark_key_def)
  with c show ?thesis by (simp add: benchmark_message_def)
qed

section \<open>What a client may expect\<close>

text \<open>Under its key the benchmark only ever stores its message, and no request of the benchmark removes it.\<close>

definition own_messages :: "(byte list \<rightharpoonup> byte list) \<Rightarrow> bool" where
  "own_messages m \<longleftrightarrow> (\<forall>nr count v. m (benchmark_key nr count) = Some v \<longrightarrow> v = benchmark_message nr count)"

lemma benchmark_request_keeps:
  assumes "benchmark_request r" and "own_messages m"
  shows "own_messages (snd (kv_spec r m))"
    and "m k \<noteq> None \<Longrightarrow> snd (kv_spec r m) k \<noteq> None"
    and "made SET nr count r \<Longrightarrow> snd (kv_spec r m) (benchmark_key nr count) \<noteq> None"
proof -
  show "own_messages (snd (kv_spec r m))"
  proof (cases "req_method r = SET")
    case True
    with assms(1) obtain nr count where "made SET nr count r" by (auto simp: benchmark_request_def made_def)
    with True have "snd (kv_spec r m) = m(benchmark_key nr count \<mapsto> benchmark_message nr count)"
      by (simp add: kv_spec_def made_def)
    moreover have "own_messages (m(benchmark_key nr count \<mapsto> benchmark_message nr count))"
      unfolding own_messages_def
    proof (intro allI impI)
      fix n c v
      assume v: "(m(benchmark_key nr count \<mapsto> benchmark_message nr count)) (benchmark_key n c) = Some v"
      show "v = benchmark_message n c"
      proof (cases "benchmark_key n c = benchmark_key nr count")
        case True
        from benchmark_key_message [OF this] True v show ?thesis by simp
      next
        case False
        with v have "m (benchmark_key n c) = Some v" by simp
        with assms(2) show ?thesis unfolding own_messages_def by blast
      qed
    qed
    ultimately show ?thesis by simp
  next
    case False
    with assms(1) have "req_method r = GET" by (auto simp: benchmark_request_def made_def)
    with assms(2) show ?thesis by (simp add: kv_spec_def)
  qed
  have "req_method r \<in> {SET, GET}" using assms(1) by (auto simp: benchmark_request_def made_def)
  then show "m k \<noteq> None \<Longrightarrow> snd (kv_spec r m) k \<noteq> None"
    by (auto simp: kv_spec_def)
  show "made SET nr count r \<Longrightarrow> snd (kv_spec r m) (benchmark_key nr count) \<noteq> None"
    by (simp add: made_def kv_spec_def)
qed

lemma benchmark_message_stays:
  assumes "\<forall>r \<in> set rs. benchmark_request r" and "own_messages m"
    and "m (benchmark_key nr count) \<noteq> None \<or> (\<exists>w \<in> set rs. made SET nr count w)"
  shows "snd (spec_all kv_spec rs m) (benchmark_key nr count) = Some (benchmark_message nr count)"
  using assms
proof (induction rs arbitrary: m)
  case Nil
  then show ?case by (auto simp: own_messages_def)
next
  case (Cons r rs)
  have r: "benchmark_request r" "\<forall>r \<in> set rs. benchmark_request r" using Cons.prems(1) by simp_all
  have "snd (kv_spec r m) (benchmark_key nr count) \<noteq> None \<or> (\<exists>w \<in> set rs. made SET nr count w)"
    using Cons.prems(3) benchmark_request_keeps(2,3) [OF r(1) Cons.prems(2)] by auto
  with Cons.IH [OF r(2) benchmark_request_keeps(1) [OF r(1) Cons.prems(2)]] show ?case by simp
qed

lemma spec_all_append:
  "fst (spec_all spec (rs @ [r]) m) = fst (spec_all spec rs m) @ [fst (spec r (snd (spec_all spec rs m)))]"
  by (induction rs arbitrary: m) simp_all

text \<open>
  C37: once a benchmark client 0 has sent the SET of operation \<open>count - 1\<close>, whatever else benchmark clients
  send before and after it, in whatever order, the server answers the GET of that operation with the
  response \<open>make_expected_response\<close> makes for operation \<open>count\<close>, as long as no client counts to a thousand.
\<close>

theorem expected_response_is_answer:
  assumes "\<forall>r \<in> set rs. benchmark_request r" and "w \<in> set rs" and "made SET 0 (count - 1) w"
    and "made GET 0 (count - 1) r" and "1 \<le> count" and "count \<le> 1000"
  shows "\<exists>answers resp s'. cseq (init_hashtable (True, True, True) HT_CAPACITY)
      (run_all (\<lambda>r. serve_request me (True, True, True) r zero_response) (rs @ [r])) (empty_memory j) =
        Return (answers @ [resp], s') \<and>
    length answers = length rs \<and> make_expected_response zero_response r count = Return resp"
proof -
  let ?m = "snd (spec_all kv_spec rs Map.empty)"
  have "benchmark_request r"
    unfolding benchmark_request_def using assms(4-6) by (intro disjI2 exI [of _ 0] exI [of _ "count - 1"]) simp
  with assms(1) have rs: "\<forall>r \<in> set (rs @ [r]). benchmark_request r" by simp
  have "benchmark_store Map.empty" by (simp add: benchmark_store_def)
  with rs have ok: "ok_all kv_spec request_served (rs @ [r]) Map.empty" by (rule benchmark_requests_served)
  from init_hashtable_stores [OF empty_memory_start] obtain s1 where
    s1: "init_hashtable (True, True, True) HT_CAPACITY (empty_memory j) = Return (0, s1)" "stores s1 Map.empty" by blast
  from serving.run_refines [OF s1(2) ok, of me] obtain s' where
    "run_all (\<lambda>r. serve_request me (True, True, True) r zero_response) (rs @ [r]) s1 =
      Return (fst (spec_all kv_spec rs Map.empty) @ [fst (kv_spec r ?m)], s')" by (auto simp: spec_all_append)
  with s1(1) have "cseq (init_hashtable (True, True, True) HT_CAPACITY)
      (run_all (\<lambda>r. serve_request me (True, True, True) r zero_response) (rs @ [r])) (empty_memory j) =
        Return (fst (spec_all kv_spec rs Map.empty) @ [fst (kv_spec r ?m)], s')" by (simp add: cmd_run)
  moreover have "length (fst (spec_all kv_spec rs m)) = length rs" for m by (induction rs arbitrary: m) simp_all
  moreover have "?m (benchmark_key 0 (count - 1)) = Some (benchmark_message 0 (count - 1))"
    using assms(2,3) by (intro benchmark_message_stays [OF assms(1)]) (auto simp: own_messages_def)
  then have "make_expected_response zero_response r count = Return (fst (kv_spec r ?m))"
    using expected_message [of r count] assms(4-6) by (simp add: made_def kv_spec_def)
  ultimately show ?thesis by blast
qed

text \<open>The witness: the SET and the GET of operation 6, with a SET of another client between them.\<close>

theorem expected_response_is_answer_witness:
  "\<exists>w x r resp answers s'. set_into 0 6 zero_request = Return w \<and> set_into 3 99 w = Return x \<and>
     get_into 0 6 x = Return r \<and> make_expected_response zero_response r 7 = Return resp \<and>
     cseq (init_hashtable (True, True, True) HT_CAPACITY)
       (run_all (\<lambda>r. serve_request 1 (True, True, True) r zero_response) [w, x, r]) (empty_memory (\<lambda>_ _. 7)) =
       Return (answers @ [resp], s')"
proof -
  obtain w where w: "set_into 0 6 zero_request = Return w" "request_wf w" "made SET 0 6 w"
    using set_into_run [of zero_request 0 6] by auto
  obtain x where x: "set_into 3 99 w = Return x" "request_wf x" "made SET 3 99 x"
    using set_into_run [OF w(2), of 3 99] by auto
  obtain r where r: "get_into 0 6 x = Return r" "made GET 0 6 r"
    using get_into_run [OF x(2), of 0 6] by auto
  have "\<exists>nr count. made SET nr count w \<and> 0 \<le> count \<and> count < 1000"
    "\<exists>nr count. made SET nr count x \<and> 0 \<le> count \<and> count < 1000"
    using w(3) x(3) by (intro exI [of _ 0] exI [of _ 6]; simp; fail | intro exI [of _ 3] exI [of _ 99]; simp)+
  then have "\<forall>q \<in> set [w, x]. benchmark_request q" by (simp add: benchmark_request_def)
  moreover have "w \<in> set [w, x]" by simp
  ultimately have "\<exists>answers resp s'. cseq (init_hashtable (True, True, True) HT_CAPACITY)
      (run_all (\<lambda>r. serve_request 1 (True, True, True) r zero_response) ([w, x] @ [r])) (empty_memory (\<lambda>_ _. 7)) =
        Return (answers @ [resp], s') \<and>
      length answers = length [w, x] \<and> make_expected_response zero_response r 7 = Return resp"
    using w(3) r(2) by (intro expected_response_is_answer) simp_all
  with w(1) x(1) r(1) show ?thesis by auto
qed

end
