(* ===== verification/Server_State.thy ===== *)
theory Server_State
  imports RDMA_Common KV_Store
begin

text \<open>
  The structures of \<^verbatim>\<open>src/server/server_utils.h\<close> and the state of a server thread. A pointer
  member of \<open>struct client_info\<close> that nobody has set is \<^const>\<open>None\<close>: the structure comes from
  \<open>malloc\<close>, so reading it is \<^const>\<open>Uninitialised\<close>. The array \<open>client->request\<close> of a TCP, RC or UC
  worker, and the array \<open>ud_server->request\<close> the UD workers share, is the field \<open>rx\<close> of the state: it
  is what \<open>read\<close> or the card fills.
\<close>

section \<open>Constants\<close>

definition BACKLOG :: nat where "BACKLOG = 10"
definition REQUEST_BACKLOG :: nat where "REQUEST_BACKLOG = 5"
definition MAX_CLIENTS :: nat where "MAX_CLIENTS = 1024"

section \<open>Structures\<close>

record tcp_client_info =
  tcp_socket_fd :: int

record rc_client_connection =
  rc_pd :: int
  rc_io_completion_channel :: int
  rc_cq :: int
  rc_qp_init_attr :: qp_init_attr
  rc_cm_client_id :: int
  rc_client_qp :: int
  rc_request_mr :: int
  rc_response_mr :: int

record uc_client_connection =
  uc_socket_fd :: int
  uc_pd :: int
  uc_io_completion_channel :: int
  uc_cq :: int
  uc_qp_init_attr :: qp_init_attr
  uc_client_qp :: int
  uc_request_mr :: int
  uc_response_mr :: int
  uc_server_gid :: "64 word \<times> 64 word"
  uc_context :: int
  uc_local_qp_attrs :: qp_attr

record ud_client_connection =
  ud_socket_fd :: int
  ud_response_mr :: int
  ud_client_handling :: int

record client_info =
  ci_type :: connection_type
  ci_request_count :: u32
  ci_response :: response
  ci_tcp_client :: "tcp_client_info option"
  ci_rc_client :: "rc_client_connection option"
  ci_uc_client :: "uc_client_connection option"
  ci_ud_client :: "ud_client_connection option"
  ci_client_nr :: int
  ci_blocking :: bool

record rc_server_info =
  rcs_cm_event_channel :: int
  rcs_cm_server_id :: int

record uc_server_info =
  ucs_socket_fd :: int
  ucs_server_gid :: "64 word \<times> 64 word"
  ucs_context :: int

record ud_server_info =
  uds_ud_qp :: int
  uds_ud_recv_cq :: int
  uds_ud_send_cq :: int
  uds_server_gid :: "64 word \<times> 64 word"
  uds_local_dgram_qp_attrs :: qp_attr
  uds_remote_dgram_qp_attrs :: "qp_attr list"
  uds_pd :: int
  uds_io_completion_channel_recv :: int
  uds_io_completion_channel_send :: int
  uds_qp_init_attr :: qp_init_attr
  uds_request_mr :: int
  uds_socket_fd :: int
  uds_client_counter :: int
  uds_request_count :: int
  uds_ah :: "int list"
  uds_lock :: bool

record server_info =
  si_type :: connection_type
  si_port :: u32
  si_blocking :: bool
  si_tcp_socket_fd :: int
  si_rc_server_info :: rc_server_info
  si_uc_server_info :: uc_server_info

text \<open>
  The state of a worker thread: what it shares with the others (the store, the server structures)
  and its own \<open>client_info\<close>; \<open>me\<close> is its identity for the locks.
\<close>

record server = "(response, request) io" +
  store :: memory
  server_info :: server_info
  ud_server :: ud_server_info
  client :: client_info
  me :: tid

section \<open>Access to the state\<close>

definition upd_client :: "(client_info \<Rightarrow> client_info) \<Rightarrow> (server, unit) cmd" where
  "upd_client f = cput (\<lambda>s. s\<lparr>client := f (client s)\<rparr>)"

definition upd_ud_server :: "(ud_server_info \<Rightarrow> ud_server_info) \<Rightarrow> (server, unit) cmd" where
  "upd_ud_server f = cput (\<lambda>s. s\<lparr>ud_server := f (ud_server s)\<rparr>)"

definition upd_server_info :: "(server_info \<Rightarrow> server_info) \<Rightarrow> (server, unit) cmd" where
  "upd_server_info f = cput (\<lambda>s. s\<lparr>server_info := f (server_info s)\<rparr>)"

definition upd_response :: "(response \<Rightarrow> response) \<Rightarrow> (server, unit) cmd" where
  "upd_response f = upd_client (\<lambda>c. c\<lparr>ci_response := f (ci_response c)\<rparr>)"

definition tcp_client :: "(server, tcp_client_info) cmd" where
  "tcp_client = cbind (cget client) (\<lambda>c. pointee (ci_tcp_client c))"

definition rc_client :: "(server, rc_client_connection) cmd" where
  "rc_client = cbind (cget client) (\<lambda>c. pointee (ci_rc_client c))"

definition uc_client :: "(server, uc_client_connection) cmd" where
  "uc_client = cbind (cget client) (\<lambda>c. pointee (ci_uc_client c))"

definition ud_client :: "(server, ud_client_connection) cmd" where
  "ud_client = cbind (cget client) (\<lambda>c. pointee (ci_ud_client c))"

definition upd_tcp :: "(tcp_client_info \<Rightarrow> tcp_client_info) \<Rightarrow> (server, unit) cmd" where
  "upd_tcp f = cbind tcp_client (\<lambda>t. upd_client (\<lambda>c. c\<lparr>ci_tcp_client := Some (f t)\<rparr>))"

definition upd_rc :: "(rc_client_connection \<Rightarrow> rc_client_connection) \<Rightarrow> (server, unit) cmd" where
  "upd_rc f = cbind rc_client (\<lambda>t. upd_client (\<lambda>c. c\<lparr>ci_rc_client := Some (f t)\<rparr>))"

definition upd_uc :: "(uc_client_connection \<Rightarrow> uc_client_connection) \<Rightarrow> (server, unit) cmd" where
  "upd_uc f = cbind uc_client (\<lambda>t. upd_client (\<lambda>c. c\<lparr>ci_uc_client := Some (f t)\<rparr>))"

definition upd_ud :: "(ud_client_connection \<Rightarrow> ud_client_connection) \<Rightarrow> (server, unit) cmd" where
  "upd_ud f = cbind ud_client (\<lambda>t. upd_client (\<lambda>c. c\<lparr>ci_ud_client := Some (f t)\<rparr>))"

text \<open>Reading the request in slot \<open>i\<close>, and running an operation of the store.\<close>

definition request_at :: "int \<Rightarrow> (server, request) cmd" where
  "request_at i =
     cbind (cget rx) (\<lambda>b.
     if 0 \<le> i then clift (array_get b (nat i)) else (\<lambda>s. Undefined Out_of_bounds))"

definition on_store :: "(memory, 'a) cmd \<Rightarrow> (server, 'a) cmd" where
  "on_store m s = obind (m (store s)) (\<lambda>(a, t). Return (a, s\<lparr>store := t\<rparr>))"

definition index :: "'a list \<Rightarrow> int \<Rightarrow> (server, 'a) cmd" where
  "index xs i = (if 0 \<le> i then clift (array_get xs (nat i)) else (\<lambda>s. Undefined Out_of_bounds))"

section \<open>Running them\<close>

lemma upd_server_info_run [cmd_run]:
  "upd_server_info f s = Return ((), s\<lparr>server_info := f (server_info s)\<rparr>)"
  by (simp add: upd_server_info_def cmd_run)

lemma upd_client_run [cmd_run]: "upd_client f s = Return ((), s\<lparr>client := f (client s)\<rparr>)"
  by (simp add: upd_client_def cmd_run)

lemma upd_ud_server_run [cmd_run]: "upd_ud_server f s = Return ((), s\<lparr>ud_server := f (ud_server s)\<rparr>)"
  by (simp add: upd_ud_server_def cmd_run)

lemma upd_response_run [cmd_run]:
  "upd_response f s = Return ((), s\<lparr>client := (client s)\<lparr>ci_response := f (ci_response (client s))\<rparr>\<rparr>)"
  by (simp add: upd_response_def cmd_run)

lemma tcp_client_run [cmd_run]:
  "ci_tcp_client (client s) = Some t \<Longrightarrow> tcp_client s = Return (t, s)"
  "ci_tcp_client (client s) = None \<Longrightarrow> tcp_client s = Undefined Uninitialised"
  by (simp_all add: tcp_client_def cmd_run)

lemma rc_client_run [cmd_run]:
  "ci_rc_client (client s) = Some t \<Longrightarrow> rc_client s = Return (t, s)"
  "ci_rc_client (client s) = None \<Longrightarrow> rc_client s = Undefined Uninitialised"
  by (simp_all add: rc_client_def cmd_run)

lemma uc_client_run [cmd_run]:
  "ci_uc_client (client s) = Some t \<Longrightarrow> uc_client s = Return (t, s)"
  "ci_uc_client (client s) = None \<Longrightarrow> uc_client s = Undefined Uninitialised"
  by (simp_all add: uc_client_def cmd_run)

lemma ud_client_run [cmd_run]:
  "ci_ud_client (client s) = Some t \<Longrightarrow> ud_client s = Return (t, s)"
  "ci_ud_client (client s) = None \<Longrightarrow> ud_client s = Undefined Uninitialised"
  by (simp_all add: ud_client_def cmd_run)

lemma upd_field_run [cmd_run]:
  "ci_tcp_client (client s) = Some t \<Longrightarrow>
     upd_tcp f s = Return ((), s\<lparr>client := (client s)\<lparr>ci_tcp_client := Some (f t)\<rparr>\<rparr>)"
  "ci_rc_client (client s) = Some r \<Longrightarrow>
     upd_rc g s = Return ((), s\<lparr>client := (client s)\<lparr>ci_rc_client := Some (g r)\<rparr>\<rparr>)"
  "ci_uc_client (client s) = Some u \<Longrightarrow>
     upd_uc h s = Return ((), s\<lparr>client := (client s)\<lparr>ci_uc_client := Some (h u)\<rparr>\<rparr>)"
  "ci_ud_client (client s) = Some d \<Longrightarrow>
     upd_ud k s = Return ((), s\<lparr>client := (client s)\<lparr>ci_ud_client := Some (k d)\<rparr>\<rparr>)"
  by (simp_all add: upd_tcp_def upd_rc_def upd_uc_def upd_ud_def cmd_run)

lemma request_at_run [cmd_run]:
  "0 \<le> i \<Longrightarrow> nat i < length (rx s) \<Longrightarrow> request_at i s = Return (rx s ! nat i, s)"
  by (simp add: request_at_def cmd_run)

lemma index_run [cmd_run]:
  "0 \<le> i \<Longrightarrow> nat i < length xs \<Longrightarrow> index xs i s = Return (xs ! nat i, s)"
  by (simp add: index_def cmd_run)

lemma on_store_run [cmd_run]:
  "m (store s) = Return (a, t) \<Longrightarrow> on_store m s = Return (a, s\<lparr>store := t\<rparr>)"
  by (simp add: on_store_def)

end
