(* ===== verification/TCP_Server.thy ===== *)
theory TCP_Server
  imports Server_State
begin

text \<open>
  \<^verbatim>\<open>src/server/tcp_server_utils.c\<close>: the listening socket, accepting a connection, and reading a
  request from and writing a response to the socket of a worker.
\<close>

text \<open>Lines 18--54: socket, options, bind, listen; the descriptor is stored by \<open>set_fd\<close>.\<close>

definition open_listener :: "(int \<Rightarrow> (server, unit) cmd) \<Rightarrow> (server, int) cmd" where
  "open_listener set_fd =
     cbind (ext (Sys Socket)) (\<lambda>fd.
     cseq (set_fd (rep_ret fd)) (
     if rep_ret fd = - 1 then exit_process EXIT_FAILURE else
     cbind (ext (Sys (Setsockopt (rep_ret fd)))) (\<lambda>r.
     if rep_ret r < 0 then
       cseq (ext_ignored (Sys (Close (rep_ret fd)))) (exit_process EXIT_FAILURE)
     else
     cbind (ext (Sys (Bind (rep_ret fd)))) (\<lambda>r.
     if rep_ret r < 0 then exit_process EXIT_FAILURE else
     cbind (ext (Sys (Getsockname (rep_ret fd)))) (\<lambda>r.
     if rep_ret r = - 1 then exit_process EXIT_FAILURE else
     cbind (ext (Sys (Listen (rep_ret fd) BACKLOG))) (\<lambda>r.
     if rep_ret r < 0 then exit_process EXIT_FAILURE else
     cseq (ext_ignored (Sys Ignore_sigpipe)) (
     cret (rep_ret fd))))))))"

definition init_tcp_server :: "(server, int) cmd" where
  "init_tcp_server = open_listener (\<lambda>fd. upd_server_info (\<lambda>si. si\<lparr>si_tcp_socket_fd := fd\<rparr>))"

text \<open>\<open>assert(ret != -1)\<close> ends the process with \<open>SIGABRT\<close>.\<close>

definition ABORTED :: int where "ABORTED = 134"

definition tcp_accept :: "int \<Rightarrow> (server, int) cmd" where
  "tcp_accept sockfd =
     cbind (ext (Sys (Accept sockfd))) (\<lambda>r.
     if rep_ret r = - 1 then exit_process ABORTED else cret (rep_ret r))"

definition tcp_accept_new_connection :: "(server, int) cmd" where
  "tcp_accept_new_connection =
     cbind (cget server_info) (\<lambda>si.
     cbind (tcp_accept (si_tcp_socket_fd si)) (\<lambda>fd.
     cseq (upd_tcp (\<lambda>t. t\<lparr>tcp_socket_fd := fd\<rparr>)) (
     if fd < 0 then cret (- 1) else
     cbind (ext (Sys (Setsockopt fd))) (\<lambda>r.
     if rep_ret r < 0 then cret (- 1) else
     cret 0))))"

definition connection_ready :: "int \<Rightarrow> (server, int) cmd" where
  "connection_ready socket =
     cbind (ext (Sys (Select socket))) (\<lambda>r.
     if rep_ret r = - 1 then cret (- 1) else cret 0)"

definition tcp_read_header :: "int \<Rightarrow> nat \<Rightarrow> (server, int) cmd" where
  "tcp_read_header socket slot =
     cbind (ext (Read_message socket slot)) (\<lambda>recved.
     if rep_ret recved \<noteq> int sizeof_request then cret (- 1) else cret (rep_ret recved))"

text \<open>The comparison \<open>sent < sizeof(struct response)\<close> is of unsigned 64-bit numbers.\<close>

definition tcp_send_response :: "(server, int) cmd" where
  "tcp_send_response =
     cbind tcp_client (\<lambda>t.
     cbind (cget client) (\<lambda>c.
     cbind (ext (Write_message (tcp_socket_fd t) (ci_response c))) (\<lambda>sent.
     if (word_of_int (rep_ret sent) :: size_t) < of_nat sizeof_response then cret (- 1)
     else cret (rep_ret sent))))"

end
