(* ===== verification/RC_Server.thy ===== *)
theory RC_Server
  imports Server_State
begin

text \<open>
  \<^verbatim>\<open>src/server/rc_server_utils.c\<close>: the reliable connection. Setting up the resources of a client,
  the listening end, accepting (which pre-posts the ring of \<^const>\<open>REQUEST_BACKLOG\<close> receives), and
  receiving requests and sending responses through one shared completion queue.
\<close>

section \<open>Receiving and sending\<close>

definition rc_receive_header :: "(server, int) cmd" where
  "rc_receive_header =
     cbind rc_client (\<lambda>rc.
     cbind (cget client) (\<lambda>c.
     cbind (process_work_completion_events (rc_io_completion_channel rc) 1 (rc_cq rc) (ci_blocking c)) (\<lambda>ret.
     check_errno (ret < 0) (
     cret ret))))"

definition rc_post_receive_request :: "(server, int) cmd" where
  "rc_post_receive_request =
     cbind rc_client (\<lambda>rc.
     cbind (cget client) (\<lambda>c.
     cseq (lkey (rc_request_mr rc)) (
     post_recieve sizeof_request (unat (ci_request_count c)) (rc_client_qp rc)
       (unat (ci_request_count c)))))"

definition rc_send_response :: "(server, int) cmd" where
  "rc_send_response =
     cbind rc_client (\<lambda>rc.
     cbind (cget client) (\<lambda>c.
     cseq (lkey (rc_response_mr rc)) (
     cbind (post_send sizeof_response 0 (rc_client_qp rc) (ci_response c)) (\<lambda>ret.
     cbind (process_work_completion_events (rc_io_completion_channel rc) 1 (rc_cq rc) (ci_blocking c)) (\<lambda>ret.
     check_errno (ret < 0) (
     cret ret))))))"

section \<open>Setting up\<close>

definition setup_rc_client_resources :: "(server, int) cmd" where
  "setup_rc_client_resources =
     cbind rc_client (\<lambda>rc.
     check (rc_cm_client_id rc = 0) (- EINVAL) (
     cbind (ext (Verbs (Alloc_pd (rc_cm_client_id rc)))) (\<lambda>pd.
     cseq (upd_rc (\<lambda>rc. rc\<lparr>rc_pd := rep_ret pd\<rparr>)) (
     check_errno (rep_ret pd = 0) (
     cbind (ext (Verbs (Create_comp_channel (rc_cm_client_id rc)))) (\<lambda>ch.
     cseq (upd_rc (\<lambda>rc. rc\<lparr>rc_io_completion_channel := rep_ret ch\<rparr>)) (
     check_errno (rep_ret ch = 0) (
     cbind (ext (Verbs (Create_cq (rc_cm_client_id rc) CQ_CAPACITY (rep_ret ch)))) (\<lambda>cq.
     cseq (upd_rc (\<lambda>rc. rc\<lparr>rc_cq := rep_ret cq\<rparr>)) (
     check_errno (rep_ret cq = 0) (
     cbind (ext (Req_notify_cq (rep_ret cq))) (\<lambda>r.
     check_errno (rep_ret r \<noteq> 0) (
     cseq (upd_rc (\<lambda>rc. rc\<lparr>rc_qp_init_attr := connected_qp_init_attr IBV_QPT_RC (rep_ret cq)\<rparr>)) (
     cbind (ext (CM (Rdma_create_qp (rc_cm_client_id rc) (rep_ret pd)
             (connected_qp_init_attr IBV_QPT_RC (rep_ret cq))))) (\<lambda>r.
     check_errno (rep_ret r \<noteq> 0) (
     cseq (upd_rc (\<lambda>rc. rc\<lparr>rc_client_qp := rep_num r\<rparr>)) (
     cret (rep_ret r))))))))))))))))))"

definition upd_rcs :: "(rc_server_info \<Rightarrow> rc_server_info) \<Rightarrow> (server, unit) cmd" where
  "upd_rcs f = upd_server_info (\<lambda>si. si\<lparr>si_rc_server_info := f (si_rc_server_info si)\<rparr>)"

text \<open>\<open>rdma_create_id\<close> stores the new id; \<open>rep_num\<close> of its reply is that id.\<close>

definition init_rc_server :: "(server, int) cmd" where
  "init_rc_server =
     cbind (ext (CM Create_event_channel)) (\<lambda>ch.
     cseq (upd_rcs (\<lambda>i. i\<lparr>rcs_cm_event_channel := rep_ret ch\<rparr>)) (
     check_errno (rep_ret ch = 0) (
     cbind (ext (CM (Create_id (rep_ret ch)))) (\<lambda>r.
     cseq (upd_rcs (\<lambda>i. i\<lparr>rcs_cm_server_id := rep_num r\<rparr>)) (
     check_errno (rep_ret r \<noteq> 0) (
     cbind (ext (CM (Bind_addr (rep_num r)))) (\<lambda>r'.
     check_errno (rep_ret r' \<noteq> 0) (
     cbind (ext (CM (Rdma_listen (rep_num r) 8))) (\<lambda>r'.
     check_errno (rep_ret r' \<noteq> 0) (
     cret (rep_ret r')))))))))))"

text \<open>
  The loop that pre-posts the receives: slot \<open>i\<close>, then the following ones, until
  \<^const>\<open>REQUEST_BACKLOG\<close>. The first failure is returned (\<open>Some\<close>).
\<close>

fun rc_pre_post :: "nat list \<Rightarrow> (server, int option) cmd" where
  "rc_pre_post [] = cret None"
| "rc_pre_post (i # is) =
     cseq (upd_client (\<lambda>c. c\<lparr>ci_request_count := of_nat i\<rparr>)) (
     cbind rc_post_receive_request (\<lambda>ret.
     if ret \<noteq> 0 then cret (Some ret) else rc_pre_post is))"

definition rc_accept_new_connection :: "(server, int) cmd" where
  "rc_accept_new_connection =
     cbind (cget (\<lambda>s. si_rc_server_info (server_info s))) (\<lambda>rcs.
     cbind (process_rdma_cm_event (rcs_cm_event_channel rcs) RDMA_CM_EVENT_CONNECT_REQUEST) (\<lambda>(ret, id).
     check (ret \<noteq> 0) ret (
     cseq (upd_rc (\<lambda>rc. rc\<lparr>rc_cm_client_id := id\<rparr>)) (
     cbind setup_rc_client_resources (\<lambda>ignored.
     cbind (ext (CM Ack_cm_event)) (\<lambda>r.
     check_errno (rep_ret r \<noteq> 0) (
     check (id = 0) (- EINVAL) (
     cbind rc_client (\<lambda>rc.
     cbind (rdma_buffer_register (rc_pd rc) (sizeof_request * REQUEST_BACKLOG)
             [IBV_ACCESS_LOCAL_WRITE, IBV_ACCESS_REMOTE_READ, IBV_ACCESS_REMOTE_WRITE]) (\<lambda>mr.
     cseq (upd_rc (\<lambda>rc. rc\<lparr>rc_request_mr := mr\<rparr>)) (
     check (mr = 0) (- ENOMEM) (
     cbind (rc_pre_post [0..<REQUEST_BACKLOG]) (\<lambda>failed.
     case failed of Some ret \<Rightarrow> cret ret | None \<Rightarrow>
     cseq (upd_client (\<lambda>c. c\<lparr>ci_request_count := 0\<rparr>)) (
     cbind (rdma_buffer_register (rc_pd rc) sizeof_response [IBV_ACCESS_LOCAL_WRITE]) (\<lambda>mr.
     cseq (upd_rc (\<lambda>rc. rc\<lparr>rc_response_mr := mr\<rparr>)) (
     check (mr = 0) 0 (
     cbind (ext (CM (Rdma_accept id))) (\<lambda>r.
     check_errno (rep_ret r \<noteq> 0) (
     cbind (process_rdma_cm_event (rcs_cm_event_channel rcs) RDMA_CM_EVENT_ESTABLISHED) (\<lambda>(ret, _).
     check_errno (ret \<noteq> 0) (
     cbind (ext (CM Ack_cm_event)) (\<lambda>r.
     check_errno (rep_ret r \<noteq> 0) (
     cret (rep_ret r))))))))))))))))))))))))"

end
