(* ===== verification/UC_Server.thy ===== *)
theory UC_Server
  imports TCP_Server RC_Server
begin

text \<open>
  \<^verbatim>\<open>src/server/uc_server_utils.c\<close>: the unreliable connection. Clients connect over TCP and exchange
  their queue pair attributes there; requests and responses go through the queue pair.
\<close>

section \<open>Receiving and sending\<close>

definition uc_receive_header :: "(server, int) cmd" where
  "uc_receive_header =
     cbind uc_client (\<lambda>uc.
     cbind (cget client) (\<lambda>c.
     cbind (process_work_completion_events (uc_io_completion_channel uc) 1 (uc_cq uc) (ci_blocking c)) (\<lambda>ret.
     check_errno (ret < 0) (
     cret ret))))"

definition uc_post_receive_request :: "(server, int) cmd" where
  "uc_post_receive_request =
     cbind uc_client (\<lambda>uc.
     cbind (cget client) (\<lambda>c.
     cseq (lkey (uc_request_mr uc)) (
     post_recieve sizeof_request (unat (ci_request_count c)) (uc_client_qp uc)
       (unat (ci_request_count c)))))"

definition uc_send_response :: "(server, int) cmd" where
  "uc_send_response =
     cbind uc_client (\<lambda>uc.
     cbind (cget client) (\<lambda>c.
     cseq (lkey (uc_response_mr uc)) (
     cbind (post_send sizeof_response 0 (uc_client_qp uc) (ci_response c)) (\<lambda>ret.
     cbind (process_work_completion_events (uc_io_completion_channel uc) 1 (uc_cq uc) (ci_blocking c)) (\<lambda>ret.
     check_errno (ret < 0) (
     cret ret))))))"

section \<open>Setting up\<close>

text \<open>
  \<open>rep_num\<close> of the reply to \<open>Create_qp\<close> is the number of the new queue pair and \<open>rep_num\<close> of the
  reply to \<open>Query_port\<close> the lid of the port; \<open>psn\<close> is the number \<open>lrand48\<close> returns.
\<close>

definition setup_uc_client_resources :: "int \<Rightarrow> (server, int) cmd" where
  "setup_uc_client_resources random =
     cbind uc_client (\<lambda>uc.
     cbind (ext (Verbs (Alloc_pd (uc_context uc)))) (\<lambda>pd.
     cseq (upd_uc (\<lambda>uc. uc\<lparr>uc_pd := rep_ret pd\<rparr>)) (
     check_errno (rep_ret pd = 0) (
     cbind (ext (Verbs (Create_comp_channel (uc_context uc)))) (\<lambda>ch.
     cseq (upd_uc (\<lambda>uc. uc\<lparr>uc_io_completion_channel := rep_ret ch\<rparr>)) (
     check_errno (rep_ret ch = 0) (
     cbind (ext (Verbs (Create_cq (uc_context uc) CQ_CAPACITY (rep_ret ch)))) (\<lambda>cq.
     cseq (upd_uc (\<lambda>uc. uc\<lparr>uc_cq := rep_ret cq\<rparr>)) (
     check_errno (rep_ret cq = 0) (
     cbind (ext (Req_notify_cq (rep_ret cq))) (\<lambda>notified.
     check_errno (rep_ret notified \<noteq> 0) (
     cseq (upd_uc (\<lambda>uc. uc\<lparr>uc_qp_init_attr := connected_qp_init_attr IBV_QPT_UC (rep_ret cq)\<rparr>)) (
     cbind (ext (Verbs (Create_qp (rep_ret pd) (connected_qp_init_attr IBV_QPT_UC (rep_ret cq))))) (\<lambda>qp.
     cseq (upd_uc (\<lambda>uc. uc\<lparr>uc_client_qp := rep_ret qp\<rparr>)) (
     check_errno (rep_ret qp = 0) (
     cbind (uc_set_init_qp (rep_ret qp)) (\<lambda>ignored.
     cbind (get_local_lid (uc_context uc)) (\<lambda>lid.
     cseq (upd_uc (\<lambda>uc. uc\<lparr>uc_local_qp_attrs := (uc_local_qp_attrs uc)
            \<lparr>gid_global_interface_id := fst (uc_server_gid uc),
             gid_global_subnet_prefix := snd (uc_server_gid uc),
             qa_lid := lid, qa_qpn := word_of_int (rep_num qp),
             qa_psn := and random 0xffffff\<rparr>\<rparr>)) (
     cret (rep_ret notified))))))))))))))))))))"

definition upd_ucs :: "(uc_server_info \<Rightarrow> uc_server_info) \<Rightarrow> (server, unit) cmd" where
  "upd_ucs f = upd_server_info (\<lambda>si. si\<lparr>si_uc_server_info := f (si_uc_server_info si)\<rparr>)"

text \<open>The result is the initial \<open>ret = -1\<close>, on success too.\<close>

definition init_uc_server :: "(server, int) cmd" where
  "init_uc_server =
     cbind first_device (\<lambda>ib_dev.
     cbind (ext (Verbs (Open_device ib_dev))) (\<lambda>context.
     cseq (upd_ucs (\<lambda>i. i\<lparr>ucs_context := rep_ret context\<rparr>)) (
     cbind (ext (Verbs (Query_gid (rep_ret context)))) (\<lambda>gid.
     cseq (upd_ucs (\<lambda>i. i\<lparr>ucs_server_gid := reply_gid gid\<rparr>)) (
     cbind (open_listener (\<lambda>fd. upd_ucs (\<lambda>i. i\<lparr>ucs_socket_fd := fd\<rparr>))) (\<lambda>fd.
     cret (- 1)))))))"

fun uc_pre_post :: "nat list \<Rightarrow> (server, int option) cmd" where
  "uc_pre_post [] = cret None"
| "uc_pre_post (i # is) =
     cseq (upd_client (\<lambda>c. c\<lparr>ci_request_count := of_nat i\<rparr>)) (
     cbind uc_post_receive_request (\<lambda>ret.
     if ret \<noteq> 0 then cret (Some ret) else uc_pre_post is))"

text \<open>
  The exchange of attributes: what \<open>read\<close> and \<open>write\<close> return is only printed. A \<open>read\<close> that fails
  leaves \<open>remote_qp_attrs\<close>, a local variable, as it was: the reply's \<open>rep_attr\<close> stands for its
  contents either way. Connecting the queue pair uses the value of a function without a \<open>return\<close>.
\<close>

definition uc_accept_new_connection :: "int \<Rightarrow> (server, int) cmd" where
  "uc_accept_new_connection random =
     cbind (cget (\<lambda>s. si_uc_server_info (server_info s))) (\<lambda>ucs.
     cseq (upd_uc (\<lambda>uc. uc\<lparr>uc_server_gid := ucs_server_gid ucs\<rparr>)) (
     cseq (upd_uc (\<lambda>uc. uc\<lparr>uc_context := ucs_context ucs\<rparr>)) (
     cbind (setup_uc_client_resources random) (\<lambda>ignored.
     cbind uc_client (\<lambda>uc.
     cbind (rdma_buffer_register (uc_pd uc) (sizeof_request * REQUEST_BACKLOG)
             [IBV_ACCESS_LOCAL_WRITE, IBV_ACCESS_REMOTE_READ, IBV_ACCESS_REMOTE_WRITE]) (\<lambda>mr.
     cseq (upd_uc (\<lambda>uc. uc\<lparr>uc_request_mr := mr\<rparr>)) (
     check (mr = 0) (- ENOMEM) (
     cbind (uc_pre_post [0..<REQUEST_BACKLOG]) (\<lambda>failed.
     case failed of Some ret \<Rightarrow> cret ret | None \<Rightarrow>
     cseq (upd_client (\<lambda>c. c\<lparr>ci_request_count := 0\<rparr>)) (
     cbind (rdma_buffer_register (uc_pd uc) sizeof_response [IBV_ACCESS_LOCAL_WRITE]) (\<lambda>mr.
     cseq (upd_uc (\<lambda>uc. uc\<lparr>uc_response_mr := mr\<rparr>)) (
     check (mr = 0) 0 (
     cbind (ext (Sys (Accept (ucs_socket_fd ucs)))) (\<lambda>fd.
     cseq (upd_uc (\<lambda>uc. uc\<lparr>uc_socket_fd := rep_ret fd\<rparr>)) (
     if rep_ret fd < 0 then cret (- 1) else
     cbind (ext (Sys (Setsockopt (rep_ret fd)))) (\<lambda>r.
     if rep_ret r < 0 then cret (- 1) else
     cbind (ext (Read_qp_attr (rep_ret fd))) (\<lambda>remote.
     cbind uc_client (\<lambda>uc.
     cseq (ext_ignored (Write_qp_attr (rep_ret fd) (uc_local_qp_attrs uc))) (
     cbind (connect_qp (uc_client_qp uc) (uc_local_qp_attrs uc) (rep_attr remote)) (\<lambda>connected.
     cbind (use_result connected) (\<lambda>ret.
     check (ret \<noteq> 0) ret (
     cret ret))))))))))))))))))))))"

end
