(* ===== verification/UD_Server.thy ===== *)
theory UD_Server
  imports UC_Server
begin

text \<open>
  \<^verbatim>\<open>src/server/ud_server_utils.c\<close>: unreliable datagrams. One queue pair and one ring of
  \<^const>\<open>MAX_CLIENTS\<close> request buffers serve all workers; the mutex \<open>lock\<close> of the server structure is
  taken when a request has arrived and released by \<open>ready_for_next_request\<close>. Address handles are kept
  in an array indexed by the id the client sends about itself, queue pair attributes in an array
  indexed by the order of connection; a response is sent with both read at the client's id.
\<close>

section \<open>Receiving and sending\<close>

definition ud_mutex_lock :: "(server, unit) cmd" where
  "ud_mutex_lock =
     cbind (cget (\<lambda>s. uds_lock (ud_server s))) (\<lambda>held.
     if held then (\<lambda>s. Blocked) else upd_ud_server (\<lambda>u. u\<lparr>uds_lock := True\<rparr>))"

definition ud_mutex_unlock :: "(server, unit) cmd" where
  "ud_mutex_unlock =
     cbind (cget (\<lambda>s. uds_lock (ud_server s))) (\<lambda>held.
     if held then upd_ud_server (\<lambda>u. u\<lparr>uds_lock := False\<rparr>) else (\<lambda>s. Undefined Unlock_not_held))"

definition ud_receive_header :: "(server, int) cmd" where
  "ud_receive_header =
     cbind ud_client (\<lambda>d.
     cbind (cget ud_server) (\<lambda>u.
     cbind (cget client) (\<lambda>c.
     cbind (process_work_completion_events (uds_io_completion_channel_recv u) 1 (uds_ud_recv_cq u)
             (ci_blocking c)) (\<lambda>ret.
     cseq ud_mutex_lock (
     check_errno (ret < 0) (
     cret ret))))))"

definition ud_post_receive_request :: "(server, int) cmd" where
  "ud_post_receive_request =
     cbind (cget ud_server) (\<lambda>u.
     cseq (lkey (uds_request_mr u)) (
     post_recieve sizeof_ud_request (nat (uds_request_count u)) (uds_ud_qp u)
       (nat (uds_request_count u))))"

definition ud_send_response :: "(server, int) cmd" where
  "ud_send_response =
     cbind ud_client (\<lambda>d.
     cbind (cget ud_server) (\<lambda>u.
     cbind (cget client) (\<lambda>c.
     cseq (lkey (ud_response_mr d)) (
     cbind (index (uds_ah u) (ud_client_handling d)) (\<lambda>ah.
     cbind (index (uds_remote_dgram_qp_attrs u) (ud_client_handling d)) (\<lambda>attr.
     cbind (ud_post_send sizeof_response 0 (uds_ud_qp u) (ci_response c) ah (qa_qpn attr)) (\<lambda>ret.
     cbind (process_work_completion_events (uds_io_completion_channel_send u) 1 (uds_ud_send_cq u)
             (ci_blocking c)) (\<lambda>ret.
     check_errno (ret < 0) (
     cret ret)))))))))"

section \<open>Setting up\<close>

definition ud_qp_init_attr :: "int \<Rightarrow> int \<Rightarrow> qp_init_attr" where
  "ud_qp_init_attr recv_cq send_cq =
     \<lparr>max_recv_sge = MAX_SGE, max_recv_wr = MAX_CLIENTS, max_send_sge = MAX_SGE,
      max_send_wr = MAX_CLIENTS, init_qp_type = IBV_QPT_UD, init_recv_cq = recv_cq,
      init_send_cq = send_cq\<rparr>"

fun ud_pre_post :: "nat list \<Rightarrow> (server, int option) cmd" where
  "ud_pre_post [] = cret None"
| "ud_pre_post (i # is) =
     cseq (upd_ud_server (\<lambda>u. u\<lparr>uds_request_count := int i\<rparr>)) (
     cbind ud_post_receive_request (\<lambda>ret.
     if ret \<noteq> 0 then cret (Some ret) else ud_pre_post is))"

text \<open>The value of \<open>ret\<close> at the end is that of the last pre-posted receive.\<close>

definition init_ud_server :: "int \<Rightarrow> (server, int) cmd" where
  "init_ud_server random =
     cbind first_device (\<lambda>ib_dev.
     cbind (ext (Verbs (Open_device ib_dev))) (\<lambda>context.
     cbind (ext (Verbs (Alloc_pd (rep_ret context)))) (\<lambda>pd.
     cseq (upd_ud_server (\<lambda>u. u\<lparr>uds_pd := rep_ret pd\<rparr>)) (
     check_errno (rep_ret pd = 0) (
     cbind (ext (Verbs (Create_comp_channel (rep_ret context)))) (\<lambda>ch_recv.
     cseq (upd_ud_server (\<lambda>u. u\<lparr>uds_io_completion_channel_recv := rep_ret ch_recv\<rparr>)) (
     check_errno (rep_ret ch_recv = 0) (
     cbind (ext (Verbs (Create_cq (rep_ret context) (MAX_CLIENTS + 1) (rep_ret ch_recv)))) (\<lambda>recv_cq.
     cseq (upd_ud_server (\<lambda>u. u\<lparr>uds_ud_recv_cq := rep_ret recv_cq\<rparr>)) (
     check_errno (rep_ret recv_cq = 0) (
     cbind (ext (Req_notify_cq (rep_ret recv_cq))) (\<lambda>r.
     check_errno (rep_ret r \<noteq> 0) (
     cbind (ext (Verbs (Create_comp_channel (rep_ret context)))) (\<lambda>ch_send.
     cseq (upd_ud_server (\<lambda>u. u\<lparr>uds_io_completion_channel_send := rep_ret ch_send\<rparr>)) (
     check_errno (rep_ret ch_send = 0) (
     cbind (ext (Verbs (Create_cq (rep_ret context) (MAX_CLIENTS + 1) (rep_ret ch_send)))) (\<lambda>send_cq.
     cseq (upd_ud_server (\<lambda>u. u\<lparr>uds_ud_send_cq := rep_ret send_cq\<rparr>)) (
     check_errno (rep_ret send_cq = 0) (
     cbind (ext (Req_notify_cq (rep_ret send_cq))) (\<lambda>r.
     check_errno (rep_ret r \<noteq> 0) (
     cseq (upd_ud_server (\<lambda>u. u\<lparr>uds_qp_init_attr :=
            ud_qp_init_attr (rep_ret recv_cq) (rep_ret send_cq)\<rparr>)) (
     cbind (ext (Verbs (Create_qp (rep_ret pd)
             (ud_qp_init_attr (rep_ret recv_cq) (rep_ret send_cq))))) (\<lambda>qp.
     cseq (upd_ud_server (\<lambda>u. u\<lparr>uds_ud_qp := rep_ret qp\<rparr>)) (
     check_errno (rep_ret qp = 0) (
     cbind (ud_set_init_qp (rep_ret qp)) (\<lambda>ignored.
     cbind (ext (Verbs (Query_gid (rep_ret context)))) (\<lambda>gid.
     cbind (get_local_lid (rep_ret context)) (\<lambda>lid.
     cseq (upd_ud_server (\<lambda>u. u\<lparr>uds_server_gid := reply_gid gid,
            uds_local_dgram_qp_attrs := (uds_local_dgram_qp_attrs u)
              \<lparr>gid_global_interface_id := fst (reply_gid gid),
               gid_global_subnet_prefix := snd (reply_gid gid),
               qa_lid := lid, qa_qpn := word_of_int (rep_num qp), qa_psn := and random 0xffffff\<rparr>\<rparr>)) (
     cseq (cput (\<lambda>s. s\<lparr>rx := replicate MAX_CLIENTS zero_request\<rparr>)) (
     cbind (rdma_buffer_register (rep_ret pd) (sizeof_ud_request * MAX_CLIENTS)
             [IBV_ACCESS_LOCAL_WRITE, IBV_ACCESS_REMOTE_READ, IBV_ACCESS_REMOTE_WRITE]) (\<lambda>mr.
     cseq (upd_ud_server (\<lambda>u. u\<lparr>uds_request_mr := mr\<rparr>)) (
     check (mr = 0) (- ENOMEM) (
     cbind (ud_pre_post [0..<MAX_CLIENTS]) (\<lambda>failed.
     case failed of Some ret \<Rightarrow> cret ret | None \<Rightarrow>
     cseq (upd_ud_server (\<lambda>u. u\<lparr>uds_request_count := 0\<rparr>)) (
     cbind (ud_set_rts_qp (rep_ret qp) (and random 0xffffff)) (\<lambda>ignored.
     cbind (open_listener (\<lambda>fd. upd_ud_server (\<lambda>u. u\<lparr>uds_socket_fd := fd\<rparr>))) (\<lambda>fd.
     cret 0)))))))))))))))))))))))))))))))))))))"

definition set_at :: "'a list \<Rightarrow> int \<Rightarrow> 'a \<Rightarrow> (server, 'a list) cmd" where
  "set_at xs i x =
     (if 0 \<le> i then clift (array_set xs (nat i) x) else (\<lambda>s. Undefined Out_of_bounds))"

text \<open>
  Accepting a client. The attributes go to the entry of the \<open>client_counter\<close>-th connection (a \<open>read\<close>
  that fails leaves them to the reply's \<open>rep_attr\<close>), the address handle to the entry of the id they
  name. Neither index is checked. The \<open>lid\<close> becomes an \<open>uint16_t\<close>. The value is that of \<open>write\<close>.
\<close>

definition ud_accept_new_connection :: "(server, int) cmd" where
  "ud_accept_new_connection =
     cbind (cget ud_server) (\<lambda>u.
     cbind (rdma_buffer_register (uds_pd u) sizeof_response [IBV_ACCESS_LOCAL_WRITE]) (\<lambda>mr.
     cseq (upd_ud (\<lambda>d. d\<lparr>ud_response_mr := mr\<rparr>)) (
     check (mr = 0) (- 1) (
     cbind (ext (Sys (Accept (uds_socket_fd u)))) (\<lambda>fd.
     cseq (upd_ud (\<lambda>d. d\<lparr>ud_socket_fd := rep_ret fd\<rparr>)) (
     if rep_ret fd < 0 then cret (- 1) else
     cbind (ext (Sys (Setsockopt (rep_ret fd)))) (\<lambda>r.
     if rep_ret r < 0 then cret (- 1) else
     cbind (ext (Read_qp_attr (rep_ret fd))) (\<lambda>remote.
     cbind (set_at (uds_remote_dgram_qp_attrs u) (uds_client_counter u) (rep_attr remote)) (\<lambda>attrs.
     cseq (upd_ud_server (\<lambda>u. u\<lparr>uds_remote_dgram_qp_attrs := attrs\<rparr>)) (
     cbind (ext (Write_qp_attr (rep_ret fd) (uds_local_dgram_qp_attrs u))) (\<lambda>written.
     cbind (ext (Verbs (Create_ah (uds_pd u) (qa_lid (rep_attr remote) mod 2 ^ 16)))) (\<lambda>ah.
     cbind (set_at (uds_ah u) (qa_client_id (rep_attr remote)) (rep_ret ah)) (\<lambda>ahs.
     cseq (upd_ud_server (\<lambda>u. u\<lparr>uds_ah := ahs\<rparr>)) (
     check (rep_ret ah = 0) (- 1) (
     cseq (upd_ud_server (\<lambda>u. u\<lparr>uds_client_counter := uds_client_counter u + 1\<rparr>)) (
     cret (rep_ret written)))))))))))))))))"

end
