(* ===== verification/Getopt.thy ===== *)
theory Getopt
  imports C_Strings
begin

text \<open>
  What the program uses of the C library to read its command line: \<open>getopt_long\<close> of glibc, \<open>strtol\<close>
  and \<open>atoi\<close>. A command line is the list of its words, without the program's name; \<open>getopt_long\<close> is
  the list of the options it returns one after the other, each with \<open>optarg\<close>, which is
  \<^const>\<open>None\<close> where it is \<open>NULL\<close>.
\<close>

section \<open>Options\<close>

text \<open>A long option: its name, whether it has an argument, and the character that stands for it.\<close>

type_synonym long_option = "string \<times> bool \<times> char"

fun needs_argument :: "string \<Rightarrow> char \<Rightarrow> bool option" where
  "needs_argument [] c = None"
| "needs_argument (x # xs) c =
     (if x = c \<and> c \<noteq> CHR '':'' then Some (case xs of [] \<Rightarrow> False | y # _ \<Rightarrow> y = CHR '':'')
      else needs_argument xs c)"

text \<open>
  The characters of a word that starts with one dash. The second component is the number of further
  words that are used up as an argument.
\<close>

fun short_options :: "string \<Rightarrow> string \<Rightarrow> string list \<Rightarrow> (char \<times> string option) list \<times> nat" where
  "short_options optstring [] ws = ([], 0)"
| "short_options optstring (c # cs) ws =
     (case needs_argument optstring c of
        None \<Rightarrow> (case short_options optstring cs ws of (os, k) \<Rightarrow> ((CHR ''?'', None) # os, k))
      | Some False \<Rightarrow> (case short_options optstring cs ws of (os, k) \<Rightarrow> ((c, None) # os, k))
      | Some True \<Rightarrow>
          (if cs \<noteq> [] then ([(c, Some cs)], 0)
           else case ws of [] \<Rightarrow> ([(CHR ''?'', None)], 0) | w # _ \<Rightarrow> ([(c, Some w)], 1)))"

text \<open>A long option may be abbreviated when no other one starts the same way.\<close>

definition find_long :: "long_option list \<Rightarrow> string \<Rightarrow> long_option option" where
  "find_long longs name =
     (case filter (\<lambda>(n, _). n = name) longs of
        l # _ \<Rightarrow> Some l
      | [] \<Rightarrow>
          (case filter (\<lambda>(n, _). take (length name) n = name) longs of
             [l] \<Rightarrow> Some l
           | _ \<Rightarrow> None))"

definition long_option :: "long_option list \<Rightarrow> string \<Rightarrow> string list \<Rightarrow> (char \<times> string option) \<times> nat" where
  "long_option longs word ws =
     (let name = takeWhile (\<lambda>c. c \<noteq> CHR ''='') word; rest = dropWhile (\<lambda>c. c \<noteq> CHR ''='') word in
      case find_long longs name of
        None \<Rightarrow> ((CHR ''?'', None), 0)
      | Some (_, False, c) \<Rightarrow> if rest = [] then ((c, None), 0) else ((CHR ''?'', None), 0)
      | Some (_, True, c) \<Rightarrow>
          (case rest of
             _ # arg \<Rightarrow> ((c, Some arg), 0)
           | [] \<Rightarrow> (case ws of [] \<Rightarrow> ((CHR ''?'', None), 0) | w # _ \<Rightarrow> ((c, Some w), 1))))"

text \<open>Words that are no options are passed over; \<open>--\<close> ends the options.\<close>

fun getopt_long :: "string \<Rightarrow> long_option list \<Rightarrow> string list \<Rightarrow> (char \<times> string option) list" where
  "getopt_long optstring longs [] = []"
| "getopt_long optstring longs (w # ws) =
     (if w = ''--'' then []
      else if take 2 w = ''--'' then
        (case long_option longs (drop 2 w) ws of (opt, k) \<Rightarrow> opt # getopt_long optstring longs (drop k ws))
      else if take 1 w = ''-'' \<and> w \<noteq> ''-'' then
        (case short_options optstring (drop 1 w) ws of
           (opts, k) \<Rightarrow> opts @ getopt_long optstring longs (drop k ws))
      else getopt_long optstring longs ws)"

section \<open>Numbers\<close>

definition blank :: "byte \<Rightarrow> bool" where
  "blank c \<longleftrightarrow> c = 32 \<or> 9 \<le> c \<and> c \<le> 13"

text \<open>\<open>atoi\<close>: blanks, a sign, digits.\<close>

fun digits_value :: "int \<Rightarrow> byte list \<Rightarrow> int outcome" where
  "digits_value acc [] = Undefined Out_of_bounds"
| "digits_value acc (c # cs) =
     (if 48 \<le> c \<and> c \<le> 57 then digits_value (10 * acc + (uint c - 48)) cs else Return acc)"

fun atoi :: "byte list \<Rightarrow> int outcome" where
  "atoi [] = Undefined Out_of_bounds"
| "atoi (c # cs) =
     (if blank c then atoi cs
      else if c = 45 then obind (digits_value 0 cs) (\<lambda>n. Return (- n))
      else if c = 43 then digits_value 0 cs
      else digits_value 0 (c # cs))"

text \<open>
  \<open>strtol\<close> with base 0: \<open>0x\<close> starts a hexadecimal number, \<open>0\<close> an octal one. A value beyond \<open>long\<close>
  is the nearest \<open>long\<close>.
\<close>

definition digit_value :: "byte \<Rightarrow> int" where
  "digit_value c =
     (if 48 \<le> c \<and> c \<le> 57 then uint c - 48
      else if 97 \<le> c \<and> c \<le> 122 then uint c - 87
      else if 65 \<le> c \<and> c \<le> 90 then uint c - 55
      else 99)"

fun based_value :: "int \<Rightarrow> int \<Rightarrow> byte list \<Rightarrow> int outcome" where
  "based_value base acc [] = Undefined Out_of_bounds"
| "based_value base acc (c # cs) =
     (if digit_value c < base then based_value base (base * acc + digit_value c) cs else Return acc)"

definition unsigned_value :: "byte list \<Rightarrow> int outcome" where
  "unsigned_value cs =
     (case cs of
        c # x # rest \<Rightarrow>
          if c = 48 \<and> (x = 120 \<or> x = 88) then based_value 16 0 rest
          else if c = 48 then based_value 8 0 cs
          else based_value 10 0 cs
      | _ \<Rightarrow> based_value 10 0 cs)"

definition to_long :: "int \<Rightarrow> int" where
  "to_long n = max (- (2 ^ 63)) (min (2 ^ 63 - 1) n)"

fun strtol :: "byte list \<Rightarrow> int outcome" where
  "strtol [] = Undefined Out_of_bounds"
| "strtol (c # cs) =
     (if blank c then strtol cs
      else if c = 45 then obind (unsigned_value cs) (\<lambda>n. Return (to_long (- n)))
      else if c = 43 then obind (unsigned_value cs) (\<lambda>n. Return (to_long n))
      else obind (unsigned_value (c # cs)) (\<lambda>n. Return (to_long n)))"

text \<open>What is left of a \<open>long\<close> in an \<open>int\<close>.\<close>

definition to_int :: "int \<Rightarrow> int" where
  "to_int n = (n + 2 ^ 31) mod 2 ^ 32 - 2 ^ 31"

section \<open>Lemmas\<close>

lemma to_int_range: "- (2 ^ 31) \<le> to_int n" "to_int n < 2 ^ 31"
  by (auto simp: to_int_def)

lemma to_int_id: "- (2 ^ 31) \<le> n \<Longrightarrow> n < 2 ^ 31 \<Longrightarrow> to_int n = n"
  by (simp add: to_int_def)

text \<open>The decimal digits a number is printed with are read back.\<close>

lemma digit_word:
  "d < 10 \<Longrightarrow> uint (of_nat (48 + d) :: byte) = 48 + int d"
  by (simp add: uint_nat unat_of_nat del: of_nat_add)

lemma digits_value_digit:
  "d < 10 \<Longrightarrow> digits_value a ((of_nat (48 + d) :: byte) # rest) = digits_value (10 * a + int d) rest"
proof -
  assume d: "d < 10"
  have u: "uint (of_nat (48 + d) :: byte) = 48 + int d" using d by (rule digit_word)
  have "48 \<le> (of_nat (48 + d) :: byte)" "(of_nat (48 + d) :: byte) \<le> 57"
    using d by (simp_all only: word_le_def u) auto
  then show ?thesis by (simp only: digits_value.simps u if_True simp_thms) simp
qed

lemma digits_value_decimal:
  "digits_value a (decimal_nat n @ rest) = digits_value (a * 10 ^ length (decimal_nat n) + int n) rest"
proof (induction n arbitrary: a rest rule: decimal_nat.induct)
  case (1 n)
  show ?case
  proof (cases "n < 10")
    case True
    then have "decimal_nat n = [of_nat (48 + n)]" by (subst decimal_nat.simps) simp
    then show ?thesis using digits_value_digit [OF True] by (simp add: mult.commute del: of_nat_add)
  next
    case False
    have dec: "decimal_nat n = decimal_nat (n div 10) @ [of_nat (48 + n mod 10)]"
      using False by (subst decimal_nat.simps) simp
    have d: "n mod 10 < 10" by simp
    have split: "int n = 10 * int (n div 10) + int (n mod 10)"
      by (metis mult_div_mod_eq of_nat_add of_nat_mult of_nat_numeral)
    show ?thesis
      using "1.IH" [OF False] digits_value_digit [OF d]
      by (simp add: dec split algebra_simps del: of_nat_add)
  qed
qed

end
