(* ===== verification/Server_Utils.thy ===== *)
theory Server_Utils
  imports UD_Server Getopt
begin

text \<open>
  \<^verbatim>\<open>src/server/server_utils.c\<close>: parsing the command line and starting the server, and the operations
  a worker calls whatever its transport is. \<open>server_command_line\<close> gives the options \<open>getopt_long\<close>
  returns; where there is no argument \<open>optarg\<close> is not read.
\<close>

section \<open>Starting the server\<close>

text \<open>
  One option: \<open>-r\<close> with an argument that starts with none of the three names falls through to \<open>-b\<close>.
\<close>

definition server_option :: "char \<times> byte list \<Rightarrow> (server, unit) cmd" where
  "server_option opt =
     (case opt of (c, optarg) \<Rightarrow>
      if c = CHR ''v'' \<or> c = CHR ''d'' then cret ()
      else if c = CHR ''p'' then
        cbind (clift (atoi optarg)) (\<lambda>n. upd_server_info (\<lambda>si. si\<lparr>si_port := word_of_int n\<rparr>))
      else if c = CHR ''r'' then
        cbind (clift (strncmp optarg (lit ''rc'') 2)) (\<lambda>rc.
        if rc = 0 then upd_server_info (\<lambda>si. si\<lparr>si_type := RC\<rparr>) else
        cbind (clift (strncmp optarg (lit ''uc'') 2)) (\<lambda>uc.
        if uc = 0 then upd_server_info (\<lambda>si. si\<lparr>si_type := UC\<rparr>) else
        cbind (clift (strncmp optarg (lit ''ud'') 2)) (\<lambda>ud.
        if ud = 0 then upd_server_info (\<lambda>si. si\<lparr>si_type := UD\<rparr>) else
        upd_server_info (\<lambda>si. si\<lparr>si_blocking := True\<rparr>))))
      else if c = CHR ''b'' then upd_server_info (\<lambda>si. si\<lparr>si_blocking := True\<rparr>)
      else exit_process EXIT_SUCCESS)"

fun server_options :: "(char \<times> byte list) list \<Rightarrow> (server, unit) cmd" where
  "server_options [] = cret ()"
| "server_options (opt # opts) = cseq (server_option opt) (server_options opts)"

text \<open>The options of the command line; \<open>b\<close> is not among the letters of \<open>optstring\<close>.\<close>

definition server_optstring :: string where
  "server_optstring = ''hvdp:r:o''"

definition server_long_options :: "long_option list" where
  "server_long_options =
     [(''help'', False, CHR ''h''), (''verbose'', False, CHR ''v''), (''debug'', False, CHR ''d''),
      (''port'', True, CHR ''p''), (''rdma'', True, CHR ''r''), (''blocking'', False, CHR ''b'')]"

definition server_command_line :: "string list \<Rightarrow> (char \<times> byte list) list" where
  "server_command_line words =
     map (\<lambda>(c, arg). (c, case arg of None \<Rightarrow> [] | Some a \<Rightarrow> lit a))
       (getopt_long server_optstring server_long_options words)"

text \<open>The results of the functions that initialise a transport are ignored.\<close>

definition server_init :: "string list \<Rightarrow> int \<Rightarrow> (server, unit) cmd" where
  "server_init argv random =
     cseq (upd_server_info (\<lambda>si. si\<lparr>si_port := of_nat PORT, si_type := TCP, si_blocking := False\<rparr>)) (
     cseq (server_options (server_command_line argv)) (
     cbind (cget (\<lambda>s. si_type (server_info s))) (\<lambda>ty.
     cbind (case ty of
              TCP \<Rightarrow> init_tcp_server
            | RC \<Rightarrow> init_rc_server
            | UC \<Rightarrow> init_uc_server
            | UD \<Rightarrow> init_ud_server random) (\<lambda>ignored.
     cret ()))))"

section \<open>Accepting and closing\<close>

text \<open>\<open>fc\<close> is what \<open>malloc\<close> returns for the transport's part of the client.\<close>

record fresh_connection =
  fresh_tcp :: tcp_client_info
  fresh_rc :: rc_client_connection
  fresh_uc :: uc_client_connection
  fresh_ud :: ud_client_connection

definition accept_new_connection :: "fresh_connection \<Rightarrow> int \<Rightarrow> (server, int) cmd" where
  "accept_new_connection fc random =
     cbind (cget server_info) (\<lambda>si.
     cseq (upd_client (\<lambda>c. c\<lparr>ci_blocking := si_blocking si\<rparr>)) (
     case si_type si of
       TCP \<Rightarrow> cseq (upd_client (\<lambda>c. c\<lparr>ci_tcp_client := Some (fresh_tcp fc)\<rparr>)) tcp_accept_new_connection
     | RC \<Rightarrow> cseq (upd_client (\<lambda>c. c\<lparr>ci_rc_client := Some (fresh_rc fc)\<rparr>)) rc_accept_new_connection
     | UC \<Rightarrow> cseq (upd_client (\<lambda>c. c\<lparr>ci_uc_client := Some (fresh_uc fc)\<rparr>))
               (uc_accept_new_connection random)
     | UD \<Rightarrow> cseq (upd_client (\<lambda>c. c\<lparr>ci_ud_client := Some (fresh_ud fc)\<rparr>)) ud_accept_new_connection))"

definition close_connection :: "int \<Rightarrow> (server, unit) cmd" where
  "close_connection socket = ext_ignored (Sys (Close socket))"

section \<open>The request loop's operations\<close>

definition prepare_for_next_request :: "(server, int) cmd" where
  "prepare_for_next_request =
     cbind (cget (\<lambda>s. ci_type (client s))) (\<lambda>ty.
     cbind (case ty of
              TCP \<Rightarrow> cret 0
            | RC \<Rightarrow> rc_post_receive_request
            | UC \<Rightarrow> uc_post_receive_request
            | UD \<Rightarrow> cret 0) (\<lambda>ret.
     check (ret \<noteq> 0) ret (
     cret ret)))"

text \<open>A request is named by its index in \<open>rx\<close>.\<close>

definition get_current_request :: "(server, int) cmd" where
  "get_current_request =
     cbind (cget (\<lambda>s. ci_type (client s))) (\<lambda>ty.
     case ty of
       UD \<Rightarrow> cget (\<lambda>s. uds_request_count (ud_server s))
     | _ \<Rightarrow> cget (\<lambda>s. uint (ci_request_count (client s))))"

definition receive_header :: "(server, int) cmd" where
  "receive_header =
     cbind (cget (\<lambda>s. ci_type (client s))) (\<lambda>ty.
     case ty of
       TCP \<Rightarrow>
         cbind tcp_client (\<lambda>t.
         cbind (connection_ready (tcp_socket_fd t)) (\<lambda>ready.
         if ready = - 1 then cret (- 1) else
         cbind (cget (\<lambda>s. unat (ci_request_count (client s)))) (\<lambda>slot.
         tcp_read_header (tcp_socket_fd t) slot)))
     | RC \<Rightarrow> rc_receive_header
     | UC \<Rightarrow> uc_receive_header
     | UD \<Rightarrow> ud_receive_header)"

definition send_response_to_client :: "(server, int) cmd" where
  "send_response_to_client =
     cbind (cget (\<lambda>s. ci_type (client s))) (\<lambda>ty.
     case ty of
       TCP \<Rightarrow> tcp_send_response
     | RC \<Rightarrow> rc_send_response
     | UC \<Rightarrow> uc_send_response
     | UD \<Rightarrow> ud_send_response)"

definition ready_for_next_request :: "(server, unit) cmd" where
  "ready_for_next_request =
     cbind (cget (\<lambda>s. ci_type (client s))) (\<lambda>ty.
     case ty of
       UD \<Rightarrow>
         cbind ud_post_receive_request (\<lambda>ignored.
         cseq (upd_ud_server (\<lambda>u. u\<lparr>uds_request_count := (uds_request_count u + 1) mod int MAX_CLIENTS\<rparr>)) (
         ud_mutex_unlock))
     | _ \<Rightarrow> upd_client (\<lambda>c. c\<lparr>ci_request_count := (ci_request_count c + 1) mod of_nat REQUEST_BACKLOG\<rparr>))"

text \<open>Whatever the current slot is, \<open>request->connection_close\<close> is that of slot 0.\<close>

definition is_connection_closed :: "(server, bool) cmd" where
  "is_connection_closed = cbind (request_at 0) (\<lambda>r. cret (req_connection_close r \<noteq> 0))"

end
