(* ===== verification/Worker.thy ===== *)
theory Worker
  imports Server_Utils
begin

text \<open>
  \<^verbatim>\<open>src/server/request_dispatcher.c\<close>, \<open>recv_request\<close> of \<^verbatim>\<open>src/server/server_utils.c\<close>, and
  \<open>main_job\<close> and \<open>main\<close> of \<^verbatim>\<open>src/server/kvstore.c\<close>: what a worker thread does with the requests of
  its client, and the loop that accepts clients.
\<close>

section \<open>The dispatcher\<close>

text \<open>A payload is \<^const>\<open>None\<close> for \<open>NULL\<close>; nothing is copied when \<open>payload_len\<close> is 0.\<close>

definition send_response :: "response_code \<Rightarrow> nat \<Rightarrow> byte list option \<Rightarrow> (server, int) cmd" where
  "send_response code payload_len payload =
     cseq (upd_response (\<lambda>r. r\<lparr>resp_msg := replicate MSG_SIZE 0\<rparr>)) (
     cseq (upd_response (\<lambda>r. r\<lparr>resp_code := code\<rparr>)) (
     cbind (cget (\<lambda>s. resp_msg (ci_response (client s)))) (\<lambda>msg.
     cbind (case payload of
              None \<Rightarrow> if payload_len = 0 then cret msg else (\<lambda>s. Undefined Null_deref)
            | Some p \<Rightarrow> clift (memcpy msg p payload_len)) (\<lambda>msg'.
     cseq (upd_response (\<lambda>r. r\<lparr>resp_msg := msg'\<rparr>)) (
     cseq (upd_response (\<lambda>r. r\<lparr>resp_msg_len := of_nat payload_len\<rparr>)) (
     cbind send_response_to_client (\<lambda>sent.
     if sent < 0 then cret (- 1) else cret 0)))))))"

definition ping :: "(server, int) cmd" where
  "ping = send_response OK 0 None"

text \<open>\<open>rep_num\<close> of the reply to \<open>Getsockopt\<close> is the size of the send buffer.\<close>

definition setopt_request :: "request \<Rightarrow> (server, int) cmd" where
  "setopt_request request =
     cbind (clift (strcmp (req_key request) (lit ''SNDBUF''))) (\<lambda>cmp.
     if cmp = 0 then
       cbind tcp_client (\<lambda>t.
       cbind (ext (Sys (Setsockopt (tcp_socket_fd t)))) (\<lambda>r.
       if rep_ret r < 0 then send_response SETOPT_ERROR 0 None else
       cbind (ext (Sys (Getsockopt (tcp_socket_fd t)))) (\<lambda>r.
       if rep_ret r \<noteq> 0 then send_response SETOPT_ERROR 0 None else
       cbind (cret (decimal (rep_num r))) (\<lambda>respbuf.
       send_response OK (length respbuf) (Some respbuf)))))
     else send_response KEY_ERROR 0 None)"

definition request_dispatcher :: "(server, unit) cmd" where
  "request_dispatcher =
     cbind get_current_request (\<lambda>i.
     cbind (request_at i) (\<lambda>request.
     case req_method request of
       PING \<Rightarrow> cbind ping (\<lambda>ignored. cret ())
     | EXIT \<Rightarrow> cbind (send_response OK 0 None) (\<lambda>ignored. exit_process 0)
     | SETOPT \<Rightarrow> cbind (setopt_request request) (\<lambda>ignored. cret ())
     | UNK \<Rightarrow> cbind (send_response PARSING_ERROR 0 None) (\<lambda>ignored. cret ())
     | _ \<Rightarrow> cret ()))"

section \<open>Receiving a request\<close>

text \<open>
  Only the value -1 counts as an error. \<open>take_request\<close> is the part of \<open>recv_request\<close> before it calls
  the dispatcher.
\<close>

definition take_request :: "(server, int option) cmd" where
  "take_request =
     cbind receive_header (\<lambda>received.
     if received = - 1 then cret None else
     cbind get_current_request (\<lambda>current.
     cbind (cget (\<lambda>s. ci_type (client s))) (\<lambda>ty.
     cseq (if ty = UD then
             cbind (request_at current) (\<lambda>r. upd_ud (\<lambda>d. d\<lparr>ud_client_handling := req_client_id r\<rparr>))
           else cret ()) (
     cret (Some current)))))"

definition recv_request :: "(server, int option) cmd" where
  "recv_request =
     cbind take_request (\<lambda>current.
     case current of
       None \<Rightarrow> cret None
     | Some i \<Rightarrow> cseq request_dispatcher (cret (Some i)))"

section \<open>The worker thread\<close>

datatype round_result = No_request | Continue | Close

text \<open>
  One turn of the \<open>do ... while\<close> of \<open>main_job\<close>. \<open>answer_request\<close> is the part after a request has
  been received into slot \<open>i\<close>.
\<close>

definition answer_request :: "bool \<times> bool \<times> bool \<Rightarrow> int \<Rightarrow> (server, round_result) cmd" where
  "answer_request oks i =
     cbind (request_at i) (\<lambda>request.
     cseq (cwhen (req_method request \<noteq> UNK) ready_for_next_request) (
     cseq (upd_response (\<lambda>r. zero_response)) (
     cbind (request_at i) (\<lambda>request.
     cbind (cget me) (\<lambda>tid.
     cbind (cget (\<lambda>s. ci_response (client s))) (\<lambda>response.
     cbind (on_store (serve_request tid oks request response)) (\<lambda>response.
     cseq (upd_response (\<lambda>r. response)) (
     cbind send_response_to_client (\<lambda>ignored.
     cbind is_connection_closed (\<lambda>closed.
     cret (if closed then Close else Continue)))))))))))"

definition job_round :: "bool \<times> bool \<times> bool \<Rightarrow> (server, round_result) cmd" where
  "job_round oks =
     cbind prepare_for_next_request (\<lambda>ignored.
     cbind recv_request (\<lambda>current.
     case current of
       None \<Rightarrow> cret No_request
     | Some i \<Rightarrow> answer_request oks i))"

fun job_loop :: "nat \<Rightarrow> bool \<times> bool \<times> bool \<Rightarrow> (server, round_result) cmd" where
  "job_loop 0 oks = (\<lambda>s. Diverges)"
| "job_loop (Suc fuel) oks =
     cbind (job_round oks) (\<lambda>res. if res = Continue then job_loop fuel oks else cret res)"

text \<open>
  \<open>client->request\<close> is the worker's own array; for a UD worker it is not \<open>rx\<close> and its contents are
  never used.
\<close>

definition clear_close_flag :: "(server, unit) cmd" where
  "clear_close_flag =
     cbind (cget (\<lambda>s. ci_type (client s))) (\<lambda>ty.
     if ty = UD then cret ()
     else cbind (request_at 0) (\<lambda>r. cput (\<lambda>s. s\<lparr>rx := (rx s)[0 := r\<lparr>req_connection_close := 0\<rparr>]\<rparr>)))"

definition main_job :: "bool \<times> bool \<times> bool \<Rightarrow> (server, unit) cmd" where
  "main_job oks =
     cseq clear_close_flag (
     cbind (\<lambda>s. job_loop (Suc (length (script s))) oks s) (\<lambda>res.
     if res = No_request then cret ()
     else
       cbind tcp_client (\<lambda>t.
       close_connection (tcp_socket_fd t))))"

section \<open>The main thread\<close>

definition fresh_client :: "connection_type \<Rightarrow> response \<Rightarrow> int \<Rightarrow> client_info" where
  "fresh_client ty response client_nr =
     \<lparr>ci_type = ty, ci_request_count = 0, ci_response = response, ci_tcp_client = None,
      ci_rc_client = None, ci_uc_client = None, ci_ud_client = None, ci_client_nr = client_nr,
      ci_blocking = False\<rparr>"

text \<open>
  One turn of the accepting loop: the client whose worker is started, if any. \<open>response\<close> and \<open>fc\<close>
  are the contents of what \<open>malloc\<close> returned.
\<close>

definition accept_round ::
  "fresh_connection \<Rightarrow> response \<Rightarrow> int \<Rightarrow> int \<Rightarrow> (server, client_info option) cmd" where
  "accept_round fc response random client_nr =
     cbind (cget (\<lambda>s. si_type (server_info s))) (\<lambda>ty.
     cseq (cwhen (ty \<noteq> UD) (cput (\<lambda>s. s\<lparr>rx := replicate REQUEST_BACKLOG zero_request\<rparr>))) (
     cseq (upd_client (\<lambda>c. fresh_client ty response client_nr)) (
     cbind (accept_new_connection fc random) (\<lambda>ret.
     if ret < 0 then cret None else
     cbind (cget client) (\<lambda>c. cret (Some c))))))"

text \<open>The main thread: the server, the table (whose failure ends the process), then the loop.\<close>

definition main_start ::
  "string list \<Rightarrow> int \<Rightarrow> bool \<times> bool \<times> bool \<Rightarrow> (server, unit) cmd" where
  "main_start argv random oks =
     cseq (server_init argv random) (
     cbind (on_store (init_hashtable oks HT_CAPACITY)) (\<lambda>init.
     if init < 0 then exit_process EXIT_FAILURE else cret ()))"

fun accept_loop ::
  "nat \<Rightarrow> fresh_connection \<Rightarrow> response \<Rightarrow> int \<Rightarrow> int \<Rightarrow> (server, client_info list) cmd" where
  "accept_loop 0 fc response random client_nr = cret []"
| "accept_loop (Suc turns) fc response random client_nr =
     cbind (accept_round fc response random client_nr) (\<lambda>started.
     cbind (accept_loop turns fc response random (client_nr + 1)) (\<lambda>more.
     cret (case started of None \<Rightarrow> more | Some c \<Rightarrow> c # more)))"

end
