(* ===== verification/Step_Rules.thy ===== *)
theory Step_Rules
  imports Worker Completions
begin

text \<open>
  Rules for what holds between the state before and the state after a command, on \<^emph>\<open>every\<close> script:
  \<open>steps P m s\<close> says that whenever \<open>m\<close> returns from \<open>s\<close>, the two states are related by \<open>P\<close>. For a
  reflexive and transitive \<open>P\<close> there is a rule for each way to build a command, collected in the
  locale \<open>step_relation\<close>; the locale \<open>worker_relation\<close> extends it to the operations of a worker, and
  is interpreted on two relations in its extension \<open>store_relation\<close>. The first shows that the fuel of the worker's loop is enough.
\<close>

section \<open>The rules\<close>

definition steps :: "('s \<Rightarrow> 's \<Rightarrow> bool) \<Rightarrow> ('s, 'a) cmd \<Rightarrow> 's \<Rightarrow> bool" where
  "steps P m s \<longleftrightarrow> (\<forall>a s'. m s = Return (a, s') \<longrightarrow> P s s')"

lemma stepsD: "steps P m s \<Longrightarrow> m s = Return (a, s') \<Longrightarrow> P s s'"
  by (simp add: steps_def)

locale step_relation =
  fixes P :: "'s \<Rightarrow> 's \<Rightarrow> bool"
  assumes refl: "P s s"
    and trans: "P s t \<Longrightarrow> P t u \<Longrightarrow> P s u"
begin

lemma bind: "steps P m s \<Longrightarrow> (\<And>a s'. m s = Return (a, s') \<Longrightarrow> steps P (f a) s') \<Longrightarrow> steps P (cbind m f) s"
  unfolding steps_def cbind_eq_Return using trans by blast

lemma seq: "steps P m s \<Longrightarrow> (\<And>a s'. m s = Return (a, s') \<Longrightarrow> steps P n s') \<Longrightarrow> steps P (cseq m n) s"
  by (simp add: cseq_def bind)

lemma basic: "steps P (cret a) s" "steps P (cget f) s" "steps P (exit_process n) s"
  "steps P (\<lambda>s. Undefined u) s" "steps P (\<lambda>s. Blocked) s" "steps P (\<lambda>s. Diverges) s" "steps P (clift v) s"
  by (cases v; auto simp: steps_def cmd_run refl)+

lemma branch: "(b \<Longrightarrow> steps P m s) \<Longrightarrow> (\<not> b \<Longrightarrow> steps P n s) \<Longrightarrow> steps P (if b then m else n) s"
  by simp

lemma option_case:
  "(p = None \<Longrightarrow> steps P m s) \<Longrightarrow> (\<And>x. p = Some x \<Longrightarrow> steps P (f x) s) \<Longrightarrow>
     steps P (case p of None \<Rightarrow> m | Some x \<Rightarrow> f x) s"
  by (cases p) simp_all

lemma sum_case:
  "(\<And>x. p = Inl x \<Longrightarrow> steps P (f x) s) \<Longrightarrow> (\<And>y. p = Inr y \<Longrightarrow> steps P (g y) s) \<Longrightarrow>
     steps P (case p of Inl x \<Rightarrow> f x | Inr y \<Rightarrow> g y) s"
  by (cases p) simp_all

lemma pair_case: "(\<And>x y. p = (x, y) \<Longrightarrow> steps P (f x y) s) \<Longrightarrow> steps P (case p of (x, y) \<Rightarrow> f x y) s"
  by (cases p) simp

lemma guard: "steps P m s \<Longrightarrow> steps P (check b a m) s" "steps P u s \<Longrightarrow> steps P (cwhen b u) s"
  "steps P (lkey mr) s"
  by (auto simp: check_def cwhen_def lkey_def basic)

lemmas intros = bind seq basic branch option_case sum_case pair_case guard

end

section \<open>Relations every worker keeps\<close>

text \<open>
  The updates a worker makes to its \<open>client_info\<close> leave its transport, its connections and its number
  as they are. A relation that external calls, such updates, the other workers' structure and the store
  keep is kept by every operation of a worker.
\<close>

definition keeps_connection :: "(client_info \<Rightarrow> client_info) \<Rightarrow> bool" where
  "keeps_connection f \<longleftrightarrow>
     (\<forall>c. ci_type (f c) = ci_type c \<and> ci_tcp_client (f c) = ci_tcp_client c \<and>
        ci_rc_client (f c) = ci_rc_client c \<and> ci_uc_client (f c) = ci_uc_client c \<and>
        ci_client_nr (f c) = ci_client_nr c \<and> ci_blocking (f c) = ci_blocking c)"

lemma keeps_connection_simps [simp]:
  "keeps_connection (\<lambda>c. c\<lparr>ci_response := h c\<rparr>)" "keeps_connection (\<lambda>c. c\<lparr>ci_request_count := n c\<rparr>)"
  "keeps_connection (\<lambda>c. c\<lparr>ci_ud_client := d c\<rparr>)"
  by (simp_all add: keeps_connection_def)

locale worker_relation = step_relation P for P :: "server \<Rightarrow> server \<Rightarrow> bool" +
  assumes ext_kept: "steps P (ext c) s"
    and client_kept: "keeps_connection f \<Longrightarrow> steps P (upd_client f) s"
    and ud_server_kept: "steps P (upd_ud_server g) s"
begin

lemma ext_ignored: "steps P (ext_ignored c) s"
  unfolding ext_ignored_def by (intro intros ext_kept)

lemma errno: "steps P m s \<Longrightarrow> steps P (check_errno b m) s"
  by (simp add: check_errno_def basic)

lemma poll: "steps P (poll_loop fuel cq n wcs tot) s"
proof (induction fuel arbitrary: wcs tot s)
  case 0
  show ?case by (simp add: basic)
next
  case (Suc fuel)
  show ?case unfolding poll_loop.simps by (intro intros ext_kept Suc.IH)
qed

lemma process: "steps P (process_work_completion_events ch n cq b) s"
proof -
  have "steps P (\<lambda>s. poll_loop (Suc (length (script s))) cq n wcs tot s) s" for cq n wcs tot and s
    using poll [of "Suc (length (script s))" cq n wcs tot s] by (simp only: steps_def)
  then show ?thesis
    unfolding process_work_completion_events_def Let_def by (intro intros ext_kept ext_ignored errno)
qed

lemma state:
  "steps P (upd_response h) s" "steps P (upd_client (\<lambda>c. c\<lparr>ci_request_count := n c\<rparr>)) s"
  "steps P (upd_ud_server g) s" "steps P (pointee p) s" "steps P tcp_client s" "steps P rc_client s"
  "steps P uc_client s" "steps P ud_client s" "steps P (upd_ud k) s" "steps P (request_at i) s"
  "steps P (index xs j) s" "steps P ud_mutex_lock s" "steps P ud_mutex_unlock s"
proof -
  show "steps P (upd_response h) s" "steps P (upd_client (\<lambda>c. c\<lparr>ci_request_count := n c\<rparr>)) s"
    by (simp_all add: upd_response_def client_kept)
  show "steps P (upd_ud_server g) s" by (rule ud_server_kept)
  have p: "steps P (pointee p) s" for p s
    unfolding pointee_def by (intro intros)
  show "steps P (pointee p) s" by (rule p)
  show "steps P tcp_client s" "steps P rc_client s" "steps P uc_client s" and ud: "steps P ud_client s"
    unfolding tcp_client_def rc_client_def uc_client_def ud_client_def by (intro intros p)+
  show "steps P (upd_ud k) s"
    unfolding upd_ud_def by (intro intros ud client_kept keeps_connection_simps)
  show "steps P (request_at i) s" "steps P (index xs j) s"
    unfolding request_at_def index_def by (intro intros)+
  show "steps P ud_mutex_lock s" "steps P ud_mutex_unlock s"
    unfolding ud_mutex_lock_def ud_mutex_unlock_def by (intro intros ud_server_kept)+
qed

lemma post:
  "steps P (post_recieve z w q b) s" "steps P (post_send z w q m) s" "steps P (ud_post_send z w q m a n) s"
  unfolding post_recieve_def post_send_def ud_post_send_def by (intro intros ext_kept)+

lemmas server_intros = intros ext_kept ext_ignored errno process state post

lemma transport:
  "steps P prepare_for_next_request s" "steps P receive_header s" "steps P get_current_request s"
  "steps P ready_for_next_request s" "steps P send_response_to_client s" "steps P is_connection_closed s"
  unfolding prepare_for_next_request_def rc_post_receive_request_def uc_post_receive_request_def
    receive_header_def connection_ready_def tcp_read_header_def rc_receive_header_def uc_receive_header_def
    ud_receive_header_def get_current_request_def ready_for_next_request_def ud_post_receive_request_def
    send_response_to_client_def tcp_send_response_def rc_send_response_def uc_send_response_def
    ud_send_response_def is_connection_closed_def
  by (cases "ci_type (client s)"; intro server_intros; (simp add: cmd_run; intro server_intros)?)+

lemma send: "steps P (send_response c n p) s"
  unfolding send_response_def by (intro server_intros transport)

lemma setopt: "steps P (setopt_request r) s"
  unfolding setopt_request_def by (intro server_intros send)

lemma dispatcher: "steps P request_dispatcher s"
proof -
  have "steps P (case req_method r of PING \<Rightarrow> cbind ping (\<lambda>ignored. cret ())
     | EXIT \<Rightarrow> cbind (send_response OK 0 None) (\<lambda>ignored. exit_process 0)
     | SETOPT \<Rightarrow> cbind (setopt_request r) (\<lambda>ignored. cret ())
     | UNK \<Rightarrow> cbind (send_response PARSING_ERROR 0 None) (\<lambda>ignored. cret ())
     | _ \<Rightarrow> cret ()) s" for r s
    unfolding ping_def by (cases "req_method r"; simp; intro server_intros send setopt)
  then show ?thesis unfolding request_dispatcher_def by (intro server_intros transport)
qed

lemma receive: "steps P take_request s" "steps P recv_request s"
proof -
  show take: "steps P take_request s" for s
    unfolding take_request_def by (intro server_intros transport)
  show "steps P recv_request s"
    unfolding recv_request_def by (intro server_intros take dispatcher)
qed

end

text \<open>A relation the store's operations keep as well is kept by a whole turn of the loop.\<close>

locale store_relation = worker_relation +
  assumes store_kept: "steps P (on_store (m :: (memory, response) cmd)) s"
begin

lemma answer: "steps P (answer_request oks i) s"
  unfolding answer_request_def by (intro server_intros store_kept transport)

lemma round: "steps P (job_round oks) s"
  unfolding job_round_def by (intro server_intros transport receive answer)

lemma loop: "steps P (job_loop fuel oks) s"
proof (induction fuel arbitrary: s)
  case 0
  show ?case by (simp add: basic)
next
  case (Suc fuel)
  show ?case unfolding job_loop.simps by (intro server_intros round Suc.IH)
qed

end

section \<open>Two such relations\<close>

text \<open>
  A run consumes the script as it extends the trace, and it never changes whose client the worker
  serves.
\<close>

lemma ext_returns:
  "ext c s = Return (r, s') \<longleftrightarrow>
     (\<exists>rs. script s = r # rs \<and> s' = s\<lparr>script := rs, trace := trace s @ [(c, r)], rx := dma (rep_dma r) (rx s),
        errno := rep_errno r\<rparr>)"
  by (auto simp: ext_def split: list.splits)

interpretation run: store_relation consumes
proof
  fix s t u :: server
  show "consumes s s" by simp
  show "consumes s t \<Longrightarrow> consumes t u \<Longrightarrow> consumes s u" by (rule consumes_trans)
qed (auto simp: steps_def consumes_def ext_returns cmd_run on_store_def obind_eq_Return)

definition same_client :: "server \<Rightarrow> server \<Rightarrow> bool" where
  "same_client s s' \<longleftrightarrow>
     me s' = me s \<and> server_info s' = server_info s \<and> length (rx s') = length (rx s) \<and>
     ci_type (client s') = ci_type (client s) \<and> ci_tcp_client (client s') = ci_tcp_client (client s) \<and>
     ci_rc_client (client s') = ci_rc_client (client s) \<and> ci_uc_client (client s') = ci_uc_client (client s) \<and>
     ci_client_nr (client s') = ci_client_nr (client s) \<and> ci_blocking (client s') = ci_blocking (client s)"

interpretation same: store_relation same_client
  by unfold_locales
    (auto simp: steps_def same_client_def ext_returns cmd_run on_store_def obind_eq_Return keeps_connection_def)

section \<open>The fuel of the worker's loop\<close>

text \<open>Every turn that continues the loop makes at least one external call: it sends a response.\<close>

definition calls :: "(server, 'a) cmd \<Rightarrow> server \<Rightarrow> bool" where
  "calls m s \<longleftrightarrow> (\<forall>a s'. m s = Return (a, s') \<longrightarrow> length (script s') < length (script s))"

lemma calls_ext: "calls (ext c) s"
  by (cases "script s") (auto simp: calls_def cmd_run)

lemma calls_left:
  assumes m: "calls m s" and f: "\<And>a s'. steps consumes (f a) s'"
  shows "calls (cbind m f) s"
  unfolding calls_def
proof (intro allI impI)
  fix b u assume "cbind m f s = Return (b, u)"
  then obtain a t where t: "m s = Return (a, t)" "f a t = Return (b, u)" by (auto simp: cbind_eq_Return)
  have "length (script t) < length (script s)" using m t(1) by (simp add: calls_def)
  moreover have "length (script u) \<le> length (script t)" using stepsD [OF f t(2)] by (intro consumes_length)
  ultimately show "length (script u) < length (script s)" by simp
qed

lemma calls_right:
  assumes m: "steps consumes m s" and f: "\<And>a s'. calls (f a) s'"
  shows "calls (cbind m f) s"
  unfolding calls_def
proof (intro allI impI)
  fix b u assume "cbind m f s = Return (b, u)"
  then obtain a t where t: "m s = Return (a, t)" "f a t = Return (b, u)" by (auto simp: cbind_eq_Return)
  have "length (script t) \<le> length (script s)" using stepsD [OF m t(1)] by (intro consumes_length)
  moreover have "length (script u) < length (script t)" using f t(2) unfolding calls_def by blast
  ultimately show "length (script u) < length (script s)" by simp
qed

lemma calls_right_seq: "steps consumes m s \<Longrightarrow> (\<And>s'. calls n s') \<Longrightarrow> calls (cseq m n) s"
  by (simp add: cseq_def calls_right)

lemma post_calls: "calls (post_send z w q m) s" "calls (ud_post_send z w q m a n) s"
  unfolding post_send_def ud_post_send_def by (intro calls_left calls_ext run.basic)+

lemma send_calls: "calls send_response_to_client s"
proof -
  have tcp: "calls tcp_send_response s" for s
    unfolding tcp_send_response_def
    by (intro calls_right run.server_intros calls_left calls_ext)
  have rc: "calls rc_send_response s" for s
    unfolding rc_send_response_def
    by (intro calls_right calls_right_seq run.server_intros calls_left post_calls)
  have uc: "calls uc_send_response s" for s
    unfolding uc_send_response_def
    by (intro calls_right calls_right_seq run.server_intros calls_left post_calls)
  have ud: "calls ud_send_response s" for s
    unfolding ud_send_response_def
    by (intro calls_right calls_right_seq run.server_intros calls_left post_calls)
  show ?thesis
    using tcp rc uc ud unfolding send_response_to_client_def
    by (intro calls_right run.basic) (simp split: connection_type.split)
qed

lemma answer_calls: "calls (answer_request oks i) s"
  unfolding answer_request_def
  by (intro calls_right calls_right_seq calls_left send_calls run.server_intros run.store_kept run.transport)

lemma round_calls:
  assumes "job_round oks s = Return (res, s')" and "res \<noteq> No_request"
  shows "length (script s') < length (script s)"
proof -
  from assms(1) obtain n s1 cur s2 where s1: "prepare_for_next_request s = Return (n, s1)"
    "recv_request s1 = Return (cur, s2)"
    "(case cur of None \<Rightarrow> cret No_request | Some i \<Rightarrow> answer_request oks i) s2 = Return (res, s')"
    unfolding job_round_def cbind_eq_Return by blast
  from s1(3) assms(2) obtain i where i: "answer_request oks i s2 = Return (res, s')"
    by (cases cur) (auto simp: cmd_run)
  with answer_calls [of oks i s2] have "length (script s') < length (script s2)"
    unfolding calls_def by blast
  moreover have "length (script s2) \<le> length (script s1)" "length (script s1) \<le> length (script s)"
    using stepsD [OF run.transport(1) s1(1)] stepsD [OF run.receive(2) s1(2)]
    by (auto intro: consumes_length)
  ultimately show ?thesis by simp
qed

lemma job_loop_fuel:
  "length (script s) < fuel \<Longrightarrow> length (script s) < fuel' \<Longrightarrow> job_loop fuel oks s = job_loop fuel' oks s"
proof (induction fuel arbitrary: s fuel')
  case (Suc fuel)
  then obtain k where k: "fuel' = Suc k" by (cases fuel') auto
  have "(if res = Continue then job_loop fuel oks else cret res) s' =
      (if res = Continue then job_loop k oks else cret res) s'"
    if "job_round oks s = Return (res, s')" for res s'
  proof (cases "res = Continue")
    case True
    then have "length (script s') < length (script s)" using round_calls [OF that] by simp
    then have "job_loop fuel oks s' = job_loop k oks s'" using Suc.prems k by (intro Suc.IH) simp_all
    with True show ?thesis by simp
  qed simp
  then have "cbind (job_round oks) (\<lambda>res. if res = Continue then job_loop fuel oks else cret res) s =
      cbind (job_round oks) (\<lambda>res. if res = Continue then job_loop k oks else cret res) s"
    by (cases "job_round oks s") (auto simp: cbind_def)
  then show ?case by (simp only: k job_loop.simps)
qed simp

end
