(* ===== verification/Transport.thy ===== *)
theory Transport
  imports Worker Completions KV_Refinement
begin

text \<open>
  What a worker needs of its transport, as a locale, and what it does over any transport that
  provides it: every request of a conversation is answered in order, with the answer of the map the
  store represents. The locale is interpreted on all four transports in the theories that follow.

  The phases of a worker: \<open>idle s i\<close> before a request is received into slot \<open>i\<close>, \<open>busy s i r\<close> when
  request \<open>r\<close> has been received there, \<open>served s i r\<close> when the slot has been released by
  \<open>ready_for_next_request\<close>.
\<close>

section \<open>Conversations\<close>

text \<open>The requests that are answered without ending the process or asking the operating system.\<close>

definition plain_method :: "request \<Rightarrow> bool" where
  "plain_method r \<longleftrightarrow> req_method r \<in> {SET, GET, DEL, PING, DUMP, RST}"

text \<open>A PING is answered twice: by the dispatcher, and by the loop of \<open>main_job\<close> like any request.\<close>

definition answers :: "request \<Rightarrow> (byte list \<rightharpoonup> byte list) \<Rightarrow> response list" where
  "answers r m = (if req_method r = PING then [zero_response] else []) @ [fst (kv_spec r m)]"

fun all_answers :: "request list \<Rightarrow> (byte list \<rightharpoonup> byte list) \<Rightarrow> response list" where
  "all_answers [] m = []"
| "all_answers (r # rs) m = answers r m @ all_answers rs (snd (kv_spec r m))"

text \<open>
  The replies of the outside during a conversation: for each request its arrival, the sending of the
  dispatcher's response if there is one, the release of the slot, the sending of the answer.
\<close>

fun conversation ::
  "(nat \<Rightarrow> request \<Rightarrow> request reply list \<Rightarrow> bool) \<Rightarrow> (request reply list \<Rightarrow> bool) \<Rightarrow>
   (request reply list \<Rightarrow> bool) \<Rightarrow> nat \<Rightarrow> nat \<Rightarrow> request list \<Rightarrow> request reply list \<Rightarrow> bool" where
  "conversation arrives posted delivered ring i [] sc \<longleftrightarrow> sc = []"
| "conversation arrives posted delivered ring i (r # rs) sc \<longleftrightarrow>
     (\<exists>a p q d rest. sc = a @ p @ q @ d @ rest \<and> arrives i r a \<and>
        (if req_method r = PING then delivered p else p = []) \<and> posted q \<and> delivered d \<and>
        conversation arrives posted delivered ring ((i + 1) mod ring) rs rest)"

section \<open>The calls of a conversation\<close>

text \<open>
  Where a worker's messages go: the socket of a TCP client, the queue pair of an RC or a UC client, and
  for datagrams the queue pair of the server with the address handles and attributes of the clients.
\<close>

record endpoint =
  ep_socket :: "int option"
  ep_rc :: "int option"
  ep_uc :: "int option"
  ep_ud :: int
  ep_ah :: "int list"
  ep_attrs :: "qp_attr list"

definition endpoints :: "server \<Rightarrow> endpoint" where
  "endpoints s =
     \<lparr>ep_socket = map_option tcp_socket_fd (ci_tcp_client (client s)),
      ep_rc = map_option rc_client_qp (ci_rc_client (client s)),
      ep_uc = map_option uc_client_qp (ci_uc_client (client s)),
      ep_ud = uds_ud_qp (ud_server s), ep_ah = uds_ah (ud_server s),
      ep_attrs = uds_remote_dgram_qp_attrs (ud_server s)\<rparr>"

text \<open>
  The calls that move data when request \<open>r\<close> is received into slot \<open>i\<close> and answered: those before the
  request is there, the dispatcher's response if there is one, those that release the slot, the answer.
\<close>

definition turn_work ::
  "(endpoint \<Rightarrow> nat \<Rightarrow> response call list) \<Rightarrow> (endpoint \<Rightarrow> nat \<Rightarrow> response call list) \<Rightarrow>
   (endpoint \<Rightarrow> request \<Rightarrow> response \<Rightarrow> response call) \<Rightarrow> endpoint \<Rightarrow> nat \<Rightarrow> request \<Rightarrow>
   (byte list \<rightharpoonup> byte list) \<Rightarrow> response call list" where
  "turn_work before release reply e i r m =
     before e i @ (if req_method r = PING then [reply e r zero_response] else []) @ release e i @
     [reply e r (fst (kv_spec r m))]"

fun session_work ::
  "(endpoint \<Rightarrow> nat \<Rightarrow> response call list) \<Rightarrow> (endpoint \<Rightarrow> nat \<Rightarrow> response call list) \<Rightarrow>
   (endpoint \<Rightarrow> request \<Rightarrow> response \<Rightarrow> response call) \<Rightarrow> endpoint \<Rightarrow> nat \<Rightarrow> nat \<Rightarrow> request list \<Rightarrow>
   (byte list \<rightharpoonup> byte list) \<Rightarrow> response call list" where
  "session_work before release reply e ring i [] m = []"
| "session_work before release reply e ring i (r # rs) m =
     turn_work before release reply e i r m @
     session_work before release reply e ring ((i + 1) mod ring) rs (snd (kv_spec r m))"

section \<open>What stays the same\<close>

definition kept :: "response list \<Rightarrow> (nat \<times> request) list \<Rightarrow> server \<Rightarrow> server \<Rightarrow> bool" where
  "kept out ws s s' \<longleftrightarrow>
     rx s' = dma ws (rx s) \<and> store s' = store s \<and> me s' = me s \<and> ci_response (client s') = ci_response (client s) \<and>
     sent_messages (trace s') = sent_messages (trace s) @ out"

definition worked :: "response call list \<Rightarrow> (nat \<times> request) list \<Rightarrow> server \<Rightarrow> server \<Rightarrow> bool" where
  "worked out ws s s' \<longleftrightarrow>
     rx s' = dma ws (rx s) \<and> store s' = store s \<and> me s' = me s \<and> ci_response (client s') = ci_response (client s) \<and>
     endpoints s' = endpoints s \<and> work_calls (trace s') = work_calls (trace s) @ out"

definition set_response :: "response \<Rightarrow> server \<Rightarrow> server" where
  "set_response x s = s\<lparr>client := (client s)\<lparr>ci_response := x\<rparr>\<rparr>"

definition set_store :: "memory \<Rightarrow> server \<Rightarrow> server" where
  "set_store t s = s\<lparr>store := t\<rparr>"

lemma set_simps [simp]:
  "store (set_response x s) = store s" "me (set_response x s) = me s" "rx (set_response x s) = rx s"
  "script (set_response x s) = script s" "trace (set_response x s) = trace s"
  "ci_response (client (set_response x s)) = x" "ci_type (client (set_response x s)) = ci_type (client s)"
  "ud_server (set_response x s) = ud_server s"
  "store (set_store t s) = t" "me (set_store t s) = me s" "rx (set_store t s) = rx s"
  "script (set_store t s) = script s" "trace (set_store t s) = trace s"
  "client (set_store t s) = client s" "ud_server (set_store t s) = ud_server s"
  "set_response y (set_response x s) = set_response y s"
  "endpoints (set_response x s) = endpoints s" "endpoints (set_store t s) = endpoints s"
  by (simp_all add: set_response_def set_store_def endpoints_def)

lemma response_all_fields [simp]:
  "x\<lparr>resp_code := a, resp_msg := b, resp_msg_len := c\<rparr> = \<lparr>resp_code = a, resp_msg = b, resp_msg_len = c\<rparr>"
  for x :: response
  by (cases x) simp

lemma more_server:
  fixes s s' :: server
  assumes "io.more s' = io.more s"
  shows "store s' = store s" "server_info s' = server_info s" "ud_server s' = ud_server s"
    "client s' = client s" "me s' = me s"
  using assms by (cases s; cases s'; simp)+

lemma worked_kept: "worked out ws s s' \<Longrightarrow> kept (messages_of out) ws s s'"
  by (simp add: worked_def kept_def flip: messages_of_work)

lemma io_work_worked: "io_work out ws s s' \<Longrightarrow> worked out ws s s'"
  using more_server [of s' s] by (simp add: io_work_def worked_def endpoints_def)

lemma io_work_same:
  "io_work out ws s s' \<Longrightarrow> client s' = client s \<and> ud_server s' = ud_server s \<and> rx s' = dma ws (rx s)"
  for s :: server
  using more_server(3,4) [of s' s] by (simp add: io_work_def)

lemma kept_trans: "kept o1 w1 s t \<Longrightarrow> kept o2 w2 t u \<Longrightarrow> kept (o1 @ o2) (w1 @ w2) s u"
  by (simp add: kept_def)

section \<open>The contract\<close>

locale transport =
  fixes idle :: "server \<Rightarrow> nat \<Rightarrow> bool"
    and busy :: "server \<Rightarrow> nat \<Rightarrow> request \<Rightarrow> bool"
    and served :: "server \<Rightarrow> nat \<Rightarrow> request \<Rightarrow> bool"
    and arrives :: "nat \<Rightarrow> request \<Rightarrow> request reply list \<Rightarrow> bool"
    and posted :: "request reply list \<Rightarrow> bool"
    and delivered :: "request reply list \<Rightarrow> bool"
    and ring :: nat
    and before :: "endpoint \<Rightarrow> nat \<Rightarrow> response call list"
    and release :: "endpoint \<Rightarrow> nat \<Rightarrow> response call list"
    and reply :: "endpoint \<Rightarrow> request \<Rightarrow> response \<Rightarrow> response call"
  assumes receive_law: "idle s i \<Longrightarrow> arrives i r a \<Longrightarrow> script s = a @ rest \<Longrightarrow>
      \<exists>s'. cseq prepare_for_next_request take_request s = Return (Some (int i), s') \<and> script s' = rest \<and>
        busy s' i r \<and> worked (before (endpoints s) i) [(i, r)] s s'"
    and busy_current: "busy s i r \<Longrightarrow>
      get_current_request s = Return (int i, s) \<and> request_at (int i) s = Return (r, s)"
    and served_request: "served s i r \<Longrightarrow> request_at (int i) s = Return (r, s)"
    and served_ring: "served s i r \<Longrightarrow> i < length (rx s)"
    and served_idle: "served s i r \<Longrightarrow> idle s ((i + 1) mod ring)"
    and send_busy: "busy s i r \<Longrightarrow> delivered d \<Longrightarrow> script s = d @ rest \<Longrightarrow>
      \<exists>n s'. send_response_to_client s = Return (n, s') \<and> 0 \<le> n \<and> script s' = rest \<and> busy s' i r \<and>
        worked [reply (endpoints s) r (ci_response (client s))] [] s s'"
    and send_served: "served s i r \<Longrightarrow> delivered d \<Longrightarrow> script s = d @ rest \<Longrightarrow>
      \<exists>n s'. send_response_to_client s = Return (n, s') \<and> 0 \<le> n \<and> script s' = rest \<and> served s' i r \<and>
        worked [reply (endpoints s) r (ci_response (client s))] [] s s'"
    and ready_law: "busy s i r \<Longrightarrow> posted q \<Longrightarrow> script s = q @ rest \<Longrightarrow>
      \<exists>s'. ready_for_next_request s = Return ((), s') \<and> script s' = rest \<and> served s' i r \<and>
        worked (release (endpoints s) i) [] s s'"
    and busy_response: "busy (set_response x s) i r = busy s i r"
    and served_response: "served (set_response x s) i r = served s i r"
    and served_store: "served (set_store t s) i r = served s i r"
    and silent: "messages_of (before e i) = []" "messages_of (release e i) = []"
    and reply_message: "messages_of [reply e r x] = [x]"
begin

lemma turn_messages: "messages_of (turn_work before release reply e i r m) = answers r m"
  by (simp add: turn_work_def answers_def silent reply_message)

lemma session_messages: "messages_of (session_work before release reply e ring i rs m) = all_answers rs m"
  by (induction rs arbitrary: i m) (simp_all add: turn_messages)

lemma send_zero_run:
  assumes "busy s i r" and "delivered d" and "script s = d @ rest"
  shows "\<exists>s'. send_response OK 0 None s = Return (0, s') \<and> script s' = rest \<and> busy s' i r \<and>
    rx s' = rx s \<and> store s' = store s \<and> me s' = me s \<and> endpoints s' = endpoints s \<and>
    work_calls (trace s') = work_calls (trace s) @ [reply (endpoints s) r zero_response]"
proof -
  let ?s = "set_response zero_response s"
  have "busy ?s i r" using assms(1) by (simp add: busy_response)
  from send_busy [OF this assms(2), of rest] assms(3) obtain n s' where
    s': "send_response_to_client ?s = Return (n, s')" "0 \<le> n" "script s' = rest" "busy s' i r"
      "worked [reply (endpoints s) r zero_response] [] ?s s'" by auto
  have "send_response OK 0 None s = (if n < 0 then Return (- 1, s') else Return (0, s'))"
    using s'(1) by (simp add: send_response_def cmd_run set_response_def zero_response_def)
  with s' show ?thesis by (auto simp: worked_def)
qed

lemma dispatch_run:
  assumes "busy s i r" and "plain_method r" and "if req_method r = PING then delivered p else p = []"
    and "script s = p @ rest"
  shows "\<exists>s'. request_dispatcher s = Return ((), s') \<and> script s' = rest \<and> busy s' i r \<and>
    rx s' = rx s \<and> store s' = store s \<and> me s' = me s \<and> endpoints s' = endpoints s \<and>
    work_calls (trace s') = work_calls (trace s) @
      (if req_method r = PING then [reply (endpoints s) r zero_response] else [])"
proof (cases "req_method r = PING")
  case True
  with send_zero_run [OF assms(1) _ assms(4)] assms(3) obtain s' where
    "send_response OK 0 None s = Return (0, s')" "script s' = rest" "busy s' i r" "rx s' = rx s" "store s' = store s"
    "me s' = me s" "endpoints s' = endpoints s"
    "work_calls (trace s') = work_calls (trace s) @ [reply (endpoints s) r zero_response]" by auto
  with True busy_current [OF assms(1)] show ?thesis
    by (simp add: request_dispatcher_def ping_def cmd_run)
next
  case False
  with busy_current [OF assms(1)] assms show ?thesis
    by (auto simp: request_dispatcher_def cmd_run plain_method_def)
qed

text \<open>
  One turn of the loop. Whether it is the last is decided by slot 0, whatever the slot of the request.
\<close>

lemma round_run:
  assumes idle: "idle s i" and st: "stores (store s) m" and sc: "script s = a @ p @ q @ d @ rest"
    and replies: "arrives i r a" "if req_method r = PING then delivered p else p = []" "posted q" "delivered d"
    and r: "plain_method r" "request_served r m"
  shows "\<exists>s'. job_round (True, True, True) s =
      Return (if req_connection_close (rx s' ! 0) = 0 then Continue else Close, s') \<and> script s' = rest \<and>
    rx s' = (rx s)[i := r] \<and> idle s' ((i + 1) mod ring) \<and> stores (store s') (snd (kv_spec r m)) \<and>
    sent_messages (trace s') = sent_messages (trace s) @ answers r m \<and> endpoints s' = endpoints s \<and>
    work_calls (trace s') = work_calls (trace s) @ turn_work before release reply (endpoints s) i r m"
proof -
  from receive_law [OF idle replies(1) sc] obtain s1 where s1:
    "cseq prepare_for_next_request take_request s = Return (Some (int i), s1)"
    "script s1 = p @ q @ d @ rest" "busy s1 i r" "worked (before (endpoints s) i) [(i, r)] s s1" by blast
  from s1(1) obtain n s0 where s0: "prepare_for_next_request s = Return (n, s0)"
    "take_request s0 = Return (Some (int i), s1)" by (auto simp: cseq_eq_Return)
  from dispatch_run [OF s1(3) r(1) replies(2) s1(2)] obtain s2 where s2:
    "request_dispatcher s1 = Return ((), s2)" "script s2 = q @ d @ rest" "busy s2 i r"
    "rx s2 = rx s1" "store s2 = store s1" "me s2 = me s1" "endpoints s2 = endpoints s1"
    "work_calls (trace s2) = work_calls (trace s1) @
      (if req_method r = PING then [reply (endpoints s1) r zero_response] else [])"
    by blast
  have recv: "recv_request s0 = Return (Some (int i), s2)"
    using s0(2) s2(1) by (simp add: recv_request_def cmd_run)
  from ready_law [OF s2(3) replies(3) s2(2)] obtain s3 where s3:
    "ready_for_next_request s2 = Return ((), s3)" "script s3 = d @ rest" "served s3 i r"
    "worked (release (endpoints s2) i) [] s2 s3" by blast
  have ep: "endpoints s1 = endpoints s" "endpoints s2 = endpoints s" "endpoints s3 = endpoints s"
    using s1(4) s2(7) s3(4) by (simp_all add: worked_def)
  have "stores (store s3) m" using st s1(4) s2(5) s3(4) by (simp add: worked_def)
  from serve_request_refines [OF this r(2), of "me s3"] obtain t where t:
    "serve_request (me s3) (True, True, True) r zero_response (store s3) = Return (fst (kv_spec r m), t)"
    "stores t (snd (kv_spec r m))" by blast
  let ?x = "fst (kv_spec r m)"
  let ?s5 = "set_response ?x (set_store t (set_response zero_response s3))"
  have served5: "served ?s5 i r" using s3(3) by (simp add: served_response served_store)
  from send_served [OF this replies(4), of rest] s3(2) obtain k s6 where s6:
    "send_response_to_client ?s5 = Return (k, s6)" "script s6 = rest" "served s6 i r"
    "worked [reply (endpoints s) r ?x] [] ?s5 s6"
    using ep by auto
  let ?res = "if req_connection_close (rx s6 ! 0) = 0 then Continue else Close"
  have "request_at 0 s6 = Return (rx s6 ! 0, s6)"
    using served_ring [OF s6(3)] by (intro request_at_run [of 0, simplified]) auto
  then have closed: "cbind is_connection_closed (\<lambda>c. cret (if c then Close else Continue)) s6 = Return (?res, s6)"
    by (simp add: is_connection_closed_def cmd_run cbind_assoc)
  have "request_at (int i) (set_response zero_response s3) = Return (r, set_response zero_response s3)"
    using s3(3) by (intro served_request) (simp add: served_response)
  then have "answer_request (True, True, True) (int i) s2 = Return (?res, s6)"
    using busy_current [OF s2(3)] s3(1) t(1) s6(1) closed r(1)
    by (simp add: answer_request_def cmd_run plain_method_def set_response_def set_store_def)
       (auto simp: cmd_run)
  then have "job_round (True, True, True) s = Return (?res, s6)"
    using s0(1) recv by (simp add: job_round_def cmd_run)
  moreover have work: "work_calls (trace s6) =
      work_calls (trace s) @ turn_work before release reply (endpoints s) i r m"
    using s1(4) s2(8) s3(4) s6(4) ep by (simp add: worked_def turn_work_def)
  moreover have "sent_messages (trace s6) = sent_messages (trace s) @ answers r m"
    using arg_cong [OF work, of messages_of] by (simp only: messages_of_append messages_of_work turn_messages)
  moreover have "rx s6 = (rx s)[i := r]" using s1(4) s2(4) s3(4) s6(4) by (simp add: worked_def)
  ultimately show ?thesis
    using s6(2,4) served_idle [OF s6(3)] t(2) ep by (auto simp: worked_def)
qed

lemma session_run:
  assumes "idle s i" and "stores (store s) m" and "req_connection_close (rx s ! 0) = 0"
    and "conversation arrives posted delivered ring i rs sc" and "script s = sc @ rest"
    and "\<forall>r \<in> set rs. plain_method r \<and> req_connection_close r = 0"
    and "ok_all kv_spec request_served rs m" and "i < ring"
  shows "\<exists>s'. (\<forall>fuel. job_loop (length rs + fuel) (True, True, True) s = job_loop fuel (True, True, True) s') \<and>
    script s' = rest \<and> idle s' ((i + length rs) mod ring) \<and> req_connection_close (rx s' ! 0) = 0 \<and>
    stores (store s') (snd (spec_all kv_spec rs m)) \<and>
    sent_messages (trace s') = sent_messages (trace s) @ all_answers rs m \<and> endpoints s' = endpoints s \<and>
    work_calls (trace s') =
      work_calls (trace s) @ session_work before release reply (endpoints s) ring i rs m"
  using assms
proof (induction rs arbitrary: s i m sc)
  case Nil
  then show ?case by auto
next
  case (Cons r rs)
  from Cons.prems(4) obtain a p q d sc' where sc: "sc = a @ p @ q @ d @ sc'" "arrives i r a"
    "if req_method r = PING then delivered p else p = []" "posted q" "delivered d"
    "conversation arrives posted delivered ring ((i + 1) mod ring) rs sc'" by auto
  have script: "script s = a @ p @ q @ d @ (sc' @ rest)" using Cons.prems(5) sc(1) by simp
  from round_run [OF Cons.prems(1,2) script sc(2-5)] Cons.prems(6,7) obtain s1 where s1:
    "job_round (True, True, True) s = Return (if req_connection_close (rx s1 ! 0) = 0 then Continue else Close, s1)"
    "script s1 = sc' @ rest" "rx s1 = (rx s)[i := r]"
    "idle s1 ((i + 1) mod ring)" "stores (store s1) (snd (kv_spec r m))"
    "sent_messages (trace s1) = sent_messages (trace s) @ answers r m" "endpoints s1 = endpoints s"
    "work_calls (trace s1) = work_calls (trace s) @ turn_work before release reply (endpoints s) i r m"
    by auto
  have slot0: "req_connection_close (rx s1 ! 0) = 0"
    using Cons.prems(3,6) s1(3) by (cases i; cases "rx s") auto
  have "(i + 1) mod ring < ring" using Cons.prems(8) by simp
  with Cons.IH [OF s1(4,5) slot0 sc(6) s1(2)] Cons.prems(6,7) obtain s' where s':
    "\<forall>fuel. job_loop (length rs + fuel) (True, True, True) s1 = job_loop fuel (True, True, True) s'"
    "script s' = rest" "idle s' (((i + 1) mod ring + length rs) mod ring)"
    "req_connection_close (rx s' ! 0) = 0"
    "stores (store s') (snd (spec_all kv_spec rs (snd (kv_spec r m))))"
    "sent_messages (trace s') = sent_messages (trace s1) @ all_answers rs (snd (kv_spec r m))"
    "endpoints s' = endpoints s1"
    "work_calls (trace s') = work_calls (trace s1) @
      session_work before release reply (endpoints s1) ring ((i + 1) mod ring) rs (snd (kv_spec r m))" by auto
  have "((i + 1) mod ring + length rs) mod ring = (i + length (r # rs)) mod ring"
    by (simp add: mod_add_left_eq)
  with s' s1 slot0 show ?case by (intro exI [of _ s']) (simp add: cmd_run)
qed

end

end
