(* ===== verification/Ring_Transport.thy ===== *)
theory Ring_Transport
  imports Transport
begin

text \<open>
  The three transports whose workers have their own ring of \<^const>\<open>REQUEST_BACKLOG\<close> request buffers:
  TCP, RC and UC. The locale \<open>ring_transport\<close> states what differs between them (how a request arrives
  and how a response is sent), the \<open>sublocale\<close> shows that this gives a \<open>transport\<close>, and the three
  interpretations discharge it for the functions of the code.
\<close>

section \<open>The phases of a worker with a ring\<close>

definition ring_ok :: "(client_info \<Rightarrow> bool) \<Rightarrow> server \<Rightarrow> bool" where
  "ring_ok conn s \<longleftrightarrow>
     conn (client s) \<and> length (rx s) = REQUEST_BACKLOG"

definition ring_idle :: "(client_info \<Rightarrow> bool) \<Rightarrow> server \<Rightarrow> nat \<Rightarrow> bool" where
  "ring_idle conn s i \<longleftrightarrow>
     ring_ok conn s \<and> i < REQUEST_BACKLOG \<and> unat (ci_request_count (client s)) = i"

definition ring_busy :: "(client_info \<Rightarrow> bool) \<Rightarrow> server \<Rightarrow> nat \<Rightarrow> request \<Rightarrow> bool" where
  "ring_busy conn s i r \<longleftrightarrow> ring_idle conn s i \<and> rx s ! i = r"

definition ring_served :: "(client_info \<Rightarrow> bool) \<Rightarrow> server \<Rightarrow> nat \<Rightarrow> request \<Rightarrow> bool" where
  "ring_served conn s i r \<longleftrightarrow>
     ring_idle conn s ((i + 1) mod REQUEST_BACKLOG) \<and> i < REQUEST_BACKLOG \<and> rx s ! i = r"

lemmas ring_defs = ring_ok_def ring_idle_def ring_busy_def ring_served_def

lemma next_slot:
  assumes "unat (c :: u32) < REQUEST_BACKLOG"
  shows "unat ((c + 1) mod of_nat REQUEST_BACKLOG) = (unat c + 1) mod REQUEST_BACKLOG"
proof -
  have "unat (c + 1) = unat c + 1"
    using assms by (simp add: unat_word_ariths REQUEST_BACKLOG_def)
  then show ?thesis by (simp add: unat_mod REQUEST_BACKLOG_def)
qed

section \<open>What the three have in common\<close>

locale ring_transport =
  fixes conn :: "client_info \<Rightarrow> bool"
    and arrives :: "nat \<Rightarrow> request \<Rightarrow> request reply list \<Rightarrow> bool"
    and delivered :: "request reply list \<Rightarrow> bool"
    and before :: "endpoint \<Rightarrow> nat \<Rightarrow> response call list"
    and reply :: "endpoint \<Rightarrow> request \<Rightarrow> response \<Rightarrow> response call"
  assumes arrival: "conn (client s) \<Longrightarrow> arrives j r a \<Longrightarrow> script s = a @ rest \<Longrightarrow>
      \<exists>n s'. cseq prepare_for_next_request receive_header s = Return (n, s') \<and> n \<noteq> - 1 \<and>
        script s' = rest \<and> io_work (before (endpoints s) (unat (ci_request_count (client s)))) [(j, r)] s s'"
    and delivery: "conn (client s) \<Longrightarrow> delivered d \<Longrightarrow> script s = d @ rest \<Longrightarrow>
      \<exists>n s'. send_response_to_client s = Return (n, s') \<and> 0 \<le> n \<and> script s' = rest \<and>
        io_work [reply (endpoints s) r' (ci_response (client s))] [] s s'"
    and conn_type: "conn c \<Longrightarrow> ci_type c \<noteq> UD"
    and conn_upd: "conn (c\<lparr>ci_response := x\<rparr>) = conn c" "conn (c\<lparr>ci_request_count := k\<rparr>) = conn c"
    and quiet: "messages_of (before e i) = []"
    and carries: "messages_of [reply e q x] = [x]"
begin

lemma current_run: "conn (client s) \<Longrightarrow> get_current_request s = Return (uint (ci_request_count (client s)), s)"
  using conn_type [of "client s"]
  by (cases "ci_type (client s)") (simp_all add: get_current_request_def cmd_run)

lemma receive_run:
  assumes "ring_idle conn s i" and "arrives j r a" and "script s = a @ rest"
  shows "\<exists>s'. cseq prepare_for_next_request take_request s = Return (Some (int i), s') \<and> script s' = rest \<and>
    ring_idle conn s' i \<and> worked (before (endpoints s) i) [(j, r)] s s'"
proof -
  have s: "conn (client s)" "unat (ci_request_count (client s)) = i" "i < REQUEST_BACKLOG"
    "length (rx s) = REQUEST_BACKLOG"
    using assms(1) by (simp_all add: ring_defs)
  from arrival [OF s(1) assms(2,3)] obtain n s' where s':
    "cseq prepare_for_next_request receive_header s = Return (n, s')" "n \<noteq> - 1" "script s' = rest"
    "io_work (before (endpoints s) i) [(j, r)] s s'" using s(2) by blast
  have c: "client s' = client s" "rx s' = (rx s)[j := r]"
    using io_work_same [OF s'(4)] by simp_all
  have "uint (ci_request_count (client s)) = int i" using s(2) by (simp flip: s(2) uint_nat)
  moreover from s'(1) obtain k s0 where "prepare_for_next_request s = Return (k, s0)"
    "receive_header s0 = Return (n, s')" by (auto simp: cseq_eq_Return)
  ultimately have "cseq prepare_for_next_request take_request s = Return (Some (int i), s')"
    using s'(2) current_run [of s'] c(1) s(1) conn_type [OF s(1)]
    by (simp add: take_request_def cmd_run)
  moreover have "ring_idle conn s' i" using s c by (simp add: ring_defs)
  ultimately show ?thesis using s'(3) io_work_worked [OF s'(4)] by blast
qed

lemma send_run:
  assumes "ring_ok conn s" and "delivered d" and "script s = d @ rest"
  shows "\<exists>n s'. send_response_to_client s = Return (n, s') \<and> 0 \<le> n \<and> script s' = rest \<and>
    client s' = client s \<and> rx s' = rx s \<and>
    worked [reply (endpoints s) q (ci_response (client s))] [] s s'"
proof -
  from assms(1) have "conn (client s)" by (simp add: ring_ok_def)
  from delivery [OF this assms(2,3), of q] obtain n s' where s':
    "send_response_to_client s = Return (n, s')" "0 \<le> n" "script s' = rest"
    "io_work [reply (endpoints s) q (ci_response (client s))] [] s s'" by blast
  moreover have "client s' = client s" "rx s' = rx s"
    using io_work_same [OF s'(4)] by simp_all
  ultimately show ?thesis using io_work_worked [OF s'(4)] by blast
qed

lemma ready_run:
  assumes "conn (client s)"
  shows "ready_for_next_request s = Return ((), s\<lparr>client := (client s)
    \<lparr>ci_request_count := (ci_request_count (client s) + 1) mod of_nat REQUEST_BACKLOG\<rparr>\<rparr>)"
  using conn_type [OF assms]
  by (cases "ci_type (client s)") (simp_all add: ready_for_next_request_def cmd_run)

end

sublocale ring_transport \<subseteq> transport "ring_idle conn" "ring_busy conn" "ring_served conn" arrives
  "\<lambda>q. q = []" delivered REQUEST_BACKLOG before "\<lambda>e i. []" reply
proof
  fix s :: server and i r a rest and q d :: "request reply list" and x t and e :: endpoint
  show "\<exists>s'. cseq prepare_for_next_request take_request s = Return (Some (int i), s') \<and> script s' = rest \<and>
      ring_busy conn s' i r \<and> worked (before (endpoints s) i) [(i, r)] s s'"
    if "ring_idle conn s i" "arrives i r a" "script s = a @ rest"
    using receive_run [OF that] that(1) by (auto simp: ring_defs worked_def)
  show "get_current_request s = Return (int i, s) \<and> request_at (int i) s = Return (r, s)"
    if "ring_busy conn s i r"
    using that current_run [of s] by (auto simp: ring_defs cmd_run simp flip: uint_nat)
  show "request_at (int i) s = Return (r, s)" if "ring_served conn s i r"
    using that by (auto simp: ring_defs cmd_run)
  show "i < length (rx s)" if "ring_served conn s i r"
    using that by (simp add: ring_defs)
  show "ring_idle conn s ((i + 1) mod REQUEST_BACKLOG)" if "ring_served conn s i r"
    using that by (simp add: ring_served_def)
  show "\<exists>n s'. send_response_to_client s = Return (n, s') \<and> 0 \<le> n \<and> script s' = rest \<and> ring_busy conn s' i r \<and>
      worked [reply (endpoints s) r (ci_response (client s))] [] s s'"
    if "ring_busy conn s i r" "delivered d" "script s = d @ rest"
  proof -
    have "ring_ok conn s" using that(1) by (simp add: ring_defs)
    from send_run [OF this that(2,3)] obtain n s' where "send_response_to_client s = Return (n, s')"
      "0 \<le> n" "script s' = rest" "client s' = client s" "rx s' = rx s"
      "worked [reply (endpoints s) r (ci_response (client s))] [] s s'" by blast
    moreover from this that(1) have "ring_busy conn s' i r" by (simp add: ring_defs)
    ultimately show ?thesis by blast
  qed
  show "\<exists>n s'. send_response_to_client s = Return (n, s') \<and> 0 \<le> n \<and> script s' = rest \<and> ring_served conn s' i r \<and>
      worked [reply (endpoints s) r (ci_response (client s))] [] s s'"
    if "ring_served conn s i r" "delivered d" "script s = d @ rest"
  proof -
    have "ring_ok conn s" using that(1) by (simp add: ring_defs)
    from send_run [OF this that(2,3)] obtain n s' where "send_response_to_client s = Return (n, s')"
      "0 \<le> n" "script s' = rest" "client s' = client s" "rx s' = rx s"
      "worked [reply (endpoints s) r (ci_response (client s))] [] s s'" by blast
    moreover from this that(1) have "ring_served conn s' i r" by (simp add: ring_defs)
    ultimately show ?thesis by blast
  qed
  show "\<exists>s'. ready_for_next_request s = Return ((), s') \<and> script s' = rest \<and> ring_served conn s' i r \<and> worked [] [] s s'"
    if "ring_busy conn s i r" "q = []" "script s = q @ rest"
  proof -
    have c: "conn (client s)" "unat (ci_request_count (client s)) = i" "i < REQUEST_BACKLOG"
      using that(1) by (simp_all add: ring_defs)
    have "unat ((ci_request_count (client s) + 1) mod of_nat REQUEST_BACKLOG) = (i + 1) mod REQUEST_BACKLOG"
      using next_slot [of "ci_request_count (client s)"] c by simp
    then show ?thesis
      using ready_run [OF c(1)] that by (simp add: ring_defs worked_def endpoints_def conn_upd)
  qed
  show "ring_busy conn (set_response x s) i r = ring_busy conn s i r"
    "ring_served conn (set_response x s) i r = ring_served conn s i r"
    "ring_served conn (set_store t s) i r = ring_served conn s i r"
    by (simp_all add: ring_defs conn_upd set_response_def set_store_def)
  show "messages_of (before e i) = []" "messages_of ([] :: response call list) = []"
    "messages_of [reply e r x] = [x]"
    by (simp_all add: quiet carries)
qed

section \<open>TCP\<close>

definition tcp_conn :: "client_info \<Rightarrow> bool" where
  "tcp_conn c \<longleftrightarrow> ci_type c = TCP \<and> ci_tcp_client c \<noteq> None"

definition tcp_arrives :: "nat \<Rightarrow> request \<Rightarrow> request reply list \<Rightarrow> bool" where
  "tcp_arrives i r a \<longleftrightarrow>
     (\<exists>sel rd. a = [sel, rd] \<and> rep_ret sel \<noteq> - 1 \<and> rep_dma sel = [] \<and>
        rep_ret rd = int sizeof_request \<and> rep_dma rd = [(i, r)])"

definition tcp_delivered :: "request reply list \<Rightarrow> bool" where
  "tcp_delivered d \<longleftrightarrow> (\<exists>w. d = [w] \<and> rep_ret w = int sizeof_response \<and> rep_dma w = [])"

definition tcp_reply :: "endpoint \<Rightarrow> request \<Rightarrow> response \<Rightarrow> response call" where
  "tcp_reply e r x = Write_message (the (ep_socket e)) x"

lemma tcp_arrival:
  assumes "tcp_conn (client s)" and "tcp_arrives i r a"
    and "script s = a @ rest"
  shows "\<exists>n s'. cseq prepare_for_next_request receive_header s = Return (n, s') \<and> n \<noteq> - 1 \<and>
    script s' = rest \<and> io_work [] [(i, r)] s s'"
proof -
  from assms(2,3) obtain sel rd where sc: "script s = sel # rd # rest" "rep_ret sel \<noteq> - 1"
    "rep_dma sel = []" "rep_ret rd = int sizeof_request" "rep_dma rd = [(i, r)]"
    by (auto simp: tcp_arrives_def)
  from assms(1) obtain t where t: "ci_type (client s) = TCP" "ci_tcp_client (client s) = Some t"
    by (auto simp: tcp_conn_def)
  show ?thesis
    using sc t
    by (simp add: prepare_for_next_request_def receive_header_def connection_ready_def tcp_read_header_def
          cmd_run io_work_def sizeof_request_def)
qed

lemma tcp_delivery:
  assumes "tcp_conn (client s)" and "tcp_delivered d" and "script s = d @ rest"
  shows "\<exists>n s'. send_response_to_client s = Return (n, s') \<and> 0 \<le> n \<and> script s' = rest \<and>
    io_work [tcp_reply (endpoints s) q (ci_response (client s))] [] s s'"
proof -
  from assms(2,3) obtain w where w: "script s = w # rest" "rep_ret w = int sizeof_response" "rep_dma w = []"
    by (auto simp: tcp_delivered_def)
  from assms(1) obtain t where "ci_type (client s) = TCP" "ci_tcp_client (client s) = Some t"
    by (auto simp: tcp_conn_def)
  with w show ?thesis
    by (simp add: send_response_to_client_def tcp_send_response_def cmd_run io_work_def tcp_reply_def endpoints_def sizeof_response_def)
qed

interpretation tcp: ring_transport tcp_conn tcp_arrives tcp_delivered "\<lambda>e i. []" tcp_reply
  by unfold_locales (auto simp: tcp_arrival tcp_delivery, simp_all add: tcp_conn_def tcp_reply_def)

section \<open>RC and UC\<close>

definition rc_conn :: "bool \<Rightarrow> client_info \<Rightarrow> bool" where
  "rc_conn b c \<longleftrightarrow> ci_type c = RC \<and> ci_blocking c = b \<and>
     (\<exists>rc. ci_rc_client c = Some rc \<and> rc_request_mr rc \<noteq> 0 \<and> rc_response_mr rc \<noteq> 0)"

definition uc_conn :: "bool \<Rightarrow> client_info \<Rightarrow> bool" where
  "uc_conn b c \<longleftrightarrow> ci_type c = UC \<and> ci_blocking c = b \<and>
     (\<exists>uc. ci_uc_client c = Some uc \<and> uc_request_mr uc \<noteq> 0 \<and> uc_response_mr uc \<noteq> 0)"

text \<open>
  A receive is posted, then the completion of the receive into slot \<open>i\<close> is polled; a response is
  posted, then its completion is polled.
\<close>

definition rdma_arrives :: "bool \<Rightarrow> nat \<Rightarrow> request \<Rightarrow> request reply list \<Rightarrow> bool" where
  "rdma_arrives b i r a \<longleftrightarrow> (\<exists>p c. a = p # c \<and> rep_dma p = [] \<and> completion b [(i, r)] c)"

definition rdma_delivered :: "bool \<Rightarrow> request reply list \<Rightarrow> bool" where
  "rdma_delivered b d \<longleftrightarrow> (\<exists>p c. d = p # c \<and> rep_dma p = [] \<and> completion b [] c)"

lemma post_then_complete:
  fixes s :: server
  assumes "a = p # c" and "rep_dma p = []" and "completion b ws c" and "script s = a @ rest"
  shows "\<exists>s1 s'. ext k s = Return (p, s1) \<and> client s1 = client s \<and>
    process_work_completion_events ch 1 cq b s1 = Return (1, s') \<and> script s' = rest \<and>
    io_work (if moves_data k then [k] else []) ws s s'"
proof -
  obtain s1 where s1: "ext k s = Return (p, s1)" "script s1 = c @ rest"
    "io_work (if moves_data k then [k] else []) [] s s1"
    using ext_work [of s p "c @ rest" k] assms by auto
  from process_completion_work [OF assms(3) s1(2)] obtain s' where s':
    "process_work_completion_events ch 1 cq b s1 = Return (1, s')" "script s' = rest" "io_work [] ws s1 s'"
    by blast
  show ?thesis
    using s1 s' io_work_trans [OF s1(3) s'(3)] io_work_same [OF s1(3)] by auto
qed

definition rc_receive :: "endpoint \<Rightarrow> nat \<Rightarrow> response call list" where
  "rc_receive e i = [Post_recv (the (ep_rc e)) i i sizeof_request]"

definition rc_reply :: "endpoint \<Rightarrow> request \<Rightarrow> response \<Rightarrow> response call" where
  "rc_reply e r x = Post_send (the (ep_rc e)) 0 sizeof_response x None"

definition uc_receive :: "endpoint \<Rightarrow> nat \<Rightarrow> response call list" where
  "uc_receive e i = [Post_recv (the (ep_uc e)) i i sizeof_request]"

definition uc_reply :: "endpoint \<Rightarrow> request \<Rightarrow> response \<Rightarrow> response call" where
  "uc_reply e r x = Post_send (the (ep_uc e)) 0 sizeof_response x None"

lemma rc_arrival:
  assumes "rc_conn b (client s)" and "rdma_arrives b i r a" and "script s = a @ rest"
  shows "\<exists>n s'. cseq prepare_for_next_request receive_header s = Return (n, s') \<and> n \<noteq> - 1 \<and>
    script s' = rest \<and> io_work (rc_receive (endpoints s) (unat (ci_request_count (client s)))) [(i, r)] s s'"
proof -
  let ?k = "unat (ci_request_count (client s))"
  from assms(2) obtain p c where c: "a = p # c" "rep_dma p = []" "completion b [(i, r)] c"
    by (auto simp: rdma_arrives_def)
  from assms(1) obtain rc where rc: "ci_type (client s) = RC" "ci_rc_client (client s) = Some rc"
    "rc_request_mr rc \<noteq> 0" "ci_blocking (client s) = b" by (auto simp: rc_conn_def)
  from post_then_complete [OF c assms(3), of "Post_recv (rc_client_qp rc) ?k ?k sizeof_request"
      "rc_io_completion_channel rc" "rc_cq rc"]
  obtain s1 s' where s1: "ext (Post_recv (rc_client_qp rc) ?k ?k sizeof_request) s = Return (p, s1)"
    "client s1 = client s"
    "process_work_completion_events (rc_io_completion_channel rc) 1 (rc_cq rc) b s1 = Return (1, s')"
    "script s' = rest" "io_work (rc_receive (endpoints s) (unat (ci_request_count (client s)))) [(i, r)] s s'" using rc by (auto simp: rc_receive_def endpoints_def)
  have "prepare_for_next_request s = Return (rep_ret p, s1)"
    using rc s1(1)
    by (cases "rep_ret p = 0")
       (simp_all add: prepare_for_next_request_def rc_post_receive_request_def post_recieve_def cmd_run)
  moreover have "receive_header s1 = Return (1, s')"
    using rc s1(2,3) by (simp add: receive_header_def rc_receive_header_def cmd_run)
  ultimately show ?thesis using s1(4,5) by (auto simp: cmd_run)
qed

lemma rc_delivery:
  assumes "rc_conn b (client s)" and "rdma_delivered b d" and "script s = d @ rest"
  shows "\<exists>n s'. send_response_to_client s = Return (n, s') \<and> 0 \<le> n \<and> script s' = rest \<and>
    io_work [rc_reply (endpoints s) q (ci_response (client s))] [] s s'"
proof -
  from assms(2) obtain p c where c: "d = p # c" "rep_dma p = []" "completion b [] c"
    by (auto simp: rdma_delivered_def)
  from assms(1) obtain rc where rc: "ci_type (client s) = RC" "ci_rc_client (client s) = Some rc"
    "rc_response_mr rc \<noteq> 0" "ci_blocking (client s) = b" by (auto simp: rc_conn_def)
  from post_then_complete [OF c assms(3),
      of "Post_send (rc_client_qp rc) 0 sizeof_response (ci_response (client s)) None"
      "rc_io_completion_channel rc" "rc_cq rc"]
  obtain s1 s' where s1: "ext (Post_send (rc_client_qp rc) 0 sizeof_response (ci_response (client s)) None) s
      = Return (p, s1)"
    "process_work_completion_events (rc_io_completion_channel rc) 1 (rc_cq rc) b s1 = Return (1, s')"
    "script s' = rest" "io_work [rc_reply (endpoints s) q (ci_response (client s))] [] s s'"
    using rc by (auto simp: rc_reply_def endpoints_def)
  then have "send_response_to_client s = Return (1, s')"
    using rc by (simp add: send_response_to_client_def rc_send_response_def post_send_def cmd_run)
  then show ?thesis using s1(3,4) by auto
qed

interpretation rc: ring_transport "rc_conn b" "rdma_arrives b" "rdma_delivered b" rc_receive rc_reply for b
  by unfold_locales (auto simp: rc_arrival rc_delivery, simp_all add: rc_conn_def rc_receive_def rc_reply_def)

lemma uc_arrival:
  assumes "uc_conn b (client s)" and "rdma_arrives b i r a" and "script s = a @ rest"
  shows "\<exists>n s'. cseq prepare_for_next_request receive_header s = Return (n, s') \<and> n \<noteq> - 1 \<and>
    script s' = rest \<and> io_work (uc_receive (endpoints s) (unat (ci_request_count (client s)))) [(i, r)] s s'"
proof -
  let ?k = "unat (ci_request_count (client s))"
  from assms(2) obtain p c where c: "a = p # c" "rep_dma p = []" "completion b [(i, r)] c"
    by (auto simp: rdma_arrives_def)
  from assms(1) obtain uc where uc: "ci_type (client s) = UC" "ci_uc_client (client s) = Some uc"
    "uc_request_mr uc \<noteq> 0" "ci_blocking (client s) = b" by (auto simp: uc_conn_def)
  from post_then_complete [OF c assms(3), of "Post_recv (uc_client_qp uc) ?k ?k sizeof_request"
      "uc_io_completion_channel uc" "uc_cq uc"]
  obtain s1 s' where s1: "ext (Post_recv (uc_client_qp uc) ?k ?k sizeof_request) s = Return (p, s1)"
    "client s1 = client s"
    "process_work_completion_events (uc_io_completion_channel uc) 1 (uc_cq uc) b s1 = Return (1, s')"
    "script s' = rest" "io_work (uc_receive (endpoints s) (unat (ci_request_count (client s)))) [(i, r)] s s'" using uc by (auto simp: uc_receive_def endpoints_def)
  have "prepare_for_next_request s = Return (rep_ret p, s1)"
    using uc s1(1)
    by (cases "rep_ret p = 0")
       (simp_all add: prepare_for_next_request_def uc_post_receive_request_def post_recieve_def cmd_run)
  moreover have "receive_header s1 = Return (1, s')"
    using uc s1(2,3) by (simp add: receive_header_def uc_receive_header_def cmd_run)
  ultimately show ?thesis using s1(4,5) by (auto simp: cmd_run)
qed

lemma uc_delivery:
  assumes "uc_conn b (client s)" and "rdma_delivered b d" and "script s = d @ rest"
  shows "\<exists>n s'. send_response_to_client s = Return (n, s') \<and> 0 \<le> n \<and> script s' = rest \<and>
    io_work [uc_reply (endpoints s) q (ci_response (client s))] [] s s'"
proof -
  from assms(2) obtain p c where c: "d = p # c" "rep_dma p = []" "completion b [] c"
    by (auto simp: rdma_delivered_def)
  from assms(1) obtain uc where uc: "ci_type (client s) = UC" "ci_uc_client (client s) = Some uc"
    "uc_response_mr uc \<noteq> 0" "ci_blocking (client s) = b" by (auto simp: uc_conn_def)
  from post_then_complete [OF c assms(3),
      of "Post_send (uc_client_qp uc) 0 sizeof_response (ci_response (client s)) None"
      "uc_io_completion_channel uc" "uc_cq uc"]
  obtain s1 s' where s1: "ext (Post_send (uc_client_qp uc) 0 sizeof_response (ci_response (client s)) None) s
      = Return (p, s1)"
    "process_work_completion_events (uc_io_completion_channel uc) 1 (uc_cq uc) b s1 = Return (1, s')"
    "script s' = rest" "io_work [uc_reply (endpoints s) q (ci_response (client s))] [] s s'"
    using uc by (auto simp: uc_reply_def endpoints_def)
  then have "send_response_to_client s = Return (1, s')"
    using uc by (simp add: send_response_to_client_def uc_send_response_def post_send_def cmd_run)
  then show ?thesis using s1(3,4) by auto
qed

interpretation uc: ring_transport "uc_conn b" "rdma_arrives b" "rdma_delivered b" uc_receive uc_reply for b
  by unfold_locales (auto simp: uc_arrival uc_delivery, simp_all add: uc_conn_def uc_receive_def uc_reply_def)

end
