(* ===== verification/Receive_Ring.thy ===== *)
theory Receive_Ring
  imports Step_Rules Ring_Transport
begin

text \<open>
  The receive ring of an RC or UC worker, on every script. Send and receive completions of a worker
  share one completion queue, and each wait takes one completion without looking at its kind. The
  balance of a trace is the number of completions taken less the number of sends posted: every part
  of a round keeps it, except the wait for a request, which adds one. So after \<open>n\<close> rounds at least
  \<open>n\<close> of the completions taken were of receives, whatever the order in which the card reports them,
  and the number of receives outstanding is bounded.
\<close>

section \<open>Counting over the trace\<close>

fun posted_slots :: "('t call \<times> 'm reply) list \<Rightarrow> nat list" where
  "posted_slots [] = []"
| "posted_slots ((Post_recv qp wr slot z, r) # es) = slot # posted_slots es"
| "posted_slots (e # es) = posted_slots es"

fun taken :: "('t call \<times> 'm reply) list \<Rightarrow> wc list" where
  "taken [] = []"
| "taken ((Poll_cq cq n, r) # es) = rep_wcs r @ taken es"
| "taken (e # es) = taken es"

lemma posted_slots_append [simp]: "posted_slots (xs @ ys) = posted_slots xs @ posted_slots ys"
  by (induction xs rule: posted_slots.induct) auto

lemma taken_append [simp]: "taken (xs @ ys) = taken xs @ taken ys"
  by (induction xs rule: taken.induct) auto

definition balance :: "('t call \<times> 'm reply) list \<Rightarrow> int" where
  "balance tr = int (length (taken tr)) - int (length (sent_messages tr))"

text \<open>
  What \<open>ibv_poll_cq\<close> documents, and that no error occurs: it returns the number of completions it
  has stored, no more than asked for, each of them successful.
\<close>

definition documented :: "'t call \<times> 'm reply \<Rightarrow> bool" where
  "documented e \<longleftrightarrow>
     (case e of
        (Poll_cq cq n, r) \<Rightarrow> rep_ret r = int (length (rep_wcs r)) \<and> length (rep_wcs r) \<le> n
          \<and> (\<forall>w \<in> set (rep_wcs r). wc_status w = 0)
      | (Get_cq_event ch, r) \<Rightarrow> rep_ret r = 0
      | (Req_notify_cq cq, r) \<Rightarrow> rep_ret r = 0
      | _ \<Rightarrow> True)"

definition documented_run :: "('t, 'm, 'z) io_scheme \<Rightarrow> bool" where
  "documented_run s \<longleftrightarrow> (\<forall>e \<in> set (trace s). documented e)"

definition counts :: "int \<Rightarrow> nat list \<Rightarrow> ('t, 'm, 'z) io_scheme \<Rightarrow> ('t, 'm, 'z) io_scheme \<Rightarrow> bool" where
  "counts k ps s s' \<longleftrightarrow>
     (documented_run s' \<longrightarrow> documented_run s \<and> balance (trace s') = balance (trace s) + k \<and>
        posted_slots (trace s') = posted_slots (trace s) @ ps)"

definition adds :: "int \<Rightarrow> nat list \<Rightarrow> ('t, 'm, 'z) io_scheme \<Rightarrow> ('t, 'm, 'z) io_scheme \<Rightarrow> bool" where
  "adds k ps s s' \<longleftrightarrow>
     io.more s' = io.more s \<and> counts k ps s s'"

lemma counts_trans: "counts k ps s t \<Longrightarrow> counts l qs t u \<Longrightarrow> counts (k + l) (ps @ qs) s u"
  by (simp add: counts_def)

lemma adds_trans: "adds k ps s t \<Longrightarrow> adds l qs t u \<Longrightarrow> adds (k + l) (ps @ qs) s u"
  by (simp add: adds_def counts_def)

interpretation neutral: step_relation "adds 0 []"
  by unfold_locales (auto simp: adds_def counts_def)

definition other_call :: "'t call \<Rightarrow> bool" where
  "other_call c \<longleftrightarrow>
     (case c of Poll_cq cq n \<Rightarrow> False | Post_recv qp wr i z \<Rightarrow> False | Post_send qp wr z m a \<Rightarrow> False
      | Write_message fd m \<Rightarrow> False | _ \<Rightarrow> True)"

lemma other_call_counts:
  "other_call c \<Longrightarrow> posted_slots [(c, r)] = [] \<and> taken [(c, r)] = [] \<and> sent_messages [(c, r)] = []"
  by (cases c) (auto simp: other_call_def)

lemma other_call_simps [simp]:
  "other_call (Sys c)" "other_call (Verbs v)" "other_call (CM e)" "other_call (Read_message fd i)"
  "other_call (Req_notify_cq q)" "other_call (Get_cq_event ch)" "other_call (Ack_cq_events q)"
  by (simp_all add: other_call_def)

lemma ext_more: "ext c s = Return (r, s') \<Longrightarrow> io.more s' = io.more s"
  by (auto simp: ext_def split: list.splits)

lemma ext_trace: "ext c s = Return (r, s') \<Longrightarrow> trace s' = trace s @ [(c, r)]"
  by (auto simp: ext_def split: list.splits)

lemma ext_neutral: "other_call c \<Longrightarrow> steps (adds 0 []) (ext c) s"
proof (unfold steps_def, intro allI impI)
  fix r s' assume c: "other_call c" and "ext c s = Return (r, s')"
  then have "trace s' = trace s @ [(c, r)]" by (simp add: ext_trace)
  moreover have "io.more s' = io.more s" by (rule ext_more) fact
  ultimately show "adds 0 [] s s'" using other_call_counts [OF c, of r]
    by (simp add: adds_def counts_def documented_run_def balance_def)
qed

lemma ext_ignored_neutral: "other_call c \<Longrightarrow> steps (adds 0 []) (ext_ignored c) s"
  unfolding ext_ignored_def by (intro neutral.intros ext_neutral)

lemma check_errno_neutral: "steps (adds 0 []) m s \<Longrightarrow> steps (adds 0 []) (check_errno b m) s"
  by (simp add: check_errno_def neutral.basic)

section \<open>Waiting takes one completion\<close>

definition earlier :: "('t, 'm, 'z) io_scheme \<Rightarrow> ('t, 'm, 'z) io_scheme \<Rightarrow> bool" where
  "earlier s s' \<longleftrightarrow> io.more s' = io.more s \<and> (documented_run s' \<longrightarrow> documented_run s)"

interpretation earlier: step_relation earlier
  by unfold_locales (auto simp: earlier_def)

lemma ext_earlier: "steps earlier (ext c) s"
  by (auto simp: steps_def earlier_def documented_run_def dest: ext_trace ext_more)

lemma poll_loop_earlier: "steps earlier (poll_loop fuel cq n wcs tot) s"
proof (induction fuel arbitrary: wcs tot s)
  case 0
  show ?case by (simp add: earlier.basic)
next
  case (Suc fuel)
  show ?case unfolding poll_loop.simps by (intro earlier.intros ext_earlier Suc.IH)
qed

lemma poll_loop_takes:
  assumes "poll_loop fuel cq (Suc 0) [] 0 s = Return (res, s')" and "documented_run s'"
  shows "\<exists>w. res = Inr ([w], 1) \<and> wc_status w = 0 \<and> adds 1 [] s s'"
  using assms
proof (induction fuel arbitrary: s)
  case (Suc fuel)
  from Suc.prems(1) obtain r s1 where r: "ext (Poll_cq cq (Suc 0)) s = Return (r, s1)"
    and rest: "(if rep_ret r < 0 then cret (Inl (rep_ret r))
      else if rep_ret r < 1 then poll_loop fuel cq (Suc 0) (rep_wcs r) (rep_ret r)
      else cret (Inr (rep_wcs r, rep_ret r))) s1 = Return (res, s')"
    by (simp add: cbind_eq_Return cong: if_cong) blast
  note tr = ext_trace [OF r]
  have "earlier s1 s'"
    using rest by (auto split: if_splits simp: cmd_run earlier.refl intro: stepsD [OF poll_loop_earlier])
  with Suc.prems(2) have d1: "documented_run s1" by (simp add: earlier_def)
  then have doc: "rep_ret r = int (length (rep_wcs r))" "length (rep_wcs r) \<le> Suc 0"
    "\<forall>w \<in> set (rep_wcs r). wc_status w = 0"
    using tr by (simp_all add: documented_run_def documented_def)
  show ?case
  proof (cases "rep_wcs r")
    case Nil
    with rest doc have "poll_loop fuel cq (Suc 0) [] 0 s1 = Return (res, s')" by simp
    from Suc.IH [OF this Suc.prems(2)] obtain w where
      w: "res = Inr ([w], 1)" "wc_status w = 0" "adds 1 [] s1 s'" by blast
    have "adds 0 [] s s1"
      using tr Nil ext_more [OF r] by (simp add: adds_def counts_def documented_run_def balance_def)
    with w adds_trans [of 0 "[]" s s1 1 "[]" s'] show ?thesis by simp
  next
    case (Cons w ws)
    with doc have w: "rep_wcs r = [w]" "rep_ret r = 1" "wc_status w = 0" by simp_all
    with rest have "res = Inr ([w], 1)" "s' = s1" by (simp_all add: cmd_run)
    moreover have "adds 1 [] s s1"
      using tr w ext_more [OF r] by (simp add: adds_def counts_def documented_run_def balance_def)
    ultimately show ?thesis using w(3) by simp
  qed
qed simp

lemma checked_call:
  assumes c: "other_call c" and good: "\<And>r. documented (c, r) \<Longrightarrow> \<not> bad r"
    and f: "\<And>r t. steps (adds k ps) (f r) t"
  shows "steps (adds k ps) (cbind (ext c) (\<lambda>r. check_errno (bad r) (f r))) s"
proof (unfold steps_def, intro allI impI)
  fix a s' assume "cbind (ext c) (\<lambda>r. check_errno (bad r) (f r)) s = Return (a, s')"
  then obtain r t where r: "ext c s = Return (r, t)" "check_errno (bad r) (f r) t = Return (a, s')"
    unfolding cbind_eq_Return by blast
  have first: "adds 0 [] s t" by (rule stepsD [OF ext_neutral [OF c] r(1)])
  show "adds k ps s s'"
  proof (cases "bad r")
    case True
    with good have "\<not> documented (c, r)" by blast
    moreover have "trace s' = trace s @ [(c, r)]"
      using r(2) True ext_trace [OF r(1)] by (auto simp: check_errno_def cmd_run)
    moreover have "io.more s' = io.more s"
      using r(2) True ext_more [OF r(1)] by (auto simp: check_errno_def cmd_run)
    ultimately show ?thesis by (simp add: adds_def counts_def documented_run_def)
  next
    case False
    with r(2) have "f r t = Return (a, s')" by (simp add: check_errno_def)
    from adds_trans [OF first stepsD [OF f this]] show ?thesis by simp
  qed
qed

lemma process_takes: "steps (adds 1 []) (process_work_completion_events ch 1 cq b) s"
proof -
  let ?after = "\<lambda>cq res. case res of Inl ret \<Rightarrow> cret ret
      | Inr (wcs, total_wc) \<Rightarrow> (case check_status wcs of Some ret \<Rightarrow> cret ret
         | None \<Rightarrow> cseq (cwhen b (ext_ignored (Ack_cq_events cq))) (cret total_wc))"
  let ?poll = "\<lambda>cq. cbind (\<lambda>s. poll_loop (Suc (length (script s))) cq 1 [] 0 s) (?after cq)"
  have polled: "steps (adds 1 []) (?poll cq) t" for cq and t :: "('a, 'b, 'c) io_scheme"
  proof (unfold steps_def, intro allI impI)
    fix n s' assume "?poll cq t = Return (n, s')"
    then obtain res u where u: "poll_loop (Suc (length (script t))) cq 1 [] 0 t = Return (res, u)"
      "?after cq res u = Return (n, s')" unfolding cbind_eq_Return by blast
    have "steps (adds 0 []) (?after cq res) u"
      by (intro neutral.intros ext_ignored_neutral other_call_simps)
    from stepsD [OF this u(2)] have tail: "adds 0 [] u s'" .
    show "adds 1 [] t s'"
    proof (cases "documented_run s'")
      case True
      with tail have "documented_run u" by (simp add: adds_def counts_def)
      with poll_loop_takes [of "Suc (length (script t))" cq t res u] u(1) have "adds 1 [] t u"
        by (auto simp del: poll_loop.simps)
      from adds_trans [OF this tail] show ?thesis by simp
    next
      case False
      with tail stepsD [OF poll_loop_earlier u(1)] show ?thesis by (simp add: adds_def counts_def earlier_def)
    qed
  qed
  show ?thesis
  proof (cases b)
    case False
    show ?thesis
      using polled [of cq s] unfolding process_work_completion_events_def Let_def
      by (simp only: False if_False)
  next
    case True
    with polled show ?thesis
      unfolding process_work_completion_events_def Let_def
      by (simp only: if_True) (intro checked_call other_call_simps; simp add: documented_def)
  qed
qed

section \<open>The parts of a round\<close>

text \<open>
  \<open>ringing f k ps\<close>: if the worker is of an RC or UC client, it still is, its current slot has been
  moved by \<open>f\<close>, and the trace has grown by \<open>k\<close> and \<open>ps\<close>.
\<close>

definition on_ring :: "server \<Rightarrow> bool" where
  "on_ring s \<longleftrightarrow> ci_type (client s) \<in> {RC, UC}"

definition ringing :: "(u32 \<Rightarrow> u32) \<Rightarrow> int \<Rightarrow> nat list \<Rightarrow> server \<Rightarrow> server \<Rightarrow> bool" where
  "ringing f k ps s s' \<longleftrightarrow>
     (on_ring s \<longrightarrow>
        on_ring s' \<and> ci_request_count (client s') = f (ci_request_count (client s)) \<and> counts k ps s s')"

lemma ringing_trans: "ringing f k ps s t \<Longrightarrow> ringing g l qs t u \<Longrightarrow> ringing (g \<circ> f) (k + l) (ps @ qs) s u"
  using counts_trans by (auto simp: ringing_def)

interpretation ring: step_relation "ringing id 0 []"
proof
  fix s t u
  show "ringing id 0 [] s s" by (simp add: ringing_def counts_def)
  show "ringing id 0 [] s t \<Longrightarrow> ringing id 0 [] t u \<Longrightarrow> ringing id 0 [] s u"
    using ringing_trans [of id 0 "[]" s t id 0 "[]" u] by simp
qed

lemma io_ringing: "steps (adds k ps) m s \<Longrightarrow> steps (ringing id k ps) m s"
proof (unfold steps_def, intro allI impI)
  fix a s' assume "\<forall>a s'. m s = Return (a, s') \<longrightarrow> adds k ps s s'" and "m s = Return (a, s')"
  then have "adds k ps s s'" by blast
  moreover from this have "client s' = client s" by (intro more_server(4)) (simp add: adds_def counts_def)
  ultimately show "ringing id k ps s s'" by (simp add: ringing_def on_ring_def adds_def)
qed

lemma no_ring: "\<not> on_ring s \<Longrightarrow> steps (ringing f k ps) m s"
  by (simp add: steps_def ringing_def)

lemma steps_pure: "m s = Return (a, s) \<Longrightarrow> steps P (cbind m f) s = steps P (f a) s"
  "m s = Undefined u \<Longrightarrow> steps P (cbind m f) s"
  by (simp_all add: steps_def cmd_run)

lemma steps_cget: "steps P (cbind (cget f) g) s = steps P (g (f s)) s"
  by (simp add: steps_def cmd_run)

lemma ring_ext: "other_call c \<Longrightarrow> steps (ringing id 0 []) (ext c) s"
  "other_call c \<Longrightarrow> steps (ringing id 0 []) (ext_ignored c) s"
  by (intro io_ringing ext_neutral ext_ignored_neutral; assumption)+

lemma ring_errno: "steps (ringing id 0 []) m s \<Longrightarrow> steps (ringing id 0 []) (check_errno b m) s"
  by (simp add: check_errno_def ring.basic)

lemma ring_upd:
  "steps (ringing id 0 []) (upd_response h) s" "steps (ringing id 0 []) (upd_ud_server g) s"
  "steps (ringing id 0 []) (on_store w) s"
  by (auto simp: steps_def ringing_def on_ring_def adds_def counts_def cmd_run on_store_def obind_eq_Return
        documented_run_def)

lemma ring_reads:
  "steps (ringing id 0 []) (pointee p) s" "steps (ringing id 0 []) tcp_client s" "steps (ringing id 0 []) rc_client s"
  "steps (ringing id 0 []) uc_client s" "steps (ringing id 0 []) (request_at i) s"
proof -
  have p: "steps (ringing id 0 []) (pointee p) s" for p s
    unfolding pointee_def by (intro ring.intros)
  show "steps (ringing id 0 []) (pointee p) s" by (rule p)
  show "steps (ringing id 0 []) tcp_client s" "steps (ringing id 0 []) rc_client s" "steps (ringing id 0 []) uc_client s"
    unfolding tcp_client_def rc_client_def uc_client_def by (intro ring.intros p)+
  show "steps (ringing id 0 []) (request_at i) s" unfolding request_at_def by (intro ring.intros)
qed

lemmas ring_intros = ring.intros ring_ext ring_errno ring_upd ring_reads other_call_simps

lemma ringing_bind:
  assumes m: "steps (ringing g k ps) m s" and f: "\<And>a s'. m s = Return (a, s') \<Longrightarrow> steps (ringing h l qs) (f a) s'"
  shows "steps (ringing (h \<circ> g) (k + l) (ps @ qs)) (cbind m f) s"
proof (unfold steps_def, intro allI impI)
  fix b u assume "cbind m f s = Return (b, u)"
  then obtain a t where t: "m s = Return (a, t)" "f a t = Return (b, u)" unfolding cbind_eq_Return by blast
  show "ringing (h \<circ> g) (k + l) (ps @ qs) s u"
    by (rule ringing_trans [OF stepsD [OF m t(1)] stepsD [OF f [OF t(1)] t(2)]])
qed

lemma ringing_skip:
  "steps (ringing id 0 []) m s \<Longrightarrow> (\<And>a s'. m s = Return (a, s') \<Longrightarrow> steps (ringing h l qs) (f a) s') \<Longrightarrow>
     steps (ringing h l qs) (cbind m f) s"
  "steps (ringing id 0 []) m s \<Longrightarrow> (\<And>a s'. m s = Return (a, s') \<Longrightarrow> steps (ringing h l qs) n s') \<Longrightarrow>
     steps (ringing h l qs) (cseq m n) s"
  using ringing_bind [of id 0 "[]" m s h l qs f] ringing_bind [of id 0 "[]" m s h l qs "\<lambda>_. n"]
  by (simp_all add: cseq_def)

lemma ringing_then:
  "steps (ringing g k ps) m s \<Longrightarrow> (\<And>a s'. m s = Return (a, s') \<Longrightarrow> steps (ringing id 0 []) (f a) s') \<Longrightarrow>
     steps (ringing g k ps) (cbind m f) s"
  "steps (ringing g k ps) m s \<Longrightarrow> (\<And>a s'. m s = Return (a, s') \<Longrightarrow> steps (ringing id 0 []) n s') \<Longrightarrow>
     steps (ringing g k ps) (cseq m n) s"
  using ringing_bind [of g k ps m s id 0 "[]" f] ringing_bind [of g k ps m s id 0 "[]" "\<lambda>_. n"]
  by (simp_all add: cseq_def)

lemma ring_posts:
  "steps (ringing id 0 [slot]) (post_recieve z slot q slot) s" "steps (ringing id (- 1) []) (post_send z w q m) s"
proof -
  have "steps (adds 0 [slot]) (ext (Post_recv q slot slot z)) s"
    "steps (adds (- 1) []) (ext (Post_send q w z m None)) s"
    unfolding steps_def
    using ext_trace [of "Post_recv q slot slot z" s] ext_more [of "Post_recv q slot slot z" s]
      ext_trace [of "Post_send q w z m None" s] ext_more [of "Post_send q w z m None" s]
    by (fastforce simp: adds_def counts_def documented_run_def balance_def)+
  then show "steps (ringing id 0 [slot]) (post_recieve z slot q slot) s"
    "steps (ringing id (- 1) []) (post_send z w q m) s"
    unfolding post_recieve_def post_send_def by (auto intro: ringing_then ring.basic io_ringing)
qed

lemma ring_wait: "steps (ringing id 1 []) (process_work_completion_events ch 1 cq b) s"
  by (intro io_ringing process_takes)

lemma ring_receive_header: "steps (ringing id 1 []) receive_header s"
proof -
  have "steps (ringing id 1 []) rc_receive_header s" "steps (ringing id 1 []) uc_receive_header s" for s
    unfolding rc_receive_header_def uc_receive_header_def
    by (intro ringing_skip(1) ring_reads ring.basic ringing_then [OF ring_wait] ring_errno)+
  then show ?thesis
    by (cases "ci_type (client s)")
       (simp_all add: receive_header_def steps_cget no_ring on_ring_def)
qed

lemma ring_send: "steps (ringing id 0 []) send_response_to_client s"
proof -
  have wait: "steps (ringing id 0 []) (cbind (post_send z w q m)
      (\<lambda>r. cbind (process_work_completion_events ch 1 cq b) (\<lambda>r. check_errno (r < 0) (cret r)))) s"
    for z w q m ch cq b s
    using ringing_bind [OF ring_posts(2) ringing_then(1) [OF ring_wait]]
    by (fastforce intro: ring_errno ring.basic)
  have "steps (ringing id 0 []) rc_send_response s" "steps (ringing id 0 []) uc_send_response s" for s
    unfolding rc_send_response_def uc_send_response_def
    by (intro ringing_skip ring_reads ring.basic ring.guard wait)+
  then show ?thesis
    by (cases "ci_type (client s)")
       (simp_all add: send_response_to_client_def steps_cget no_ring on_ring_def)
qed

lemma ring_prepare: "steps (ringing id 0 [unat (ci_request_count (client s))]) prepare_for_next_request s"
proof -
  let ?slot = "unat (ci_request_count (client s))"
  have rc: "steps (ringing id 0 [?slot]) rc_post_receive_request s"
    unfolding rc_post_receive_request_def
    by (cases "ci_rc_client (client s)"; simp add: steps_pure rc_client_run steps_cget;
        intro ringing_skip ring.guard ring_posts)
  have uc: "steps (ringing id 0 [?slot]) uc_post_receive_request s"
    unfolding uc_post_receive_request_def
    by (cases "ci_uc_client (client s)"; simp add: steps_pure uc_client_run steps_cget;
        intro ringing_skip ring.guard ring_posts)
  show ?thesis
    by (cases "ci_type (client s)")
       (simp_all add: prepare_for_next_request_def steps_cget no_ring on_ring_def rc uc ringing_then
          ring.guard ring.basic)
qed

lemma ring_current: "steps (ringing id 0 []) get_current_request s"
  unfolding get_current_request_def by (cases "ci_type (client s)"; simp add: steps_cget ring.basic)

lemma ring_dispatcher: "steps (ringing id 0 []) request_dispatcher s"
proof -
  have send: "steps (ringing id 0 []) (send_response c n p) s" for c n p s
    unfolding send_response_def by (intro ring_intros ring_send)
  have "steps (ringing id 0 []) (setopt_request r) s" for r s
    unfolding setopt_request_def by (intro ring_intros send)
  then have "steps (ringing id 0 []) (case req_method r of PING \<Rightarrow> cbind ping (\<lambda>ignored. cret ())
     | EXIT \<Rightarrow> cbind (send_response OK 0 None) (\<lambda>ignored. exit_process 0)
     | SETOPT \<Rightarrow> cbind (setopt_request r) (\<lambda>ignored. cret ())
     | UNK \<Rightarrow> cbind (send_response PARSING_ERROR 0 None) (\<lambda>ignored. cret ())
     | _ \<Rightarrow> cret ()) s" for r s
    unfolding ping_def by (cases "req_method r"; simp; intro ring_intros send)
  then show ?thesis unfolding request_dispatcher_def by (intro ring_intros ring_current)
qed

lemma ring_recv: "steps (ringing id 1 []) recv_request s"
proof -
  have mark: "steps (ringing id 0 []) (cbind (cget (\<lambda>s. ci_type (client s))) (\<lambda>ty.
     cseq (if ty = UD then cbind (request_at i) (\<lambda>r. upd_ud (\<lambda>d. d\<lparr>ud_client_handling := req_client_id r\<rparr>))
           else cret ()) (cret (Some i)))) s" for i s
    by (cases "ci_type (client s) = UD")
       (simp_all add: steps_cget no_ring on_ring_def ring.seq ring.basic)
  have "steps (ringing id 1 []) take_request s"
    unfolding take_request_def
    by (intro ringing_then [OF ring_receive_header] ring_intros ring_current mark)
  then show ?thesis
    unfolding recv_request_def by (intro ringing_then ring_intros ring_dispatcher)
qed

definition next_count :: "u32 \<Rightarrow> u32" where
  "next_count c = (c + 1) mod of_nat REQUEST_BACKLOG"

lemma ring_ready: "steps (ringing next_count 0 []) ready_for_next_request s"
proof -
  have "steps (ringing next_count 0 [])
      (upd_client (\<lambda>c. c\<lparr>ci_request_count := (ci_request_count c + 1) mod of_nat REQUEST_BACKLOG\<rparr>)) s"
    by (auto simp: steps_def ringing_def on_ring_def counts_def cmd_run documented_run_def next_count_def)
  then show ?thesis
    by (cases "ci_type (client s)")
       (simp_all add: ready_for_next_request_def steps_cget no_ring on_ring_def)
qed

definition answered :: "request \<Rightarrow> u32 \<Rightarrow> u32" where
  "answered r = (if req_method r = UNK then id else next_count)"

lemma ring_answer:
  assumes "request_at i s = Return (r, s)"
  shows "steps (ringing (answered r) 0 []) (answer_request oks i) s"
proof -
  have first: "steps (ringing (answered r) 0 []) (cwhen (req_method r \<noteq> UNK) ready_for_next_request) s"
    by (cases "req_method r = UNK") (simp_all add: answered_def cwhen_def ring.basic ring_ready)
  show ?thesis
    unfolding answer_request_def is_connection_closed_def steps_pure(1) [of "request_at i", OF assms]
    by (intro ringing_then(2) [OF first] ring_intros ring_send)
qed

section \<open>Rounds\<close>

lemma request_at_same: "request_at i s = Return (r, s') \<Longrightarrow> s' = s"
  by (auto simp: request_at_def cbind_eq_Return cmd_run clift_def obind_eq_Return array_get_def split: if_splits)

lemma ring_round:
  assumes run: "job_round oks s = Return (res, s')" and "res \<noteq> No_request"
  shows "\<exists>r. ringing (answered r) 1 [unat (ci_request_count (client s))] s s'"
proof -
  from run obtain n s1 cur s2 where s1: "prepare_for_next_request s = Return (n, s1)"
    "recv_request s1 = Return (cur, s2)"
    "(case cur of None \<Rightarrow> cret No_request | Some i \<Rightarrow> answer_request oks i) s2 = Return (res, s')"
    unfolding job_round_def cbind_eq_Return by blast
  from s1(3) assms(2) obtain i where i: "answer_request oks i s2 = Return (res, s')"
    by (cases cur) (auto simp: cmd_run)
  then obtain r t where "request_at i s2 = Return (r, t)"
    unfolding answer_request_def cbind_eq_Return by blast
  with request_at_same have r: "request_at i s2 = Return (r, s2)" by auto
  have "ringing (answered r \<circ> (id \<circ> id)) (0 + 1 + 0) (([unat (ci_request_count (client s))] @ []) @ []) s s'"
    by (intro ringing_trans [OF ringing_trans [OF stepsD [OF ring_prepare s1(1)] stepsD [OF ring_recv s1(2)]]]
          stepsD [OF ring_answer [OF r] i])
  then show ?thesis by auto
qed

text \<open>
  \<open>n\<close> turns: every one takes a completion more than it posts sends, and posts one receive, for the
  slot that is current when it begins. The slot then moves on by one, unless the request was \<open>UNK\<close>.
\<close>

lemma ring_rounds:
  assumes "run_all (\<lambda>_. job_round oks) (replicate n ()) s = Return (rs, s')" and "No_request \<notin> set rs"
    and "on_ring s" and "documented_run s'"
  shows "on_ring s' \<and> documented_run s \<and> balance (trace s') = balance (trace s) + int n \<and>
    (\<exists>ps. length ps = n \<and> posted_slots (trace s') = posted_slots (trace s) @ ps)"
  using assms
proof (induction n arbitrary: s rs)
  case 0
  then show ?case by (simp add: cmd_run)
next
  case (Suc n)
  from Suc.prems(1) obtain res t rs' where t: "job_round oks s = Return (res, t)"
    "run_all (\<lambda>_. job_round oks) (replicate n ()) t = Return (rs', s')" "rs = res # rs'"
    by (auto simp: cbind_eq_Return cmd_run)
  with Suc.prems(2) have "res \<noteq> No_request" "No_request \<notin> set rs'" by auto
  from ring_round [OF t(1) this(1)] Suc.prems(3) have t1: "on_ring t"
    "counts 1 [unat (ci_request_count (client s))] s t" by (auto simp: ringing_def)
  from Suc.IH [OF t(2) \<open>No_request \<notin> set rs'\<close> t1(1) Suc.prems(4)] obtain ps where ih: "on_ring s'"
    "documented_run t" "balance (trace s') = balance (trace t) + int n" "length ps = n"
    "posted_slots (trace s') = posted_slots (trace t) @ ps" by blast
  with t1(2) show ?case
    by (intro conjI exI [of _ "unat (ci_request_count (client s)) # ps"]) (auto simp: counts_def)
qed

end
