(* ===== verification/UD_Transport.thy ===== *)
theory UD_Transport
  imports Ring_Transport
begin

text \<open>
  The datagram transport: the ring of requests, its position and its mutex belong to the server
  structure, a request is received with the mutex held, and the response goes to the address handle
  and queue pair found under the \<open>client_id\<close> of the request. It provides the \<open>transport\<close> contract
  for requests whose \<open>client_id\<close> is an index of the two arrays.
\<close>

definition ud_ok :: "bool \<Rightarrow> server \<Rightarrow> bool" where
  "ud_ok b s \<longleftrightarrow>
     ci_type (client s) = UD \<and> ci_blocking (client s) = b \<and>
     (\<exists>d. ci_ud_client (client s) = Some d \<and> ud_response_mr d \<noteq> 0) \<and>
     uds_request_mr (ud_server s) \<noteq> 0 \<and> length (uds_ah (ud_server s)) = MAX_CLIENTS \<and>
     length (uds_remote_dgram_qp_attrs (ud_server s)) = MAX_CLIENTS \<and>
     length (rx s) = MAX_CLIENTS"

definition ud_handling :: "server \<Rightarrow> request \<Rightarrow> bool" where
  "ud_handling s r \<longleftrightarrow>
     0 \<le> req_client_id r \<and> req_client_id r < int MAX_CLIENTS \<and>
     (\<exists>d. ci_ud_client (client s) = Some d \<and> ud_client_handling d = req_client_id r)"

definition ud_idle :: "bool \<Rightarrow> server \<Rightarrow> nat \<Rightarrow> bool" where
  "ud_idle b s i \<longleftrightarrow>
     ud_ok b s \<and> \<not> uds_lock (ud_server s) \<and> uds_request_count (ud_server s) = int i \<and> i < MAX_CLIENTS"

definition ud_busy :: "bool \<Rightarrow> server \<Rightarrow> nat \<Rightarrow> request \<Rightarrow> bool" where
  "ud_busy b s i r \<longleftrightarrow>
     ud_ok b s \<and> uds_lock (ud_server s) \<and> uds_request_count (ud_server s) = int i \<and> i < MAX_CLIENTS \<and>
     rx s ! i = r \<and> ud_handling s r"

definition ud_served :: "bool \<Rightarrow> server \<Rightarrow> nat \<Rightarrow> request \<Rightarrow> bool" where
  "ud_served b s i r \<longleftrightarrow>
     ud_idle b s ((i + 1) mod MAX_CLIENTS) \<and> i < MAX_CLIENTS \<and> rx s ! i = r \<and> ud_handling s r"

lemmas ud_defs = ud_ok_def ud_handling_def ud_idle_def ud_busy_def ud_served_def

definition ud_arrives :: "bool \<Rightarrow> nat \<Rightarrow> request \<Rightarrow> request reply list \<Rightarrow> bool" where
  "ud_arrives b i r a \<longleftrightarrow>
     completion b [(i, r)] a \<and> 0 \<le> req_client_id r \<and> req_client_id r < int MAX_CLIENTS"

definition ud_posted :: "request reply list \<Rightarrow> bool" where
  "ud_posted q \<longleftrightarrow> (\<exists>p. q = [p] \<and> rep_dma p = [])"

text \<open>
  The receive that is posted for slot \<open>i\<close> when the request in it has been taken: into buffer \<open>i\<close>, with
  number \<open>i\<close>, of the size of a request behind a global routing header. And the response to request \<open>r\<close>:
  to the address handle and the queue pair at the entry of the request's \<open>client_id\<close>.
\<close>

definition ud_repost :: "endpoint \<Rightarrow> nat \<Rightarrow> response call list" where
  "ud_repost e i = [Post_recv (ep_ud e) i i sizeof_ud_request]"

definition ud_reply :: "endpoint \<Rightarrow> request \<Rightarrow> response \<Rightarrow> response call" where
  "ud_reply e r x = Post_send (ep_ud e) 0 sizeof_response x
     (Some (ep_ah e ! nat (req_client_id r), qa_qpn (ep_attrs e ! nat (req_client_id r))))"

text \<open>What a step that only talks to the outside leaves as it was.\<close>

lemma io_step_same:
  "io_step out ws s s' \<Longrightarrow> client s' = client s \<and> ud_server s' = ud_server s \<and> rx s' = dma ws (rx s)"
  for s :: server
  using more_server(3,4) [of s' s] by (simp add: io_step_def)

lemma ud_receive_run:
  assumes "ud_idle b s i" and "ud_arrives b i r a" and "script s = a @ rest"
  shows "\<exists>s'. cseq prepare_for_next_request take_request s = Return (Some (int i), s') \<and> script s' = rest \<and>
    ud_busy b s' i r \<and> worked [] [(i, r)] s s'"
proof -
  have c: "completion b [(i, r)] a" and id: "0 \<le> req_client_id r" "req_client_id r < int MAX_CLIENTS"
    using assms(2) by (simp_all add: ud_arrives_def)
  from assms(1) obtain d where d: "ci_type (client s) = UD" "ci_blocking (client s) = b"
    "ci_ud_client (client s) = Some d" "ud_response_mr d \<noteq> 0" "\<not> uds_lock (ud_server s)"
    "uds_request_count (ud_server s) = int i" "i < MAX_CLIENTS" "length (rx s) = MAX_CLIENTS"
    by (auto simp: ud_defs)
  from process_completion_work [OF c assms(3)] obtain s1 where s1:
    "process_work_completion_events (uds_io_completion_channel_recv (ud_server s)) 1
       (uds_ud_recv_cq (ud_server s)) b s = Return (1, s1)"
    "script s1 = rest" "io_work [] [(i, r)] s s1" by blast
  note same = io_work_same [OF s1(3)]
  let ?s2 = "s1\<lparr>ud_server := (ud_server s1)\<lparr>uds_lock := True\<rparr>\<rparr>"
  let ?s3 = "?s2\<lparr>client := (client s1)\<lparr>ci_ud_client := Some (d\<lparr>ud_client_handling := req_client_id r\<rparr>)\<rparr>\<rparr>"
  have hdr: "receive_header s = Return (1, ?s2)"
    using d s1(1) same by (simp add: receive_header_def ud_receive_header_def ud_mutex_lock_def cmd_run)
  have req: "request_at (int i) ?s2 = Return (r, ?s2)"
    using d(7,8) same by (simp add: request_at_run)
  have cur: "get_current_request ?s2 = Return (int i, ?s2)"
    using d(1,6) same by (simp add: get_current_request_def cmd_run)
  have upd: "upd_ud (\<lambda>d. d\<lparr>ud_client_handling := req_client_id r\<rparr>) ?s2 = Return ((), ?s3)"
    using d(3) same by (simp add: upd_field_run)
  have "ci_type (client ?s2) = UD" using d(1) same by simp
  with hdr req cur upd have "take_request s = Return (Some (int i), ?s3)"
    unfolding take_request_def by (simp add: cbind_run cseq_run cget_run cret_run)
  moreover have "prepare_for_next_request s = Return (0, s)"
    using d by (simp add: prepare_for_next_request_def cmd_run)
  moreover have "ud_busy b ?s3 i r"
  proof -
    have r3: "rx ?s3 = (rx s)[i := r]" using same by simp
    have "ud_ok b s" using assms(1) by (simp add: ud_idle_def)
    then have "ud_ok b ?s3" using same d(3,4) by (simp add: ud_ok_def)
    moreover have "ud_handling ?s3 r" using id by (simp add: ud_handling_def)
    moreover have "rx ?s3 ! i = r" using d(7,8) unfolding r3 by simp
    ultimately show ?thesis using d(6,7) same by (simp add: ud_busy_def)
  qed
  moreover have "worked [] [(i, r)] s ?s3"
    using io_work_worked [OF s1(3)] by (simp add: worked_def endpoints_def)
  ultimately show ?thesis using s1(2) by (auto simp: cmd_run)
qed

lemma ud_send_run:
  assumes "ud_ok b s" and "ud_handling s r" and "rdma_delivered b d" and "script s = d @ rest"
  shows "\<exists>n s'. send_response_to_client s = Return (n, s') \<and> 0 \<le> n \<and> script s' = rest \<and>
    client s' = client s \<and> ud_server s' = ud_server s \<and> rx s' = rx s \<and>
    worked [ud_reply (endpoints s) r (ci_response (client s))] [] s s'"
proof -
  from assms(3) obtain p c where c: "d = p # c" "rep_dma p = []" "completion b [] c"
    by (auto simp: rdma_delivered_def)
  from assms(1,2) obtain u where u: "ci_type (client s) = UD" "ci_blocking (client s) = b"
    "ci_ud_client (client s) = Some u" "ud_response_mr u \<noteq> 0" "ud_client_handling u = req_client_id r"
    "0 \<le> req_client_id r" "req_client_id r < int MAX_CLIENTS"
    "length (uds_ah (ud_server s)) = MAX_CLIENTS"
    "length (uds_remote_dgram_qp_attrs (ud_server s)) = MAX_CLIENTS" by (auto simp: ud_defs)
  let ?k = "nat (req_client_id r)"
  let ?call = "Post_send (uds_ud_qp (ud_server s)) 0 sizeof_response (ci_response (client s))
    (Some (uds_ah (ud_server s) ! ?k, qa_qpn (uds_remote_dgram_qp_attrs (ud_server s) ! ?k)))"
  from post_then_complete [OF c assms(4), of ?call "uds_io_completion_channel_send (ud_server s)"
      "uds_ud_send_cq (ud_server s)"]
  obtain s1 s' where s1: "ext ?call s = Return (p, s1)"
    "process_work_completion_events (uds_io_completion_channel_send (ud_server s)) 1
       (uds_ud_send_cq (ud_server s)) b s1 = Return (1, s')"
    "script s' = rest" "io_work [?call] [] s s'" by auto
  have call: "?call = ud_reply (endpoints s) r (ci_response (client s))" by (simp add: ud_reply_def endpoints_def)
  have "?k < MAX_CLIENTS" using u(6,7) by simp
  with s1(1,2) u have "send_response_to_client s = Return (1, s')"
    by (simp add: send_response_to_client_def ud_send_response_def ud_post_send_def cmd_run)
  then show ?thesis using s1(3) io_work_same [OF s1(4)] io_work_worked [OF s1(4)] unfolding call by auto
qed

lemma ud_ready_run:
  assumes "ud_busy b s i r" and "ud_posted q" and "script s = q @ rest"
  shows "\<exists>s'. ready_for_next_request s = Return ((), s') \<and> script s' = rest \<and> ud_served b s' i r \<and>
    worked (ud_repost (endpoints s) i) [] s s'"
proof -
  from assms(2,3) obtain p where p: "script s = p # rest" "rep_dma p = []" by (auto simp: ud_posted_def)
  have s: "ci_type (client s) = UD" "uds_request_mr (ud_server s) \<noteq> 0" "uds_lock (ud_server s)"
    "uds_request_count (ud_server s) = int i" "i < MAX_CLIENTS"
    using assms(1) by (auto simp: ud_defs)
  have "(int i + 1) mod int MAX_CLIENTS = int ((i + 1) mod MAX_CLIENTS)"
    by (simp add: zmod_int add.commute)
  with p s assms(1) show ?thesis
    by (simp add: ready_for_next_request_def ud_post_receive_request_def post_recieve_def
          ud_mutex_unlock_def cmd_run ud_defs worked_def ud_repost_def endpoints_def MAX_CLIENTS_def)
qed

interpretation ud: transport "ud_idle b" "ud_busy b" "ud_served b" "ud_arrives b" ud_posted
  "rdma_delivered b" MAX_CLIENTS "\<lambda>e i. []" ud_repost ud_reply for b
proof
  fix s :: server and i r a rest and q d :: "request reply list" and x t and e :: endpoint
  show "\<exists>s'. cseq prepare_for_next_request take_request s = Return (Some (int i), s') \<and> script s' = rest \<and>
      ud_busy b s' i r \<and> worked [] [(i, r)] s s'"
    if "ud_idle b s i" "ud_arrives b i r a" "script s = a @ rest"
    using ud_receive_run [OF that] .
  show "get_current_request s = Return (int i, s) \<and> request_at (int i) s = Return (r, s)"
    if "ud_busy b s i r"
    using that by (auto simp: ud_defs get_current_request_def cmd_run)
  show "request_at (int i) s = Return (r, s)" if "ud_served b s i r"
    using that by (auto simp: ud_defs cmd_run)
  show "i < length (rx s)" if "ud_served b s i r"
    using that by (simp add: ud_defs)
  show "ud_idle b s ((i + 1) mod MAX_CLIENTS)" if "ud_served b s i r"
    using that by (simp add: ud_served_def)
  show "\<exists>n s'. send_response_to_client s = Return (n, s') \<and> 0 \<le> n \<and> script s' = rest \<and> ud_busy b s' i r \<and>
      worked [ud_reply (endpoints s) r (ci_response (client s))] [] s s'"
    if "ud_busy b s i r" "rdma_delivered b d" "script s = d @ rest"
  proof -
    have "ud_ok b s" "ud_handling s r" using that(1) by (simp_all add: ud_busy_def)
    from ud_send_run [OF this that(2,3)] obtain n s' where "send_response_to_client s = Return (n, s')"
      "0 \<le> n" "script s' = rest" "client s' = client s" "ud_server s' = ud_server s" "rx s' = rx s"
      "worked [ud_reply (endpoints s) r (ci_response (client s))] [] s s'" by blast
    moreover from this that(1) have "ud_busy b s' i r" by (simp add: ud_defs)
    ultimately show ?thesis by blast
  qed
  show "\<exists>n s'. send_response_to_client s = Return (n, s') \<and> 0 \<le> n \<and> script s' = rest \<and> ud_served b s' i r \<and>
      worked [ud_reply (endpoints s) r (ci_response (client s))] [] s s'"
    if "ud_served b s i r" "rdma_delivered b d" "script s = d @ rest"
  proof -
    have "ud_ok b s" "ud_handling s r" using that(1) by (simp_all add: ud_served_def ud_idle_def)
    from ud_send_run [OF this that(2,3)] obtain n s' where "send_response_to_client s = Return (n, s')"
      "0 \<le> n" "script s' = rest" "client s' = client s" "ud_server s' = ud_server s" "rx s' = rx s"
      "worked [ud_reply (endpoints s) r (ci_response (client s))] [] s s'" by blast
    moreover from this that(1) have "ud_served b s' i r" by (simp add: ud_defs)
    ultimately show ?thesis by blast
  qed
  show "\<exists>s'. ready_for_next_request s = Return ((), s') \<and> script s' = rest \<and> ud_served b s' i r \<and>
      worked (ud_repost (endpoints s) i) [] s s'"
    if "ud_busy b s i r" "ud_posted q" "script s = q @ rest"
    using ud_ready_run [OF that] .
  show "ud_busy b (set_response x s) i r = ud_busy b s i r"
    "ud_served b (set_response x s) i r = ud_served b s i r"
    "ud_served b (set_store t s) i r = ud_served b s i r"
    by (simp_all add: ud_defs set_response_def set_store_def)
  show "messages_of ([] :: response call list) = []" "messages_of (ud_repost e i) = []"
    "messages_of [ud_reply e r x] = [x]"
    by (simp_all add: ud_repost_def ud_reply_def)
qed

end
