(* ===== verification/Sessions.thy ===== *)
theory Sessions
  imports KV_Properties Receive_Ring UD_Transport
begin

text \<open>
  The properties of a worker's session: over each of the four transports the requests of a client are
  answered in order as a finite map answers them, by exactly the calls that are needed for it, and an RC
  or UC worker posts and consumes its receives in step.
\<close>

section \<open>Concrete servers and replies\<close>

definition sample_ud_server :: ud_server_info where
  "sample_ud_server =
     \<lparr>uds_ud_qp = 1, uds_ud_recv_cq = 2, uds_ud_send_cq = 3, uds_server_gid = (0, 0),
      uds_local_dgram_qp_attrs = zero_attr, uds_remote_dgram_qp_attrs = replicate MAX_CLIENTS zero_attr,
      uds_pd = 4, uds_io_completion_channel_recv = 5, uds_io_completion_channel_send = 6,
      uds_qp_init_attr = ud_qp_init_attr 2 3, uds_request_mr = 7, uds_socket_fd = 8,
      uds_client_counter = 0, uds_request_count = 0, uds_ah = replicate MAX_CLIENTS 9, uds_lock = False\<rparr>"

definition sample_server_info :: "connection_type \<Rightarrow> server_info" where
  "sample_server_info ty =
     \<lparr>si_type = ty, si_port = of_nat PORT, si_blocking = False, si_tcp_socket_fd = 3,
      si_rc_server_info = \<lparr>rcs_cm_event_channel = 1, rcs_cm_server_id = 2\<rparr>,
      si_uc_server_info = \<lparr>ucs_socket_fd = 3, ucs_server_gid = (0, 0), ucs_context = 1\<rparr>\<rparr>"

definition sample_server :: "client_info \<Rightarrow> nat \<Rightarrow> request reply list \<Rightarrow> server" where
  "sample_server c buffers sc =
     \<lparr>script = sc, trace = [], rx = replicate buffers zero_request, errno = 0, store = start_memory,
      server_info = sample_server_info (ci_type c), ud_server = sample_ud_server, client = c, me = 1\<rparr>"

definition sample_tcp :: client_info where
  "sample_tcp = (fresh_client TCP zero_response 0)\<lparr>ci_tcp_client := Some \<lparr>tcp_socket_fd = 4\<rparr>\<rparr>"

definition sample_rc :: client_info where
  "sample_rc = (fresh_client RC zero_response 0)\<lparr>ci_rc_client := Some
     \<lparr>rc_pd = 1, rc_io_completion_channel = 2, rc_cq = 3, rc_qp_init_attr = connected_qp_init_attr IBV_QPT_RC 3,
      rc_cm_client_id = 4, rc_client_qp = 5, rc_request_mr = 6, rc_response_mr = 7\<rparr>\<rparr>"

definition sample_ud :: client_info where
  "sample_ud = (fresh_client UD zero_response 0)\<lparr>ci_ud_client := Some
     \<lparr>ud_socket_fd = 4, ud_response_mr = 5, ud_client_handling = 0\<rparr>\<rparr>"

lemma sample_simps [simp]:
  "script (sample_server c n sc) = sc" "trace (sample_server c n sc) = []"
  "rx (sample_server c n sc) = replicate n zero_request" "store (sample_server c n sc) = start_memory"
  "client (sample_server c n sc) = c" "ud_server (sample_server c n sc) = sample_ud_server"
  "ci_type sample_tcp = TCP" "ci_type sample_rc = RC" "ci_type sample_ud = UD"
  "ci_request_count sample_tcp = 0" "ci_request_count sample_rc = 0"
  by (simp_all add: sample_server_def sample_tcp_def sample_rc_def sample_ud_def fresh_client_def)

text \<open>Replies: bytes transferred, with what was written to a buffer; a polled completion.\<close>

definition transferred :: "nat \<Rightarrow> (nat \<times> 'm) list \<Rightarrow> 'm reply" where
  "transferred n ws = (returned (int n))\<lparr>rep_dma := ws\<rparr>"

definition completed :: "bool \<Rightarrow> int \<Rightarrow> (nat \<times> 'm) list \<Rightarrow> 'm reply" where
  "completed recv status ws =
     (returned 1)\<lparr>rep_wcs := [\<lparr>wc_status = status, wc_recv = recv\<rparr>], rep_dma := ws\<rparr>"

lemma reply_simps [simp]:
  "rep_ret (returned n) = n" "rep_dma (returned n) = []" "rep_wcs (returned n) = []"
  "rep_ret (transferred k ws) = int k" "rep_dma (transferred k ws) = ws"
  "rep_ret (completed b st ws) = 1" "rep_dma (completed b st ws) = ws"
  "rep_wcs (completed b st ws) = [\<lparr>wc_status = st, wc_recv = b\<rparr>]" "rep_errno (returned n) = 0"
  "rep_errno (completed b st ws) = 0" "rep_errno (transferred k ws) = 0"
  by (simp_all add: returned_def transferred_def completed_def)

lemma polled_completion: "completion False ws [completed recv 0 ws]"
  unfolding completion_def by (intro exI [of _ "[]"] exI [of _ "completed recv 0 ws"]) (simp add: one_completion_def)

text \<open>The conversation used below: a PING, a SET and a GET.\<close>

abbreviation sample_requests :: "request list" where
  "sample_requests \<equiv> [plain_request PING [] [], plain_request SET (bytes ''k'') (bytes ''v''),
     plain_request GET (bytes ''k'') []]"

abbreviation sample_answers :: "response list" where
  "sample_answers \<equiv> [zero_response, zero_response, zero_response\<lparr>resp_code := OK\<rparr>,
     got_response (bytes ''v'') zero_response]"

lemma sample_requests_plain:
  "\<forall>r \<in> set sample_requests. plain_method r \<and> req_connection_close r = 0"
  by (simp add: plain_method_def) (simp add: plain_request_def zero_request_def)

lemma sample_keys: "0 \<notin> set (bytes ''k'')" "length (bytes ''k'') < KEY_SIZE" "length (bytes ''v'') \<le> MSG_SIZE"
  by (simp_all add: bytes_def KEY_SIZE_def MSG_SIZE_def)

lemma sample_requests_ok: "ok_all kv_spec request_served sample_requests Map.empty"
  using plain_request_ok [OF sample_keys] plain_request_ok [OF sample_keys(1,2), of "[]"] sample_keys
  by (simp add: kv_spec_def request_served_def MSG_SIZE_def)

lemma sample_requests_answers: "all_answers sample_requests Map.empty = sample_answers"
  using sample_keys by (simp add: answers_def kv_spec_def)

section \<open>TCP\<close>

text \<open>The end of a TCP session: the descriptor is ready, and \<open>read\<close> returns less than a request.\<close>

definition tcp_end :: "request reply list \<Rightarrow> bool" where
  "tcp_end a \<longleftrightarrow>
     (\<exists>sel rd. a = [sel, rd] \<and> rep_ret sel \<noteq> - 1 \<and> rep_dma sel = [] \<and>
        rep_ret rd \<noteq> int sizeof_request \<and> rep_dma rd = [])"

lemma tcp_end_round:
  assumes "ring_idle tcp_conn s i" and "tcp_end a" and "script s = a"
  shows "\<exists>s'. job_round oks s = Return (No_request, s') \<and> worked [] [] s s'"
proof -
  from assms(2,3) obtain sel rd where sc: "script s = [sel, rd]" "rep_ret sel \<noteq> - 1" "rep_dma sel = []"
    "rep_ret rd \<noteq> int sizeof_request" "rep_dma rd = []" by (auto simp: tcp_end_def)
  from assms(1) obtain t where "ci_type (client s) = TCP" "ci_tcp_client (client s) = Some t"
    by (auto simp: ring_defs tcp_conn_def)
  with sc show ?thesis
    by (simp add: job_round_def prepare_for_next_request_def recv_request_def take_request_def
          receive_header_def connection_ready_def tcp_read_header_def cmd_run worked_def endpoints_def)
qed

definition idle_start :: "(client_info \<Rightarrow> bool) \<Rightarrow> server \<Rightarrow> bool" where
  "idle_start conn s \<longleftrightarrow>
     conn (client s) \<and> ci_request_count (client s) = 0 \<and> length (rx s) = REQUEST_BACKLOG"

lemma cleared_ring:
  assumes "idle_start conn s" and "\<And>c. conn c \<Longrightarrow> ci_type c \<noteq> UD"
  shows "\<exists>s'. clear_close_flag s = Return ((), s') \<and> ring_idle conn s' 0 \<and> script s' = script s \<and>
    store s' = store s \<and> trace s' = trace s \<and> req_connection_close (rx s' ! 0) = 0 \<and>
    endpoints s' = endpoints s"
  using assms
  by (simp add: clear_close_flag_def idle_start_def cmd_run ring_defs REQUEST_BACKLOG_def endpoints_def)

text \<open>
  C1: a TCP worker answers every request of its client, in order, with what a finite map answers
  (a PING with one more response), each by a write to the client's socket, and ends when the client has
  closed the connection; the store then represents the map after these requests. Here from the start of
  \<open>main_job\<close> to its end, for requests with a method other than EXIT, SETOPT and UNK that do not set
  \<open>connection_close\<close>, fit their buffers and (for a GET or a DEL) whose key does not begin another stored
  key of its bucket.
\<close>

theorem tcp_session:
  assumes start: "idle_start tcp_conn s" "stores (store s) m"
    and replies: "script s = sc @ a" "conversation tcp_arrives (\<lambda>q. q = []) tcp_delivered REQUEST_BACKLOG 0 rs sc"
      "tcp_end a"
    and requests: "\<forall>r \<in> set rs. plain_method r \<and> req_connection_close r = 0" "ok_all kv_spec request_served rs m"
  shows "\<exists>s'. main_job (True, True, True) s = Return ((), s') \<and>
    sent_messages (trace s') = sent_messages (trace s) @ all_answers rs m \<and>
    work_calls (trace s') = work_calls (trace s) @
      session_work (\<lambda>e i. []) (\<lambda>e i. []) tcp_reply (endpoints s) REQUEST_BACKLOG 0 rs m \<and>
    stores (store s') (snd (spec_all kv_spec rs m))"
proof -
  let ?oks = "(True, True, True)"
  from cleared_ring [OF start(1)] obtain s1 where s1: "clear_close_flag s = Return ((), s1)"
    "ring_idle tcp_conn s1 0" "script s1 = sc @ a" "store s1 = store s"
    "trace s1 = trace s" "req_connection_close (rx s1 ! 0) = 0" "endpoints s1 = endpoints s"
    using replies(1) by (auto simp: tcp_conn_def)
  have "stores (store s1) m" using start(2) s1(4) by simp
  from tcp.session_run [OF s1(2) this s1(6) replies(2) s1(3) requests] obtain s2 where s2:
    "\<And>fuel. job_loop (length rs + fuel) ?oks s1 = job_loop fuel ?oks s2" "script s2 = a"
    "ring_idle tcp_conn s2 (length rs mod REQUEST_BACKLOG)" "stores (store s2) (snd (spec_all kv_spec rs m))"
    "sent_messages (trace s2) = sent_messages (trace s1) @ all_answers rs m"
    "work_calls (trace s2) = work_calls (trace s1) @
      session_work (\<lambda>e i. []) (\<lambda>e i. []) tcp_reply (endpoints s1) REQUEST_BACKLOG 0 rs m"
    by (auto simp: REQUEST_BACKLOG_def)
  from tcp_end_round [OF s2(3) replies(3) s2(2)] obtain s3 where s3:
    "job_round ?oks s2 = Return (No_request, s3)" "worked [] [] s2 s3" by blast
  have "job_loop (Suc (length (script s1))) ?oks s1 = job_loop (length rs + Suc (length (script s1))) ?oks s1"
    by (intro job_loop_fuel) simp_all
  also have "\<dots> = job_loop (Suc (length (script s1))) ?oks s2" by (rule s2(1))
  also have "\<dots> = Return (No_request, s3)" using s3(1) by (simp add: cmd_run)
  finally have "main_job ?oks s = Return ((), s3)"
    using s1(1) by (simp add: main_job_def cmd_run del: job_loop.simps)
  then show ?thesis using s1(5,7) s2(4-6) s3(2) worked_kept [OF s3(2)] by (auto simp: kept_def worked_def)
qed

text \<open>The replies of a TCP session without errors, for the witness.\<close>

fun tcp_replies :: "nat \<Rightarrow> request list \<Rightarrow> request reply list" where
  "tcp_replies i [] = []"
| "tcp_replies i (r # rs) =
     [returned 1, transferred sizeof_request [(i, r)]]
     @ (if req_method r = PING then [transferred sizeof_response []] else [])
     @ [transferred sizeof_response []] @ tcp_replies ((i + 1) mod REQUEST_BACKLOG) rs"

lemma tcp_replies_conversation:
  "conversation tcp_arrives (\<lambda>q. q = []) tcp_delivered REQUEST_BACKLOG i rs (tcp_replies i rs)"
proof (induction rs arbitrary: i)
  case (Cons r rs)
  have "tcp_arrives i r [returned 1, transferred sizeof_request [(i, r)]]"
    and d: "tcp_delivered [transferred sizeof_response []]"
    by (simp_all add: tcp_arrives_def tcp_delivered_def)
  with Cons [of "(i + 1) mod REQUEST_BACKLOG"] show ?case
    unfolding conversation.simps tcp_replies.simps
    by (intro exI [of _ "[returned 1, transferred sizeof_request [(i, r)]]"]
          exI [of _ "if req_method r = PING then [transferred sizeof_response []] else []"]
          exI [of _ "[]"] exI [of _ "[transferred sizeof_response []]"]
          exI [of _ "tcp_replies ((i + 1) mod REQUEST_BACKLOG) rs"]) simp
qed simp

theorem tcp_session_witness:
  "\<exists>s'. main_job (True, True, True) (sample_server sample_tcp REQUEST_BACKLOG
       (tcp_replies 0 sample_requests @ [returned 1, returned 0])) = Return ((), s') \<and>
     sent_messages (trace s') = sample_answers"
proof -
  let ?s = "sample_server sample_tcp REQUEST_BACKLOG (tcp_replies 0 sample_requests @ [returned 1, returned 0])"
  have "idle_start tcp_conn ?s"
    by (simp add: idle_start_def tcp_conn_def) (simp add: sample_tcp_def)
  moreover have "tcp_end [returned 1, returned 0]" by (simp add: tcp_end_def sizeof_request_def)
  ultimately have "\<exists>s'. main_job (True, True, True) ?s = Return ((), s') \<and>
      sent_messages (trace s') = sent_messages (trace ?s) @ all_answers sample_requests Map.empty \<and>
      work_calls (trace s') = work_calls (trace ?s) @
        session_work (\<lambda>e i. []) (\<lambda>e i. []) tcp_reply (endpoints ?s) REQUEST_BACKLOG 0 sample_requests Map.empty \<and>
      stores (store s') (snd (spec_all kv_spec sample_requests Map.empty))"
    by (intro tcp_session [OF _ _ _ tcp_replies_conversation _ sample_requests_plain sample_requests_ok])
       (simp_all add: start_stores del: tcp_replies.simps)
  then show ?thesis unfolding sample_requests_answers by auto
qed

section \<open>RC and UC\<close>

definition rdma_conn :: "bool \<Rightarrow> client_info \<Rightarrow> bool" where
  "rdma_conn b c \<longleftrightarrow> rc_conn b c \<or> uc_conn b c"

text \<open>The calls of a ring transport for one request.\<close>

definition rdma_receive :: "connection_type \<Rightarrow> endpoint \<Rightarrow> nat \<Rightarrow> response call list" where
  "rdma_receive ty = (if ty = RC then rc_receive else uc_receive)"

definition rdma_reply :: "connection_type \<Rightarrow> endpoint \<Rightarrow> request \<Rightarrow> response \<Rightarrow> response call" where
  "rdma_reply ty = (if ty = RC then rc_reply else uc_reply)"

text \<open>
  C2: a worker of an RC or a UC client, blocking or not, answers every request of a conversation in
  order with what a finite map answers, for any number of empty polls before each completion, and then
  waits in the next slot of the ring. Its calls that move data are, for each request, a receive posted into
  the slot that is waited for, and the answers (for a PING two), all on the client's queue pair. The
  requests are as in C1.
\<close>

theorem rdma_session:
  assumes start: "idle_start (rdma_conn b) s" "stores (store s) m"
    and replies: "script s = sc @ rest"
      "conversation (rdma_arrives b) (\<lambda>q. q = []) (rdma_delivered b) REQUEST_BACKLOG 0 rs sc"
    and requests: "\<forall>r \<in> set rs. plain_method r \<and> req_connection_close r = 0" "ok_all kv_spec request_served rs m"
  shows "\<exists>s0 s'. clear_close_flag s = Return ((), s0) \<and>
    (\<forall>fuel. job_loop (length rs + fuel) (True, True, True) s0 = job_loop fuel (True, True, True) s') \<and>
    script s' = rest \<and> ring_idle (rdma_conn b) s' (length rs mod REQUEST_BACKLOG) \<and>
    sent_messages (trace s') = sent_messages (trace s) @ all_answers rs m \<and>
    work_calls (trace s') = work_calls (trace s) @
      session_work (rdma_receive (ci_type (client s))) (\<lambda>e i. []) (rdma_reply (ci_type (client s)))
        (endpoints s) REQUEST_BACKLOG 0 rs m \<and>
    stores (store s') (snd (spec_all kv_spec rs m))"
proof -
  have "\<exists>s0. clear_close_flag s = Return ((), s0) \<and> ring_idle (rdma_conn b) s0 0 \<and> script s0 = script s \<and>
      store s0 = store s \<and> trace s0 = trace s \<and> req_connection_close (rx s0 ! 0) = 0 \<and>
      endpoints s0 = endpoints s \<and> ci_type (client s0) = ci_type (client s)"
    using start(1)
    by (auto simp: clear_close_flag_def idle_start_def cmd_run ring_defs REQUEST_BACKLOG_def endpoints_def
        rdma_conn_def rc_conn_def uc_conn_def)
  then obtain s0 where s0: "clear_close_flag s = Return ((), s0)" "ring_idle (rdma_conn b) s0 0"
    "script s0 = sc @ rest" "store s0 = store s" "trace s0 = trace s" "req_connection_close (rx s0 ! 0) = 0"
    "endpoints s0 = endpoints s" "ci_type (client s0) = ci_type (client s)"
    using replies(1) by auto
  have st: "stores (store s0) m" using start(2) s0(4) by simp
  from s0(2) consider "ring_idle (rc_conn b) s0 0" | "ring_idle (uc_conn b) s0 0"
    by (auto simp: ring_defs rdma_conn_def)
  then have "\<exists>s'. (\<forall>fuel. job_loop (length rs + fuel) (True, True, True) s0 = job_loop fuel (True, True, True) s') \<and>
      script s' = rest \<and> ring_idle (rdma_conn b) s' (length rs mod REQUEST_BACKLOG) \<and>
      sent_messages (trace s') = sent_messages (trace s0) @ all_answers rs m \<and>
      work_calls (trace s') = work_calls (trace s0) @
        session_work (rdma_receive (ci_type (client s0))) (\<lambda>e i. []) (rdma_reply (ci_type (client s0)))
          (endpoints s0) REQUEST_BACKLOG 0 rs m \<and>
      stores (store s') (snd (spec_all kv_spec rs m))"
  proof cases
    case 1
    have "(0::nat) < REQUEST_BACKLOG" by (simp add: REQUEST_BACKLOG_def)
    moreover have "ci_type (client s0) = RC" using 1 by (auto simp: ring_defs rc_conn_def)
    ultimately show ?thesis using rc.session_run [OF 1 st s0(6) replies(2) s0(3) requests]
      by (auto simp: ring_defs rdma_conn_def rdma_receive_def rdma_reply_def)
  next
    case 2
    have "(0::nat) < REQUEST_BACKLOG" by (simp add: REQUEST_BACKLOG_def)
    moreover have "ci_type (client s0) = UC" using 2 by (auto simp: ring_defs uc_conn_def)
    ultimately show ?thesis using uc.session_run [OF 2 st s0(6) replies(2) s0(3) requests]
      by (auto simp: ring_defs rdma_conn_def rdma_receive_def rdma_reply_def)
  qed
  with s0(1,5,7,8) show ?thesis by auto
qed

text \<open>The replies of a session without errors in which every wait polls once in vain.\<close>

definition polled :: "bool \<Rightarrow> (nat \<times> 'm) list \<Rightarrow> 'm reply list" where
  "polled recv ws = [returned 0, completed recv 0 ws]"

lemma polled_twice: "completion False ws (polled recv ws)"
  unfolding completion_def polled_def
  by (intro exI [of _ "[returned 0]"] exI [of _ "completed recv 0 ws"])
     (simp add: one_completion_def empty_poll_def)

fun rdma_replies :: "nat \<Rightarrow> request list \<Rightarrow> request reply list" where
  "rdma_replies i [] = []"
| "rdma_replies i (r # rs) =
     (returned 0 # polled True [(i, r)])
     @ (if req_method r = PING then returned 0 # polled False [] else [])
     @ (returned 0 # polled False []) @ rdma_replies ((i + 1) mod REQUEST_BACKLOG) rs"

lemma rdma_replies_conversation:
  "conversation (rdma_arrives False) (\<lambda>q. q = []) (rdma_delivered False) REQUEST_BACKLOG i rs (rdma_replies i rs)"
proof (induction rs arbitrary: i)
  case (Cons r rs)
  have "rdma_arrives False i r (returned 0 # polled True [(i, r)])"
    and "rdma_delivered False (returned 0 # polled False [])"
    by (simp_all add: rdma_arrives_def rdma_delivered_def polled_twice)
  with Cons [of "(i + 1) mod REQUEST_BACKLOG"] show ?case
    unfolding conversation.simps rdma_replies.simps
    by (intro exI [of _ "returned 0 # polled True [(i, r)]"]
          exI [of _ "if req_method r = PING then returned 0 # polled False [] else []"]
          exI [of _ "[]"] exI [of _ "returned 0 # polled False []"]
          exI [of _ "rdma_replies ((i + 1) mod REQUEST_BACKLOG) rs"]) simp
qed simp

theorem rdma_session_witness:
  "\<exists>s0 s'. clear_close_flag (sample_server sample_rc REQUEST_BACKLOG (rdma_replies 0 sample_requests)) =
       Return ((), s0) \<and>
     (\<forall>fuel. job_loop (3 + fuel) (True, True, True) s0 = job_loop fuel (True, True, True) s') \<and>
     sent_messages (trace s') = sample_answers"
proof -
  let ?s = "sample_server sample_rc REQUEST_BACKLOG (rdma_replies 0 sample_requests)"
  have "idle_start (rdma_conn False) ?s"
    by (simp add: idle_start_def rdma_conn_def rc_conn_def) (simp add: sample_rc_def fresh_client_def)
  from rdma_session [OF this _ _ rdma_replies_conversation sample_requests_plain sample_requests_ok, of "[]"]
  obtain s0 s' where "clear_close_flag ?s = Return ((), s0)"
    "\<forall>fuel. job_loop (length sample_requests + fuel) (True, True, True) s0 = job_loop fuel (True, True, True) s'"
    "sent_messages (trace s') = sent_messages (trace ?s) @ all_answers sample_requests Map.empty"
    by (auto simp: start_stores simp del: rdma_replies.simps job_loop.simps)
  then show ?thesis
    unfolding sample_requests_answers
    by (intro exI [of _ s0] exI [of _ s']) (simp add: numeral_3_eq_3 del: rdma_replies.simps job_loop.simps)
qed

section \<open>UD\<close>

text \<open>
  C3: a UD worker whose server nobody else is using answers every request of a conversation in order
  with what a finite map answers, and gives the mutex back. Its calls that move data are exactly these, for
  each request in turn: the second response to a PING, a receive posted again for the slot of the request,
  into the buffer of that slot and of the size of a datagram, and the answer, to the address handle and the
  queue pair that the request's \<open>client_id\<close> names.
\<close>

theorem ud_session:
  assumes start: "ud_idle b s i" "stores (store s) m" "req_connection_close (rx s ! 0) = 0"
    and replies: "script s = sc @ rest"
      "conversation (ud_arrives b) ud_posted (rdma_delivered b) MAX_CLIENTS i rs sc"
    and requests: "\<forall>r \<in> set rs. plain_method r \<and> req_connection_close r = 0" "ok_all kv_spec request_served rs m"
  shows "\<exists>s'. (\<forall>fuel. job_loop (length rs + fuel) (True, True, True) s = job_loop fuel (True, True, True) s') \<and>
    script s' = rest \<and> ud_idle b s' ((i + length rs) mod MAX_CLIENTS) \<and>
    sent_messages (trace s') = sent_messages (trace s) @ all_answers rs m \<and>
    work_calls (trace s') = work_calls (trace s) @
      session_work (\<lambda>e i. []) ud_repost ud_reply (endpoints s) MAX_CLIENTS i rs m \<and>
    stores (store s') (snd (spec_all kv_spec rs m))"
proof -
  have "i < MAX_CLIENTS" using start(1) by (simp add: ud_idle_def)
  from ud.session_run [OF start replies(2,1) requests this] show ?thesis by blast
qed

fun ud_replies :: "nat \<Rightarrow> request list \<Rightarrow> request reply list" where
  "ud_replies i [] = []"
| "ud_replies i (r # rs) =
     polled True [(i, r)]
     @ (if req_method r = PING then returned 0 # polled False [] else [])
     @ [returned 0] @ (returned 0 # polled False []) @ ud_replies ((i + 1) mod MAX_CLIENTS) rs"

lemma ud_replies_conversation:
  "\<forall>r \<in> set rs. req_client_id r = 0 \<Longrightarrow>
     conversation (ud_arrives False) ud_posted (rdma_delivered False) MAX_CLIENTS i rs (ud_replies i rs)"
proof (induction rs arbitrary: i)
  case (Cons r rs)
  have "ud_arrives False i r (polled True [(i, r)])" "ud_posted [returned 0]"
    and "rdma_delivered False (returned 0 # polled False [])"
    using Cons.prems by (simp_all add: ud_arrives_def ud_posted_def rdma_delivered_def polled_twice MAX_CLIENTS_def)
  with Cons show ?case
    unfolding conversation.simps ud_replies.simps
    by (intro exI [of _ "polled True [(i, r)]"]
          exI [of _ "if req_method r = PING then returned 0 # polled False [] else []"]
          exI [of _ "[returned 0]"] exI [of _ "returned 0 # polled False []"]
          exI [of _ "ud_replies ((i + 1) mod MAX_CLIENTS) rs"]) simp
qed simp

theorem ud_session_witness:
  "\<exists>s'. (\<forall>fuel. job_loop (3 + fuel) (True, True, True)
        (sample_server sample_ud MAX_CLIENTS (ud_replies 0 sample_requests)) =
       job_loop fuel (True, True, True) s') \<and>
     sent_messages (trace s') = sample_answers \<and>
     work_calls (trace s') =
       [Post_send 1 0 sizeof_response zero_response (Some (9, 0)), Post_recv 1 0 0 sizeof_ud_request,
        Post_send 1 0 sizeof_response zero_response (Some (9, 0)), Post_recv 1 1 1 sizeof_ud_request,
        Post_send 1 0 sizeof_response (zero_response\<lparr>resp_code := OK\<rparr>) (Some (9, 0)),
        Post_recv 1 2 2 sizeof_ud_request,
        Post_send 1 0 sizeof_response (got_response (bytes ''v'') zero_response) (Some (9, 0))]"
proof -
  let ?s = "sample_server sample_ud MAX_CLIENTS (ud_replies 0 sample_requests)"
  have "ud_idle False ?s 0"
    by (simp add: ud_idle_def ud_ok_def sample_ud_server_def MAX_CLIENTS_def zero_request_def)
       (simp add: sample_ud_def fresh_client_def)
  moreover have id: "\<forall>r \<in> set sample_requests. req_client_id r = 0"
    by (simp add: plain_request_def zero_request_def)
  moreover have "req_connection_close (rx ?s ! 0) = 0" by (simp add: MAX_CLIENTS_def zero_request_def)
  ultimately obtain s' where
    "\<forall>fuel. job_loop (length sample_requests + fuel) (True, True, True) ?s = job_loop fuel (True, True, True) s'"
    "sent_messages (trace s') = sent_messages (trace ?s) @ all_answers sample_requests Map.empty"
    "work_calls (trace s') = work_calls (trace ?s) @
      session_work (\<lambda>e i. []) ud_repost ud_reply (endpoints ?s) MAX_CLIENTS 0 sample_requests Map.empty"
    using ud_session [OF _ _ _ _ ud_replies_conversation sample_requests_plain sample_requests_ok,
        where s = ?s and rest = "[]" and i = 0]
    by (auto simp: start_stores
        simp del: ud_replies.simps job_loop.simps session_work.simps all_answers.simps spec_all.simps)
  moreover have "session_work (\<lambda>e i. []) ud_repost ud_reply (endpoints ?s) MAX_CLIENTS 0 sample_requests Map.empty =
       [Post_send 1 0 sizeof_response zero_response (Some (9, 0)), Post_recv 1 0 0 sizeof_ud_request,
        Post_send 1 0 sizeof_response zero_response (Some (9, 0)), Post_recv 1 1 1 sizeof_ud_request,
        Post_send 1 0 sizeof_response (zero_response\<lparr>resp_code := OK\<rparr>) (Some (9, 0)),
        Post_recv 1 2 2 sizeof_ud_request,
        Post_send 1 0 sizeof_response (got_response (bytes ''v'') zero_response) (Some (9, 0))]"
    using sample_keys id
    by (simp add: turn_work_def ud_repost_def ud_reply_def endpoints_def sample_ud_server_def kv_spec_def
        MAX_CLIENTS_def zero_attr_def)
  ultimately show ?thesis
    unfolding sample_requests_answers
    by (intro exI [of _ s']) (simp add: numeral_3_eq_3 del: ud_replies.simps job_loop.simps)
qed

section \<open>The receives of an RC or UC worker\<close>

definition pre_posted :: "server \<Rightarrow> bool" where
  "pre_posted s \<longleftrightarrow>
     posted_slots (trace s) = [0..<REQUEST_BACKLOG] \<and> taken (trace s) = [] \<and> sent_messages (trace s) = [] \<and>
     ci_request_count (client s) = 0"

text \<open>
  C4: after the accepting code has pre-posted slots 0 to 4, \<open>n\<close> turns of an RC or UC worker post \<open>n\<close>
  more receives and take at least \<open>n\<close> receive completions, if the card reports no error and no more
  send completions than sends, in whatever order. So at most \<^const>\<open>REQUEST_BACKLOG\<close> receives are
  outstanding between turns, one more during a turn, below the queue's \<^const>\<open>MAX_WR\<close>.
\<close>

theorem receives_keep_pace:
  assumes "on_ring s" and "pre_posted s"
    and "run_all (\<lambda>_. job_round oks) (replicate n ()) s = Return (rs, s')" and "No_request \<notin> set rs"
    and "documented_run s'"
    and "length (filter (\<lambda>w. \<not> wc_recv w) (taken (trace s'))) \<le> length (sent_messages (trace s'))"
  shows "n \<le> length (filter wc_recv (taken (trace s'))) \<and>
    length (posted_slots (trace s')) = REQUEST_BACKLOG + n \<and>
    length (posted_slots (trace s')) - length (filter wc_recv (taken (trace s'))) \<le> REQUEST_BACKLOG \<and>
    REQUEST_BACKLOG + 1 < MAX_WR"
proof -
  from ring_rounds [OF assms(3,4,1,5)] assms(2) obtain ps where ps:
    "balance (trace s') = int n" "length ps = n" "posted_slots (trace s') = [0..<REQUEST_BACKLOG] @ ps"
    by (auto simp: pre_posted_def balance_def)
  have "length (taken (trace s')) = n + length (sent_messages (trace s'))"
    using ps(1) by (simp add: balance_def)
  moreover have "length (taken (trace s')) =
      length (filter wc_recv (taken (trace s'))) + length (filter (\<lambda>w. \<not> wc_recv w) (taken (trace s')))"
    by (simp add: sum_length_filter_compl)
  ultimately have "n \<le> length (filter wc_recv (taken (trace s')))" using assms(6) by simp
  then show ?thesis using ps(2,3) by (simp add: REQUEST_BACKLOG_def MAX_WR_def)
qed

definition pre_posted_server :: server where
  "pre_posted_server = (sample_server sample_rc REQUEST_BACKLOG (rdma_replies 0 [plain_request DUMP [] []]))
     \<lparr>trace := map (\<lambda>i. (Post_recv 5 i i sizeof_request, returned 0)) [0..<REQUEST_BACKLOG]\<rparr>"

lemma pre_posted_round:
  "\<exists>s'. job_round oks pre_posted_server = Return (Continue, s') \<and>
     trace s' = trace pre_posted_server @
       [(Post_recv 5 0 0 sizeof_request, returned 0), (Poll_cq 3 1, returned 0),
        (Poll_cq 3 1, completed True 0 [(0, plain_request DUMP [] [])]),
        (Post_send 5 0 sizeof_response zero_response None, returned 0), (Poll_cq 3 1, returned 0),
        (Poll_cq 3 1, completed False 0 [])]"
  by (simp add: pre_posted_server_def sample_server_def sample_rc_def fresh_client_def polled_def
      job_round_def prepare_for_next_request_def rc_post_receive_request_def post_recieve_def cmd_run
      recv_request_def take_request_def receive_header_def rc_receive_header_def
      process_work_completion_events_def get_current_request_def request_dispatcher_def answer_request_def
      ready_for_next_request_def serve_request_def on_store_def send_response_to_client_def
      rc_send_response_def post_send_def is_connection_closed_def REQUEST_BACKLOG_def zero_request_def
      plain_request_def returned_def completed_def)

theorem receives_keep_pace_witness:
  "\<exists>rs s'. run_all (\<lambda>_. job_round (True, True, True)) (replicate 1 ()) pre_posted_server = Return (rs, s') \<and>
     1 \<le> length (filter wc_recv (taken (trace s')))"
proof -
  let ?s = pre_posted_server
  from pre_posted_round [of "(True, True, True)"] obtain s' where
    s': "job_round (True, True, True) ?s = Return (Continue, s')" and
    tr: "trace s' = trace ?s @
       [(Post_recv 5 0 0 sizeof_request, returned 0), (Poll_cq 3 1, returned 0),
        (Poll_cq 3 1, completed True 0 [(0, plain_request DUMP [] [])]),
        (Post_send 5 0 sizeof_response zero_response None, returned 0), (Poll_cq 3 1, returned 0),
        (Poll_cq 3 1, completed False 0 [])]" by blast
  have t: "trace ?s = map (\<lambda>i. (Post_recv 5 i i sizeof_request, returned 0)) [0..<REQUEST_BACKLOG]"
    by (simp_all add: pre_posted_server_def)
  have run: "run_all (\<lambda>_. job_round (True, True, True)) (replicate 1 ()) ?s = Return ([Continue], s')"
    using s' by (simp add: cmd_run)
  have on: "on_ring ?s" by (simp add: on_ring_def pre_posted_server_def)
  have pre: "pre_posted ?s"
  proof -
    have "ci_request_count (client ?s) = 0" by (simp add: pre_posted_server_def)
    moreover have "[0..<REQUEST_BACKLOG] = [0, 1, 2, 3, 4]" by (simp add: REQUEST_BACKLOG_def upt_rec)
    ultimately show ?thesis unfolding pre_posted_def t by simp
  qed
  have doc: "documented_run s'"
    by (auto simp: documented_run_def tr t documented_def)
  have snd: "length (filter (\<lambda>w. \<not> wc_recv w) (taken (trace s'))) \<le> length (sent_messages (trace s'))"
    by (simp add: tr t REQUEST_BACKLOG_def upt_rec)
  have "No_request \<notin> set [Continue]" by simp
  from receives_keep_pace [OF on pre run this doc snd, THEN conjunct1] run show ?thesis by blast
qed

end
