(* ===== verification/Client_Sessions.thy ===== *)
theory Client_Sessions
  imports Client_Transport Benchmark_Requests Sessions
begin

text \<open>
  What a benchmark thread does over any transport that keeps the contract \<open>client_transport\<close>: every
  operation makes its request, sends it once more for each time no response came in time, and measures
  from before the first sending to after the response; a thread that gets through its operations returns
  the times of all of them.
\<close>

section \<open>The replies of a thread's operations\<close>

text \<open>One operation: the request is sent and lost \<open>k\<close> times, then sent and answered.\<close>

fun tries ::
  "('r list \<Rightarrow> bool) \<Rightarrow> ('r list \<Rightarrow> bool) \<Rightarrow> ('r list \<Rightarrow> bool) \<Rightarrow> nat \<Rightarrow> 'r list \<Rightarrow> bool" where
  "tries sent received lost 0 a \<longleftrightarrow> (\<exists>b c. a = b @ c \<and> sent b \<and> received c)"
| "tries sent received lost (Suc k) a \<longleftrightarrow>
     (\<exists>b c d. a = b @ c @ d \<and> sent b \<and> lost c \<and> tries sent received lost k d)"

text \<open>
  The random numbers and the request they lead to: at most 5 modulo 100 is the SET of this operation,
  anything else the GET of an earlier one.
\<close>

definition chooses :: "int \<Rightarrow> nat \<Rightarrow> request \<Rightarrow> response reply list \<Rightarrow> request \<Rightarrow> bool" where
  "chooses nr count r0 cs r \<longleftrightarrow>
     (\<exists>a. cs = [a] \<and> rep_dma a = [] \<and> rep_ret a mod 100 \<le> 5 \<and> set_into nr (int count) r0 = Return r) \<or>
     (\<exists>a b. cs = [a, b] \<and> rep_dma a = [] \<and> rep_dma b = [] \<and> \<not> rep_ret a mod 100 \<le> 5 \<and>
        get_into nr (rep_ret b mod (int count + 1) - 1) r0 = Return r)"

record op_run =
  or_request :: request
  or_losses :: nat
  or_response :: response
  or_start :: timeval
  or_end :: timeval

definition measured :: "op_run \<Rightarrow> operation" where
  "measured x = \<lparr>op_start = Some (Some (or_start x)), op_end = Some (Some (or_end x))\<rparr>"

definition sendings :: "op_run \<Rightarrow> request list" where
  "sendings x = replicate (Suc (or_losses x)) (or_request x)"

fun performed ::
  "(response reply list \<Rightarrow> bool) \<Rightarrow> (response \<Rightarrow> response reply list \<Rightarrow> bool) \<Rightarrow> (response reply list \<Rightarrow> bool) \<Rightarrow>
   int \<Rightarrow> nat \<Rightarrow> request \<Rightarrow> op_run list \<Rightarrow> response reply list \<Rightarrow> bool" where
  "performed sent received lost nr count r0 [] sc \<longleftrightarrow> sc = []"
| "performed sent received lost nr count r0 (x # xs) sc \<longleftrightarrow>
     (\<exists>cs g tr h rest. sc = cs @ g # tr @ h # rest \<and> chooses nr count r0 cs (or_request x) \<and>
        rep_dma g = [] \<and> rep_dma h = [] \<and> rep_time g = or_start x \<and> rep_time h = or_end x \<and>
        tries sent (received (or_response x)) lost (or_losses x) tr \<and>
        performed sent received lost nr (Suc count) (or_request x) xs rest)"

lemma performed_Cons:
  assumes "chooses nr count r0 cs (or_request x)" and "rep_dma g = []" and "rep_dma h = []"
    and "rep_time g = or_start x" and "rep_time h = or_end x"
    and "tries sent (received (or_response x)) lost (or_losses x) tr"
    and "performed sent received lost nr (Suc count) (or_request x) xs rest"
  shows "performed sent received lost nr count r0 (x # xs) (cs @ g # tr @ h # rest)"
  using assms unfolding performed.simps by blast

section \<open>Over any transport\<close>

lemma io_step_bench:
  fixes s s' :: bench
  assumes "io_step out ws s s'"
  shows "conn s' = conn s" "ops s' = ops s"
  using assms more_bench [of s' s] by (simp_all add: io_step_def)

lemma stamp_run [cmd_run]:
  "count < length (ops s) \<Longrightarrow> stamp count f s = Return ((), s\<lparr>ops := (ops s)[count := f (ops s ! count)]\<rparr>)"
  "\<not> count < length (ops s) \<Longrightarrow> stamp count f s = Undefined Out_of_bounds"
  by (simp_all add: stamp_def cmd_run)

context client_transport
begin

lemma tries_length: "tries sent got lost k a \<Longrightarrow> k < length a"
proof (induction k arbitrary: a)
  case 0
  then show ?case using sent_replies by auto
next
  case (Suc k)
  from Suc.prems obtain b c d where a: "a = b @ c @ d" "sent b" "tries sent got lost k d" by auto
  from Suc.IH [OF a(3)] sent_replies [OF a(2)] show ?case by (cases b) (auto simp: a(1))
qed

lemma attempts_run:
  assumes "connected (conn s) r" and "tries sent (received x) lost k a" and "script s = a @ rest" and "k < fuel"
  shows "\<exists>s'. attempts fuel s = Return (None, s') \<and> script s' = rest \<and>
    io_step (replicate (Suc k) r) [(0, x)] s s'"
  using assms
proof (induction k arbitrary: a s fuel)
  case 0
  then obtain b c f where a: "script s = b @ c @ rest" "sent b" "received x c" "fuel = Suc f"
    by (cases fuel) auto
  from send_law [OF 0(1) a(2,1)] obtain s1 where
    s1: "send_request s = Return (0, s1)" "script s1 = c @ rest" "io_step [r] [] s s1" by blast
  have "connected (conn s1) r" using 0(1) io_step_bench(1) [OF s1(3)] by simp
  from receive_law [OF this a(3) s1(2)] obtain n s2 where
    s2: "receive_response s1 = Return (n, s2)" "0 < n" "script s2 = rest" "io_step [] [(0, x)] s1 s2" by blast
  from io_step_trans [OF s1(3) s2(4)] s1(1) s2(1-3) a(4) show ?case by (simp add: cmd_run)
next
  case (Suc k)
  then obtain b c d f where a: "script s = b @ c @ d @ rest" "sent b" "lost c" "fuel = Suc f" "k < f"
    "tries sent (received x) lost k d"
    by (cases fuel) auto
  from send_law [OF Suc(2) a(2,1)] obtain s1 where
    s1: "send_request s = Return (0, s1)" "script s1 = c @ d @ rest" "io_step [r] [] s s1" by blast
  have c1: "connected (conn s1) r" using Suc(2) io_step_bench(1) [OF s1(3)] by simp
  from lost_law [OF this a(3) s1(2)] obtain s2 where
    s2: "receive_response s1 = Return (0, s2)" "script s2 = d @ rest" "io_step [] [] s1 s2" by blast
  have "connected (conn s2) r" using c1 io_step_bench(1) [OF s2(3)] by simp
  from Suc.IH [OF this a(6) s2(2) a(5)] obtain s3 where
    s3: "attempts f s2 = Return (None, s3)" "script s3 = rest" "io_step (replicate (Suc k) r) [(0, x)] s2 s3"
    by blast
  from io_step_trans [OF io_step_trans [OF s1(3) s2(3)] s3(3)] s1(1) s2(1) s3(1,2) a(4) show ?case
    by (simp add: cmd_run)
qed

text \<open>Choosing and making the request.\<close>

lemma choose_run:
  assumes "connected (conn s) r0" and "chooses (cc_instance_nr (conn s)) count r0 cs r" and "script s = cs @ rest"
  shows "\<exists>s'. choose_request count s = Return ((), s') \<and> script s' = rest \<and> connected (conn s') r \<and>
    cc_instance_nr (conn s') = cc_instance_nr (conn s) \<and> ops s' = ops s \<and> rx s' = rx s \<and>
    sent_messages (trace s') = sent_messages (trace s)"
proof -
  let ?nr = "cc_instance_nr (conn s)"
  have fill: "\<exists>s'. cbind conn_request (\<lambda>request. cbind (cget (\<lambda>s. cc_instance_nr (conn s))) (\<lambda>nr.
        cbind (clift (f nr request)) put_request)) t = Return ((), s') \<and> script s' = script t \<and> connected (conn s') r \<and>
      cc_instance_nr (conn s') = ?nr \<and> ops s' = ops t \<and> rx s' = rx t \<and> trace s' = trace t"
    if t: "conn t = conn s" "f ?nr r0 = Return r" for f t
  proof -
    have c: "connected (conn t) r0" using assms(1) t(1) by simp
    from request_law [OF c, of r] obtain c' where "conn_request t = Return (r0, t)"
      "put_request r t = Return ((), t\<lparr>conn := c'\<rparr>)" "connected c' r" "cc_instance_nr c' = ?nr"
      using t(1) by auto
    then show ?thesis using t by (simp add: cmd_run)
  qed
  from assms(2) consider (set) a where "cs = [a]" "rep_dma a = []" "rep_ret a mod 100 \<le> 5"
      "set_into ?nr (int count) r0 = Return r"
    | (get) a b where "cs = [a, b]" "rep_dma a = []" "rep_dma b = []" "\<not> rep_ret a mod 100 \<le> 5"
      "get_into ?nr (rep_ret b mod (int count + 1) - 1) r0 = Return r"
    unfolding chooses_def by blast
  then show ?thesis
  proof cases
    case set
    let ?t = "s\<lparr>script := rest, trace := trace s @ [(Sys Rand, a)], rx := rx s, errno := rep_errno a\<rparr>"
    from fill [of ?t "\<lambda>nr. set_into nr (int count)"] set(4) obtain s' where
      "make_set_request (int count) ?t = Return ((), s')" "script s' = rest" "connected (conn s') r"
      "cc_instance_nr (conn s') = ?nr" "ops s' = ops s" "rx s' = rx s" "trace s' = trace s @ [(Sys Rand, a)]"
      by (auto simp: make_set_request_def)
    with set assms(3) show ?thesis by (simp add: choose_request_def cmd_run)
  next
    case get
    let ?t = "s\<lparr>script := rest, trace := trace s @ [(Sys Rand, a), (Sys Rand, b)], rx := rx s, errno := rep_errno b\<rparr>"
    from fill [of ?t "\<lambda>nr. get_into nr (rep_ret b mod (int count + 1) - 1)"] get(5) obtain s' where
      "make_get_request (rep_ret b mod (int count + 1) - 1) ?t = Return ((), s')" "script s' = rest"
      "connected (conn s') r" "cc_instance_nr (conn s') = ?nr" "ops s' = ops s" "rx s' = rx s"
      "trace s' = trace s @ [(Sys Rand, a), (Sys Rand, b)]"
      by (auto simp: make_get_request_def)
    with get assms(3) show ?thesis by (simp add: choose_request_def cmd_run)
  qed
qed

text \<open>One operation, then the loop.\<close>

lemma perform_run:
  assumes c: "connected (conn s) r0" "chooses (cc_instance_nr (conn s)) count r0 cs (or_request x)"
    and sc: "script s = cs @ g # tr @ h # rest" "rep_dma g = []" "rep_dma h = []"
      "rep_time g = or_start x" "rep_time h = or_end x"
    and tr: "tries sent (received (or_response x)) lost (or_losses x) tr" and len: "count < length (ops s)"
  shows "\<exists>s'. perform_operation count s = Return (None, s') \<and> script s' = rest \<and>
    connected (conn s') (or_request x) \<and> cc_instance_nr (conn s') = cc_instance_nr (conn s) \<and>
    ops s' = (ops s)[count := measured x] \<and>
    sent_messages (trace s') = sent_messages (trace s) @ sendings x"
proof -
  from choose_run [OF c sc(1)] obtain s1 where s1: "choose_request count s = Return ((), s1)"
    "script s1 = g # tr @ h # rest" "connected (conn s1) (or_request x)"
    "cc_instance_nr (conn s1) = cc_instance_nr (conn s)" "ops s1 = ops s"
    "sent_messages (trace s1) = sent_messages (trace s)" by blast
  let ?alloc = "(ops s)[count := (ops s ! count)\<lparr>op_start := Some None, op_end := Some None\<rparr>]"
  define s2 where "s2 = s1\<lparr>ops := ?alloc\<rparr>"
  define s3 where "s3 = s2\<lparr>script := tr @ h # rest, trace := trace s2 @ [(Sys Gettimeofday, g)], rx := rx s2,
    errno := rep_errno g, ops := ?alloc[count := (?alloc ! count)\<lparr>op_start := Some (Some (or_start x))\<rparr>]\<rparr>"
  have s2: "stamp count (\<lambda>op. op\<lparr>op_start := Some None, op_end := Some None\<rparr>) s1 = Return ((), s2)"
    using s1(5) len by (simp add: cmd_run s2_def)
  have g: "cbind (ext (Sys Gettimeofday)) (\<lambda>now. cseq (stamp count
      (\<lambda>op. op\<lparr>op_start := Some (Some (rep_time now))\<rparr>)) f) s2 = f s3" for f :: "(bench, int option) cmd"
    using s1(2) sc(2,4) len by (simp add: cmd_run s2_def s3_def)
  have s3: "script s3 = tr @ h # rest" "conn s3 = conn s1"
    "ops s3 = (ops s)[count := \<lparr>op_start = Some (Some (or_start x)), op_end = Some None\<rparr>]"
    "sent_messages (trace s3) = sent_messages (trace s)"
    using len s1(6) by (cases "ops s ! count"; simp add: s3_def s2_def)+
  have fuel: "or_losses x < Suc (length (script s3))" using tries_length [OF tr] s3(1) by simp
  have c3: "connected (conn s3) (or_request x)" using s1(3) s3(2) by simp
  from attempts_run [OF c3 tr s3(1) fuel] obtain s4 where s4:
    "attempts (Suc (length (script s3))) s3 = Return (None, s4)" "script s4 = h # rest"
    "io_step (sendings x) [(0, or_response x)] s3 s4" unfolding sendings_def by blast
  note b = io_step_bench [OF s4(3)]
  define s5 where "s5 = s4\<lparr>script := rest, trace := trace s4 @ [(Sys Gettimeofday, h)], rx := rx s4,
    errno := rep_errno h, ops := (ops s4)[count := (ops s4 ! count)\<lparr>op_end := Some (Some (or_end x))\<rparr>]\<rparr>"
  have "cbind (ext (Sys Gettimeofday)) (\<lambda>now. cseq (stamp count
      (\<lambda>op. op\<lparr>op_end := Some (Some (rep_time now))\<rparr>)) (cret None)) s4 = Return (None :: int option, s5)"
    using s4(2) sc(3,5) len b(2) s3(3) by (simp add: cmd_run s5_def)
  then have "perform_operation count s = Return (None, s5)"
    using s1(1) s2 g s4(1) by (simp add: perform_operation_def cmd_run del: attempts.simps)
  moreover have "ops s5 = (ops s)[count := measured x]"
    using len b(2) s3(3) by (simp add: s5_def measured_def)
  moreover have "sent_messages (trace s5) = sent_messages (trace s) @ sendings x"
    using s4(3) s3(4) by (simp add: s5_def io_step_def)
  ultimately show ?thesis using s1(3,4) s3(2) b(1) by (auto simp: s5_def)
qed

lemma operations_run:
  assumes "connected (conn s) r0" and "cc_instance_nr (conn s) = nr"
    and "performed sent received lost nr count r0 (x # xs) sc" and "script s = sc @ rest"
    and "ops s = pre @ replicate (Suc (length xs)) unset" and "length pre = count"
    and "unat n = count + Suc (length xs)" and "unat n < 2 ^ 31" and "length xs < fuel"
  shows "\<exists>s'. operations fuel n count s = Return (None, s') \<and> script s' = rest \<and>
    ops s' = pre @ map measured (x # xs) \<and>
    sent_messages (trace s') = sent_messages (trace s) @ concat (map sendings (x # xs))"
  using assms
proof (induction xs arbitrary: x r0 s pre count sc fuel)
  case (Cons y ys)
  from Cons.prems(3,4) obtain cs g tr h more where p: "sc = cs @ g # tr @ h # more"
    "chooses nr count r0 cs (or_request x)" "rep_dma g = []" "rep_dma h = []" "rep_time g = or_start x"
    "rep_time h = or_end x" "tries sent (received (or_response x)) lost (or_losses x) tr"
    "performed sent received lost nr (Suc count) (or_request x) (y # ys) more"
    unfolding performed.simps(2) [of sent received lost nr count r0 x] by blast
  obtain f where f: "fuel = Suc f" "length ys < f" using Cons.prems(9) by (cases fuel) auto
  have sc: "script s = cs @ g # tr @ h # (more @ rest)" using Cons.prems(4) p(1) by simp
  have len: "count < length (ops s)" using Cons.prems(5,6) by simp
  from perform_run [OF Cons.prems(1) _ sc p(3-6,7) len] p(2) Cons.prems(2) obtain s1 where
    s1: "perform_operation count s = Return (None, s1)" "script s1 = more @ rest"
      "connected (conn s1) (or_request x)" "cc_instance_nr (conn s1) = nr"
      "ops s1 = (ops s)[count := measured x]"
      "sent_messages (trace s1) = sent_messages (trace s) @ sendings x" by auto
  have ops1: "ops s1 = (pre @ [measured x]) @ replicate (Suc (length ys)) unset"
    using s1(5) Cons.prems(5,6) by (simp add: list_update_append)
  from Cons.IH [OF s1(3,4) p(8) s1(2) ops1 _ _ Cons.prems(8) f(2)] Cons.prems(6,7) obtain s2 where
    s2: "operations f n (Suc count) s1 = Return (None, s2)" "script s2 = rest"
      "ops s2 = (pre @ [measured x]) @ map measured (y # ys)"
      "sent_messages (trace s2) = sent_messages (trace s1) @ concat (map sendings (y # ys))" by auto
  have "operations fuel n count s = Return (None, s2)"
    using s1(1) s2(1) f(1) Cons.prems(7,8) by (simp add: cmd_run)
  with s2 s1(6) show ?case by simp
next
  case Nil
  from Nil.prems(3,4) obtain cs g tr h where p: "script s = cs @ g # tr @ h # rest"
    "chooses nr count r0 cs (or_request x)" "rep_dma g = []" "rep_dma h = []" "rep_time g = or_start x"
    "rep_time h = or_end x" "tries sent (received (or_response x)) lost (or_losses x) tr"
    unfolding performed.simps by auto
  obtain f where f: "fuel = Suc f" using Nil.prems(9) by (cases fuel) auto
  have len: "count < length (ops s)" using Nil.prems(5,6) by simp
  from perform_run [OF Nil.prems(1) _ p(1,3-7) len] p(2) Nil.prems(2) obtain s1 where
    s1: "perform_operation count s = Return (None, s1)" "script s1 = rest"
      "ops s1 = (ops s)[count := measured x]"
      "sent_messages (trace s1) = sent_messages (trace s) @ sendings x" by auto
  have "operations fuel n count s = Return (None, s1)"
    using s1(1) f Nil.prems(7,8) by (simp add: cmd_run)
  with s1 Nil.prems(5,6) show ?case by (simp add: list_update_append)
qed

lemma performed_length: "performed sent received lost nr count r0 xs sc \<Longrightarrow> length xs \<le> length sc"
proof (induction xs arbitrary: count r0 sc)
  case (Cons x xs)
  from Cons.prems obtain cs g tr h rest where "sc = cs @ g # tr @ h # rest"
    "performed sent received lost nr (Suc count) (or_request x) xs rest" by auto
  with Cons.IH [OF this(2)] show ?case by simp
qed simp

text \<open>From the end of the connection set-up to the end of the thread.\<close>

lemma instance_run:
  assumes "open_connection args mem random s = Return (None, s1)"
    and "connected (conn s1) r0" and "cc_instance_nr (conn s1) = nr"
    and "script s1 = z # sc @ rest" and "rep_dma z = []"
    and "performed sent received lost nr 0 r0 xs sc"
    and "unat (ta_num_ops args) = length xs" and "xs \<noteq> []" and "length xs < 2 ^ 31"
  shows "\<exists>s'. start_instance args mem random s = Return (Some (map measured xs), s') \<and> script s' = rest \<and>
    sent_messages (trace s') = sent_messages (trace s1) @ concat (map sendings xs)"
proof -
  obtain y ys where xs: "xs = y # ys" using assms(8) by (cases xs) auto
  let ?empty = "\<lparr>op_start = None, op_end = None\<rparr> :: operation"
  define s2 where "s2 = s1\<lparr>ops := replicate (length xs) ?empty, script := sc @ rest,
    trace := trace s1 @ [(Sys (Sleep 1), z)], errno := rep_errno z\<rparr>"
  have s2: "cseq (cput (\<lambda>s. s\<lparr>ops := replicate (unat (ta_num_ops args)) ?empty\<rparr>))
      (cseq (ext_ignored (Sys (Sleep 1))) f) s1 = f s2" for f :: "(bench, operation list option) cmd"
    using assms(4,5,7) by (simp add: cmd_run s2_def)
  have st: "connected (conn s2) r0" "cc_instance_nr (conn s2) = nr" "script s2 = sc @ rest"
    "ops s2 = [] @ replicate (Suc (length ys)) ?empty"
    using assms(2,3) xs by (simp_all add: s2_def)
  have fuel: "length ys < Suc (length (script s2))"
    using performed_length [OF assms(6)] xs st(3) by simp
  from operations_run [OF st(1,2) assms(6) [unfolded xs] st(3,4) _ _ _ fuel, of "ta_num_ops args"]
    assms(7,9) xs obtain s3 where s3:
      "operations (Suc (length (script s2))) (ta_num_ops args) 0 s2 = Return (None, s3)" "script s3 = rest"
      "ops s3 = map measured xs"
      "sent_messages (trace s3) = sent_messages (trace s2) @ concat (map sendings xs)" by auto
  have "start_instance args mem random s = Return (Some (map measured xs), s3)"
    using assms(1) s2 s3(1,3) by (simp add: start_instance_def cmd_run del: operations.simps)
  moreover have "sent_messages (trace s2) = sent_messages (trace s1)" by (simp add: s2_def)
  ultimately show ?thesis using s3(2,4) by simp
qed

end

section \<open>Over the transport in use\<close>

definition link_connected :: "connection_type \<Rightarrow> bool \<Rightarrow> client_to_server_conn \<Rightarrow> request \<Rightarrow> bool" where
  "link_connected ty b =
     (case ty of TCP \<Rightarrow> tcp_connected | RC \<Rightarrow> rc_connected b | UC \<Rightarrow> uc_connected b | UD \<Rightarrow> ud_connected b)"

definition link_sent :: "connection_type \<Rightarrow> bool \<Rightarrow> response reply list \<Rightarrow> bool" where
  "link_sent ty b = (case ty of TCP \<Rightarrow> tcp_sent | _ \<Rightarrow> posted_then (completion b []))"

definition link_received :: "connection_type \<Rightarrow> bool \<Rightarrow> response \<Rightarrow> response reply list \<Rightarrow> bool" where
  "link_received ty b =
     (case ty of
        TCP \<Rightarrow> tcp_received
      | RC \<Rightarrow> (\<lambda>x. posted_then (completion b [(0, x)]))
      | _ \<Rightarrow> (\<lambda>x. posted_then (timed_wait b 1 [(0, x)])))"

definition link_lost :: "connection_type \<Rightarrow> bool \<Rightarrow> response reply list \<Rightarrow> bool" where
  "link_lost ty b =
     (case ty of TCP \<Rightarrow> tcp_lost | RC \<Rightarrow> (\<lambda>a. False) | _ \<Rightarrow> posted_then (timed_wait b 0 []))"

lemmas link_defs = link_connected_def link_sent_def link_received_def link_lost_def

interpretation link: client_transport "link_connected ty b" "link_sent ty b" "link_received ty b" "link_lost ty b"
  using tcp_link.client_transport_axioms rc_link.client_transport_axioms
    uc_link.client_transport_axioms ud_link.client_transport_axioms
  by (cases ty) (simp_all add: link_defs)

text \<open>
  C30: a benchmark thread over TCP, RC or UD whose connection is set up and whose operations are all answered in the end, each
  after any number of losses, returns one entry for each of its operations with the time before the first
  sending and the time after the response, and has sent each request once more than it was lost. On RC no
  receive ends without a response; on UD it does when 100 milliseconds are over. (Over UC setting up the
  connection is undefined, theory \<open>Benchmark_Properties\<close>.)
\<close>

theorem instance_measures_operations:
  assumes "ta_conn_t args \<noteq> UC" and "open_connection args mem random s = Return (None, s1)"
    and "link_connected (ta_conn_t args) b (conn s1) r0" and "cc_instance_nr (conn s1) = nr"
    and "script s1 = z # sc @ rest" and "rep_dma z = []"
    and "performed (link_sent (ta_conn_t args) b) (link_received (ta_conn_t args) b) (link_lost (ta_conn_t args) b)
      nr 0 r0 xs sc"
    and "unat (ta_num_ops args) = length xs" and "xs \<noteq> []" and "length xs < 2 ^ 31"
  shows "\<exists>s'. start_instance args mem random s = Return (Some (map measured xs), s') \<and> script s' = rest \<and>
    sent_messages (trace s') = sent_messages (trace s1) @ concat (map sendings xs)"
  using assms(2-) by (rule link.instance_run)

text \<open>
  A TCP thread of two operations: a SET of operation 0 that is answered at once, and a GET of it whose first
  response is missed. An RC thread and a UD thread of one SET, the first UD response of which comes too late.
\<close>

definition thread_of :: "connection_type \<Rightarrow> nat \<Rightarrow> thread_args" where
  "thread_of ty n = \<lparr>ta_conn_t = ty, ta_num_ops = of_nat n, ta_instance_nr = 0, ta_blocking = False\<rparr>"

abbreviation "tcp_args \<equiv> thread_of TCP"

definition at_time :: "64 word \<Rightarrow> 'm reply" where
  "at_time us = (returned 0)\<lparr>rep_time := (1, us)\<rparr>"

abbreviation sample_thread_replies :: "response reply list" where
  "sample_thread_replies \<equiv>
     [returned 3, at_time 10, transferred sizeof_request [], transferred sizeof_response [(0, zero_response)], at_time 15,
      returned 50, returned 1, at_time 20, transferred sizeof_request [], returned 0,
      transferred sizeof_request [], transferred sizeof_response [(0, zero_response)], at_time 30]"

abbreviation sample_rc_replies :: "response reply list" where
  "sample_rc_replies \<equiv>
     [returned 3, at_time 10, returned 0, completed False 0 [], returned 0, completed True 0 [(0, zero_response)], at_time 15]"

abbreviation sample_ud_replies :: "response reply list" where
  "sample_ud_replies \<equiv>
     [returned 3, at_time 10, returned 0, completed False 0 [], returned 0, at_time 11, returned 0, at_time 200000,
      returned 0, completed False 0 [], returned 0, at_time 200001, completed True 0 [(0, zero_response)], at_time 200002,
      at_time 200003]"

lemma at_time_simps [simp]: "rep_dma (at_time u) = []" "rep_time (at_time u) = (1, u)" "rep_ret (at_time u) = 0"
  by (simp_all add: at_time_def)

text \<open>Setting up a connection without errors, over TCP, RC and UD.\<close>

definition cm_event :: "cm_event_type \<Rightarrow> 'm reply" where
  "cm_event e = (returned 0)\<lparr>rep_event := (0, e)\<rparr>"

fun setting_up :: "connection_type \<Rightarrow> response reply list" where
  "setting_up TCP = [returned 5, returned 0]"
| "setting_up RC = [returned 1, returned 0, returned 0, cm_event RDMA_CM_EVENT_ADDR_RESOLVED, returned 0, returned 0,
     cm_event RDMA_CM_EVENT_ROUTE_RESOLVED, returned 0, returned 1, returned 2, returned 3, returned 0, returned 0,
     returned 4, returned 5, returned 0, returned 0, cm_event RDMA_CM_EVENT_ESTABLISHED, returned 0]"
| "setting_up UD = [returned 1, returned 1, returned 2, returned 3, returned 4, returned 0, returned 5, returned 0,
     returned 0, returned 0, returned 6, returned 7, returned 0, returned 8, returned 0, returned 0, returned 0,
     returned 9, returned 0, returned 0]"
| "setting_up UC = []"

lemma connection_opened:
  assumes "ta_conn_t args = ty" and "ty \<noteq> UC" and "\<not> ta_blocking args"
  shows "\<exists>s1. open_connection args mem random
      \<lparr>script = setting_up ty @ sc, trace = [], rx = rxs, errno = 0, conn = c, ops = os\<rparr> = Return (None, s1) \<and>
    link_connected ty False (conn s1) zero_request \<and> cc_instance_nr (conn s1) = ta_instance_nr args \<and>
    script s1 = sc \<and> sent_messages (trace s1) = []"
  using assms
  by (cases ty)
     (simp_all add: open_connection_def tcp_client_prepare_connection_def tcp_client_connect_to_server_def
      client_prepare_connection_def client_connect_to_server_def ud_prepare_client_def ud_client_connect_to_server_def
      first_device_def rdma_buffer_register_def await_cm_event_def process_rdma_cm_event_def
      rc_pre_post_receive_response_def ud_pre_post_receive_response_def post_recieve_def ud_set_init_qp_def
      ud_set_rts_qp_def get_local_lid_def link_defs tcp_connected_def rc_connected_def ud_connected_def cmd_run
      cm_event_def)

lemma tcp_opened:
  assumes "ta_conn_t args = TCP"
  shows "\<exists>s1. open_connection args mem random
      \<lparr>script = returned 5 # returned 0 # sc, trace = [], rx = rxs, errno = 0, conn = c, ops = os\<rparr> = Return (None, s1) \<and>
    link_connected TCP False (conn s1) zero_request \<and> cc_instance_nr (conn s1) = ta_instance_nr args \<and>
    script s1 = sc \<and> sent_messages (trace s1) = []"
  using assms
  by (simp add: open_connection_def tcp_client_prepare_connection_def tcp_client_connect_to_server_def
      link_defs tcp_connected_def cmd_run)

lemma sample_tries:
  "tries tcp_sent (tcp_received zero_response) tcp_lost 0
     [transferred sizeof_request [], transferred sizeof_response [(0, zero_response)]]"
  "tries tcp_sent (tcp_received zero_response) tcp_lost 1 [transferred sizeof_request [], returned 0,
     transferred sizeof_request [], transferred sizeof_response [(0, zero_response)]]"
  "tries (link_sent RC False) (link_received RC False zero_response) (link_lost RC False) 0
     [returned 0, completed False 0 [], returned 0, completed True 0 [(0, zero_response)]]"
  "tries (link_sent UD False) (link_received UD False zero_response) (link_lost UD False) 1
     [returned 0, completed False 0 [], returned 0, at_time 11, returned 0, at_time 200000,
      returned 0, completed False 0 [], returned 0, at_time 200001, completed True 0 [(0, zero_response)], at_time 200002]"
proof -
  have split: "tries sent got lost 0 (b @ c)" if "sent b" "got c"
    for sent got lost :: "response reply list \<Rightarrow> bool" and b c using that by auto
  have again: "tries sent got lost 1 (b @ c @ d)" if "sent b" "lost c" "tries sent got lost 0 d"
    for sent got lost :: "response reply list \<Rightarrow> bool" and b c d using that unfolding One_nat_def tries.simps by blast
  have size: "0 < int sizeof_request" "0 < int sizeof_response" by (simp_all add: sizeof_request_def sizeof_response_def)
  have tcp: "tcp_sent [transferred sizeof_request []]" "tcp_lost [returned 0]"
    "tcp_received zero_response [transferred sizeof_response [(0, zero_response)]]"
    using size by (simp_all add: tcp_sent_def tcp_lost_def tcp_received_def)
  have one: "one_completion ws (completed b 0 ws)" for b and ws :: "(nat \<times> response) list"
    by (simp add: one_completion_def)
  have card: "completion False ws [completed b 0 ws]" for b and ws :: "(nat \<times> response) list"
    using one unfolding completion_def by auto
  have no_polls: "timed_wait False n ws [start, r, t]" if "rep_dma start = []" "last_poll start n ws r t"
    for n start r t and ws :: "(nat \<times> response) list"
    unfolding timed_wait_def
    by (rule exI [of _ start], rule exI [of _ "[]"], rule exI [of _ r], rule exI [of _ t]) (use that in \<open>simp add: timed_polls_def\<close>)
  have wait: "timed_wait False 1 [(0, zero_response)] [at_time 200001, completed True 0 [(0, zero_response)], at_time 200002]"
    "timed_wait False 0 [] [at_time 11, returned 0, at_time 200000 :: response reply]"
    using one by (auto intro!: no_polls simp: last_poll_def empty_poll_def in_time_def msec_def MAX_POLL_CQ_TIMEOUT_def)
  have post: "posted_then w (returned 0 # c)" if "w c" for w and c :: "response reply list"
    using that by (auto simp: posted_then_def)
  have one_tcp: "tries tcp_sent (tcp_received zero_response) tcp_lost 0
      ([transferred sizeof_request []] @ [transferred sizeof_response [(0, zero_response)]])"
    by (rule split) (fact tcp)+
  show "tries tcp_sent (tcp_received zero_response) tcp_lost 0
     [transferred sizeof_request [], transferred sizeof_response [(0, zero_response)]]"
    using one_tcp by simp
  have "tries tcp_sent (tcp_received zero_response) tcp_lost 1 ([transferred sizeof_request []] @ [returned 0] @
      [transferred sizeof_request []] @ [transferred sizeof_response [(0, zero_response)]])"
    by (rule again) (fact tcp one_tcp)+
  then show "tries tcp_sent (tcp_received zero_response) tcp_lost 1 [transferred sizeof_request [], returned 0,
     transferred sizeof_request [], transferred sizeof_response [(0, zero_response)]]"
    by simp
  have posts: "posted_then (completion False []) [returned 0, completed False 0 ([] :: (nat \<times> response) list)]"
    "posted_then (completion False [(0, zero_response)]) [returned 0, completed True 0 [(0, zero_response)]]"
    "posted_then (timed_wait False 0 []) [returned 0, at_time 11, returned 0, at_time 200000 :: response reply]"
    "posted_then (timed_wait False 1 [(0, zero_response)])
       [returned 0, at_time 200001, completed True 0 [(0, zero_response)], at_time 200002]"
    by (rule post, fact card wait)+
  have "tries (posted_then (completion False [])) (posted_then (completion False [(0, zero_response)])) (\<lambda>a. False) 0
      ([returned 0, completed False 0 []] @ [returned 0, completed True 0 [(0, zero_response)]])"
    by (rule split) (fact posts)+
  then show "tries (link_sent RC False) (link_received RC False zero_response) (link_lost RC False) 0
     [returned 0, completed False 0 [], returned 0, completed True 0 [(0, zero_response)]]"
    by (simp add: link_defs del: tries.simps)
  have "tries (posted_then (completion False [])) (posted_then (timed_wait False 1 [(0, zero_response)]))
      (posted_then (timed_wait False 0 [])) 0 ([returned 0, completed False 0 []] @
      [returned 0, at_time 200001, completed True 0 [(0, zero_response)], at_time 200002])"
    by (rule split) (fact posts)+
  from again [OF posts(1,3) this]
  show "tries (link_sent UD False) (link_received UD False zero_response) (link_lost UD False) 1
     [returned 0, completed False 0 [], returned 0, at_time 11, returned 0, at_time 200000,
      returned 0, completed False 0 [], returned 0, at_time 200001, completed True 0 [(0, zero_response)], at_time 200002]"
    by (simp add: link_defs del: tries.simps)
qed

theorem instance_measures_operations_witness:
  "\<exists>r q. set_into 0 0 zero_request = Return r \<and> get_into 0 0 r = Return q \<and>
     (\<forall>mem c rxs. \<exists>s'. start_instance (thread_of TCP 2) mem 0
       \<lparr>script = setting_up TCP @ returned 0 # sample_thread_replies, trace = [], rx = rxs,
        errno = 0, conn = c, ops = []\<rparr> =
       Return (Some [\<lparr>op_start = Some (Some (1, 10)), op_end = Some (Some (1, 15))\<rparr>,
         \<lparr>op_start = Some (Some (1, 20)), op_end = Some (Some (1, 30))\<rparr>], s') \<and>
       sent_messages (trace s') = [r, q, q]) \<and>
     (\<forall>mem c rxs. \<exists>s'. start_instance (thread_of RC 1) mem 0
       \<lparr>script = setting_up RC @ returned 0 # sample_rc_replies, trace = [], rx = rxs,
        errno = 0, conn = c, ops = []\<rparr> =
       Return (Some [\<lparr>op_start = Some (Some (1, 10)), op_end = Some (Some (1, 15))\<rparr>], s') \<and>
       sent_messages (trace s') = [r]) \<and>
     (\<forall>mem c rxs. \<exists>s'. start_instance (thread_of UD 1) mem 0
       \<lparr>script = setting_up UD @ returned 0 # sample_ud_replies, trace = [], rx = rxs,
        errno = 0, conn = c, ops = []\<rparr> =
       Return (Some [\<lparr>op_start = Some (Some (1, 10)), op_end = Some (Some (1, 200003))\<rparr>], s') \<and>
       sent_messages (trace s') = [r, r])"
proof -
  obtain r where r: "set_into 0 0 zero_request = Return r" "request_wf r"
    using set_into_run [of zero_request 0 0] by auto
  obtain q where q: "get_into 0 0 r = Return q" using get_into_run [OF r(2), of 0 0] by auto
  have run: "\<forall>mem c rxs. \<exists>s'. start_instance (thread_of ty (length xs)) mem 0
      \<lparr>script = setting_up ty @ returned 0 # sc, trace = [], rx = rxs, errno = 0, conn = c, ops = []\<rparr> =
        Return (Some (map measured xs), s') \<and> sent_messages (trace s') = concat (map sendings xs)"
    if "ty \<noteq> UC" "xs \<noteq> []" "length xs < 2 ^ 31"
      "performed (link_sent ty False) (link_received ty False) (link_lost ty False) 0 0 zero_request xs sc" for ty xs sc
  proof (intro allI)
    fix mem c and rxs :: "response list"
    let ?a = "thread_of ty (length xs)"
    let ?s = "\<lparr>script = setting_up ty @ returned 0 # sc, trace = [], rx = rxs, errno = 0, conn = c, ops = []\<rparr>"
    have a: "ta_conn_t ?a = ty" "ta_instance_nr ?a = 0" "\<not> ta_blocking ?a" "unat (ta_num_ops ?a) = length xs"
      using that(3) by (simp_all add: thread_of_def unat_of_nat)
    from connection_opened [OF a(1) that(1) a(3), of mem 0 "returned 0 # sc" rxs c "[]"] obtain s1 where s1:
      "open_connection ?a mem 0 ?s = Return (None, s1)" "link_connected ty False (conn s1) zero_request"
      "cc_instance_nr (conn s1) = 0" "script s1 = returned 0 # sc @ []" "sent_messages (trace s1) = []" using a(2) by auto
    from instance_measures_operations [OF _ s1(1) _ s1(3,4) _ _ a(4) that(2,3), of False zero_request] s1(2,5) that(1,4) a(1)
    show "\<exists>s'. start_instance ?a mem 0 ?s = Return (Some (map measured xs), s') \<and>
        sent_messages (trace s') = concat (map sendings xs)" by auto
  qed
  let ?set = "\<lambda>n e. \<lparr>or_request = r, or_losses = n, or_response = zero_response, or_start = (1, 10), or_end = (1, e)\<rparr>"
  let ?get = "\<lparr>or_request = q, or_losses = 1, or_response = zero_response, or_start = (1, 20), or_end = (1, 30)\<rparr>"
  have ch: "chooses 0 0 zero_request [returned 3] r" "chooses 0 1 r [returned 50, returned 1] q"
    using r(1) q by (simp_all add: chooses_def)
  have tcp: "performed (link_sent TCP False) (link_received TCP False) (link_lost TCP False) 0 0 zero_request
      [?set 0 15, ?get] ([returned 3] @ at_time 10 # [transferred sizeof_request [],
        transferred sizeof_response [(0, zero_response)]] @ at_time 15 # [returned 50, returned 1] @ at_time 20 #
        [transferred sizeof_request [], returned 0, transferred sizeof_request [],
        transferred sizeof_response [(0, zero_response)]] @ at_time 30 # [])"
    unfolding link_defs connection_type.case
    using ch sample_tries(1,2) by (intro performed_Cons) (simp_all del: tries.simps)
  have rc: "performed (link_sent RC False) (link_received RC False) (link_lost RC False) 0 0 zero_request
      [?set 0 15] ([returned 3] @ at_time 10 # [returned 0, completed False 0 [], returned 0,
        completed True 0 [(0, zero_response)]] @ at_time 15 # [])"
    using ch sample_tries(3) by (intro performed_Cons) (simp_all del: tries.simps)
  have ud: "performed (link_sent UD False) (link_received UD False) (link_lost UD False) 0 0 zero_request
      [?set 1 200003] ([returned 3] @ at_time 10 # [returned 0, completed False 0 [], returned 0, at_time 11, returned 0,
        at_time 200000, returned 0, completed False 0 [], returned 0, at_time 200001,
        completed True 0 [(0, zero_response)], at_time 200002] @ at_time 200003 # [])"
    using ch sample_tries(4) by (intro performed_Cons) (simp_all del: tries.simps)
  have "replicate 2 r = [r, r]" "replicate 2 q = [q, q]" by (simp_all add: numeral_2_eq_2)
  then show ?thesis
    using r(1) q run [OF _ _ _ tcp] run [OF _ _ _ rc] run [OF _ _ _ ud]
    by - (rule exI [of _ r], rule exI [of _ q], intro conjI,
       simp_all add: measured_def sendings_def numeral_2_eq_2 [symmetric] del: setting_up.simps)
qed

end
