(* ===== verification/Benchmark.thy ===== *)
theory Benchmark
  imports Instance Getopt "HOL-Library.Signed_Division"
begin

text \<open>
  \<^verbatim>\<open>src/benchmarking/benchmark.c\<close>: the benchmark program. It reads its command line, starts its client
  threads, waits for them and writes the times of their operations to files. A thread is what
  \<^const>\<open>start_instance\<close> does in the world it finds: it gets its own copy of its
  arguments. (In the code the arguments are one variable of the loop that starts the threads, passed by its
  address. A thread reads it when it starts, and the loop writes it again 0.1 seconds later: that every
  thread has read it by then is assumed.) The estimated throughputs, which are only printed, are in \<open>Throughput\<close>; here the times they are
  computed from are read as the program reads them.
\<close>

section \<open>The command line\<close>

text \<open>The global variables. \<open>override\<close> is 0 and never set; \<open>verbose\<close> and \<open>debug\<close> only print.\<close>

record settings =
  connectionType :: connection_type
  num_ops :: int
  clients :: int
  save :: bool
  blocking :: bool
  sin_port :: "16 word"

definition default_settings :: settings where
  "default_settings = \<lparr>connectionType = TCP, num_ops = 10000000, clients = 1, save = True,
     blocking = False, sin_port = 0\<rparr>"

record program = "(unit, unit) io" +
  settings :: settings

definition upd_settings :: "(settings \<Rightarrow> settings) \<Rightarrow> (program, unit) cmd" where
  "upd_settings f = cput (\<lambda>s. s\<lparr>settings := f (settings s)\<rparr>)"

definition benchmark_optstring :: string where
  "benchmark_optstring = ''a:p:n:r:hdvobs''"

definition benchmark_long_options :: "long_option list" where
  "benchmark_long_options =
     [(''help'', False, CHR ''h''), (''port'', True, CHR ''p''), (''clients'', True, CHR ''n''),
      (''rdma'', True, CHR ''r''), (''ops'', True, CHR ''o''), (''no-save'', False, CHR ''s''),
      (''blocking'', False, CHR ''b'')]"

text \<open>\<open>strtol(optarg, NULL, 0)\<close>, and the first two characters of \<open>optarg\<close>.\<close>

definition strtol_optarg :: "string option \<Rightarrow> (program, int) cmd" where
  "strtol_optarg optarg =
     (case optarg of None \<Rightarrow> (\<lambda>s. Undefined Null_deref) | Some str \<Rightarrow> clift (strtol (lit str)))"

definition starts_with :: "string option \<Rightarrow> string \<Rightarrow> (program, bool) cmd" where
  "starts_with optarg name =
     (case optarg of
        None \<Rightarrow> (\<lambda>s. Undefined Null_deref)
      | Some str \<Rightarrow> cbind (clift (strncmp (lit str) (lit name) 2)) (\<lambda>r. cret (r = 0)))"

text \<open>One option. \<^const>\<open>Some\<close> is what \<open>main\<close> returns at once.\<close>

definition benchmark_option :: "char \<times> string option \<Rightarrow> (program, int option) cmd" where
  "benchmark_option opt =
     (case opt of (c, optarg) \<Rightarrow>
      if c = CHR ''a'' then
        cbind (get_addr (\<lambda>port. upd_settings (\<lambda>g. g\<lparr>sin_port := word_of_int port\<rparr>))) (\<lambda>ret. if ret \<noteq> 0 then cret (Some ret) else cret None)
      else if c = CHR ''p'' then
        cbind (strtol_optarg optarg) (\<lambda>n.
        cseq (upd_settings (\<lambda>g. g\<lparr>sin_port := word_of_int n\<rparr>)) (cret None))
      else if c = CHR ''n'' then
        cbind (strtol_optarg optarg) (\<lambda>n. cseq (upd_settings (\<lambda>g. g\<lparr>clients := to_int n\<rparr>)) (cret None))
      else if c = CHR ''r'' then
        cbind (starts_with optarg ''rc'') (\<lambda>rc.
        if rc then cseq (upd_settings (\<lambda>g. g\<lparr>connectionType := RC\<rparr>)) (cret None) else
        cbind (starts_with optarg ''uc'') (\<lambda>uc.
        if uc then cseq (upd_settings (\<lambda>g. g\<lparr>connectionType := UC\<rparr>)) (cret None) else
        cbind (starts_with optarg ''ud'') (\<lambda>ud.
        if ud then cseq (upd_settings (\<lambda>g. g\<lparr>connectionType := UD\<rparr>)) (cret None) else
        cret None)))
      else if c = CHR ''v'' \<or> c = CHR ''d'' then cret None
      else if c = CHR ''o'' then
        cbind (strtol_optarg optarg) (\<lambda>n. cseq (upd_settings (\<lambda>g. g\<lparr>num_ops := to_int n\<rparr>)) (cret None))
      else if c = CHR ''s'' then cseq (upd_settings (\<lambda>g. g\<lparr>save := False\<rparr>)) (cret None)
      else if c = CHR ''b'' then cseq (upd_settings (\<lambda>g. g\<lparr>blocking := True\<rparr>)) (cret None)
      else exit_process 1)"

fun benchmark_options :: "(char \<times> string option) list \<Rightarrow> (program, int option) cmd" where
  "benchmark_options [] = cret None"
| "benchmark_options (opt # opts) =
     cbind (benchmark_option opt) (\<lambda>ret.
     case ret of Some n \<Rightarrow> cret (Some n) | None \<Rightarrow> benchmark_options opts)"

section \<open>Times\<close>

text \<open>Reading a time through a pointer, and \<open>timersub\<close>: seconds and microseconds.\<close>

definition read_time :: "timeval option option \<Rightarrow> timeval outcome" where
  "read_time p =
     (case p of
        None \<Rightarrow> Undefined Null_deref
      | Some None \<Rightarrow> Undefined Uninitialised
      | Some (Some t) \<Rightarrow> Return t)"

definition timersub :: "timeval \<Rightarrow> timeval \<Rightarrow> int \<times> int" where
  "timersub a b =
     (let sec = sint (fst a) - sint (fst b); usec = sint (snd a) - sint (snd b)
      in if usec < 0 then (sec - 1, usec + 1000000) else (sec, usec))"

text \<open>The value of the \<open>double\<close>, exact as long as it is below \<open>2 ^ 53\<close>.\<close>

definition time_in_usec :: "int \<times> int \<Rightarrow> int" where
  "time_in_usec time = fst time * 1000000 + snd time"

definition time_taken :: "timeval option option \<Rightarrow> timeval option option \<Rightarrow> (int \<times> int) outcome" where
  "time_taken start end = obind (read_time end) (\<lambda>b. obind (read_time start) (\<lambda>a. Return (timersub b a)))"

section \<open>Processing the times of a client\<close>

record row =
  row_start :: timeval
  row_end :: timeval
  row_latency :: int

definition file_name :: "settings \<Rightarrow> int \<Rightarrow> byte list" where
  "file_name g client_number =
     bytes (if blocking g then ''./benchmarking/data/blocking/'' else ''./benchmarking/data/non_blocking/'')
     @ cstr_of (connection_type_to_str (connectionType g)) @ bytes ''_'' @ decimal (clients g)
     @ bytes ''_client_'' @ decimal client_number @ bytes ''_''
     @ decimal (num_ops g sdiv clients g) @ bytes ''.csv''"

text \<open>\<open>snprintf\<close> into 255 characters.\<close>

definition snprintf :: "nat \<Rightarrow> byte list \<Rightarrow> byte list" where
  "snprintf n str = take (n - 1) str @ [0]"

text \<open>Opening the file; a name that does not end in \<open>.csv\<close> or cannot be opened ends the process.\<close>

definition open_data_file :: "int \<Rightarrow> (program, unit) cmd" where
  "open_data_file client_number =
     cbind (cget settings) (\<lambda>g.
     let name = snprintf 255 (file_name g client_number) in
     cbind (clift (strlen name)) (\<lambda>len.
     cbind (if len < 4 then (\<lambda>s. Undefined Out_of_bounds)
            else clift (strncmp (lit ''.csv'') (drop (len - 4) name) 4)) (\<lambda>different.
     if different \<noteq> 0 then exit_process EXIT_FAILURE else
     cbind (ext (Sys (Open_file name))) (\<lambda>file.
     if rep_ret file = 0 then exit_process EXIT_FAILURE else cret ()))))"

text \<open>
  The loop over the operations. \<open>remaining\<close> is what \<open>count\<close> lacks of \<open>num_ops / clients\<close>. The result is
  the number of operations, the last of them, and what is written to the file.
\<close>

fun data_loop ::
  "nat \<Rightarrow> operation list \<Rightarrow> nat \<Rightarrow> operation \<Rightarrow> row list \<Rightarrow> (nat \<times> operation \<times> row list) outcome" where
  "data_loop 0 os count latest rows = Return (count, latest, rows)"
| "data_loop (Suc remaining) os count latest rows =
     obind (array_get os count) (\<lambda>op.
     if op_start op = None \<or> op_end op = None then Return (count, latest, rows)
     else
       obind (read_time (op_start op)) (\<lambda>start.
       obind (read_time (op_end op)) (\<lambda>end.
       data_loop remaining os (Suc count) op
         (rows @ [\<lparr>row_start = start, row_end = end, row_latency = time_in_usec (timersub end start)\<rparr>]))))"

definition data_processing :: "operation list \<Rightarrow> int \<Rightarrow> (program, nat \<times> row list) cmd" where
  "data_processing os client_number =
     cbind (clift (array_get os 0)) (\<lambda>first.
     cbind (cget settings) (\<lambda>g.
     cseq (cwhen (save g) (open_data_file client_number)) (
     cbind (clift (data_loop (nat (num_ops g sdiv clients g)) os 0 first [])) (\<lambda>(count, last, rows).
     cbind (clift (time_taken (op_start first) (op_end last))) (\<lambda>time.
     cret (count, if save g then rows else []))))))"

section \<open>The main program\<close>

text \<open>The arguments of thread \<open>i\<close>, as they are until the next turn of the loop.\<close>

definition instance_args :: "settings \<Rightarrow> int \<Rightarrow> thread_args" where
  "instance_args g i =
     \<lparr>ta_conn_t = connectionType g, ta_num_ops = word_of_int (num_ops g sdiv clients g),
      ta_instance_nr = i, ta_blocking = blocking g\<rparr>"

text \<open>The loop that starts the threads: \<open>remaining\<close> is what \<open>i\<close> lacks of \<open>clients\<close>.\<close>

fun create_threads :: "nat \<Rightarrow> int \<Rightarrow> (program, thread_args list) cmd" where
  "create_threads 0 i = cret []"
| "create_threads (Suc remaining) i =
     cbind (cget settings) (\<lambda>g.
     cbind (ext (Sys (Pthread_create i))) (\<lambda>ret.
     if rep_ret ret \<noteq> 0 then exit_process EXIT_FAILURE else
     cseq (ext_ignored (Sys (Usleep 100000))) (
     cbind (create_threads remaining (i + 1)) (\<lambda>threads.
     cret (instance_args g i # threads)))))"

text \<open>What a thread finds: the memory \<open>malloc\<close> gives it, the number \<open>lrand48\<close> returns, its state.\<close>

record thread_world =
  world_memory :: fresh_conn
  world_random :: int
  world_state :: bench

definition run_thread :: "thread_args \<Rightarrow> thread_world \<Rightarrow> operation list option outcome" where
  "run_thread args w =
     obind (start_instance args (world_memory w) (world_random w) (world_state w)) (\<lambda>(r, _). Return r)"

text \<open>
  The loop that waits for the threads: the time at the last of them, and for each the number of
  operations and the rows of its file, unless it has returned \<open>NULL\<close>.
\<close>

fun join_threads ::
  "thread_args list \<Rightarrow> thread_world list \<Rightarrow> int \<Rightarrow> (program, timeval option \<times> (nat \<times> row list) option list) cmd" where
  "join_threads (args # threads) (w # worlds) i =
     cbind (cget settings) (\<lambda>g.
     cbind (clift (run_thread args w)) (\<lambda>os.
     cbind (if i = clients g - 1
            then cbind (ext (Sys Gettimeofday)) (\<lambda>now. cret (Some (rep_time now)))
            else cret None) (\<lambda>end.
     cbind (case os of
              None \<Rightarrow> cret None
            | Some os \<Rightarrow> cbind (data_processing os i) (\<lambda>d. cret (Some d))) (\<lambda>result.
     cbind (join_threads threads worlds (i + 1)) (\<lambda>(last, results).
     cret (if end = None then last else end, result # results))))))"
| "join_threads threads worlds i = cret (None, [])"

text \<open>\<open>main\<close>. The result is what it returns at once, or the data of the clients.\<close>

definition benchmark_main ::
  "string list \<Rightarrow> thread_world list \<Rightarrow> (program, int + (nat \<times> row list) option list) cmd" where
  "benchmark_main argv worlds =
     cseq (upd_settings (\<lambda>g. default_settings)) (
     cbind (benchmark_options (getopt_long benchmark_optstring benchmark_long_options argv)) (\<lambda>failed.
     case failed of Some ret \<Rightarrow> cret (Inl ret) | None \<Rightarrow>
     cseq (upd_settings (\<lambda>g. if sin_port g = 0 then g\<lparr>sin_port := of_nat PORT\<rparr> else g)) (
     cbind (cget settings) (\<lambda>g.
     cbind (ext (Sys Gettimeofday)) (\<lambda>start.
     cbind (create_threads (nat (clients g)) 0) (\<lambda>threads.
     cbind (join_threads threads worlds 0) (\<lambda>(end, results).
     cbind (clift (time_taken (Some (Some (rep_time start))) (Some end))) (\<lambda>time.
     cseq (ext_ignored (Sys (Sleep 1))) (
     cret (Inr results))))))))))"

end
