(* ===== verification/Benchmark_Properties.thy ===== *)
theory Benchmark_Properties
  imports Client_Sessions Benchmark
begin

text \<open>
  The benchmark program: what it writes for a client is what the client's thread measured; what its
  command line does; and what goes wrong at the edges: an option without its argument, no operations for
  a thread, no clients, an operation that failed.
\<close>

section \<open>The data of a client\<close>

definition usec_of :: "timeval \<Rightarrow> int" where
  "usec_of t = sint (fst t) * 1000000 + sint (snd t)"

definition row_of :: "op_run \<Rightarrow> row" where
  "row_of x = \<lparr>row_start = or_start x, row_end = or_end x, row_latency = usec_of (or_end x) - usec_of (or_start x)\<rparr>"

lemma time_in_usec_timersub: "time_in_usec (timersub a b) = usec_of a - usec_of b"
  by (simp add: time_in_usec_def timersub_def usec_of_def Let_def)

lemma measured_simps [simp]:
  "op_start (measured x) = Some (Some (or_start x))" "op_end (measured x) = Some (Some (or_end x))"
  by (simp_all add: measured_def)

lemma data_loop_run:
  assumes "os = pre @ map measured xs @ post"
  shows "data_loop (length xs) os (length pre) latest rows =
    Return (length pre + length xs, (if xs = [] then latest else measured (last xs)), rows @ map row_of xs)"
  using assms
proof (induction xs arbitrary: pre latest rows)
  case (Cons x xs)
  have "array_get os (length pre) = Return (measured x)"
    using Cons.prems by (simp add: array_get_def nth_append)
  moreover have "os = (pre @ [measured x]) @ map measured xs @ post" using Cons.prems by simp
  ultimately show ?case
    using Cons.IH [of "pre @ [measured x]"]
    by (simp add: read_time_def row_of_def time_in_usec_timersub)
qed simp

text \<open>The name of the data file fits the buffer and ends as the program expects.\<close>

lemma sdiv_abs: "\<bar>a sdiv b\<bar> \<le> \<bar>a :: int\<bar>"
proof -
  have "int (nat \<bar>a\<bar> div nat \<bar>b\<bar>) \<le> int (nat \<bar>a\<bar>)" by (simp only: of_nat_le_iff div_le_dividend)
  then have "\<bar>a\<bar> div \<bar>b\<bar> \<le> \<bar>a\<bar>" by (simp add: zdiv_int)
  moreover have "0 \<le> \<bar>a\<bar> div \<bar>b\<bar>" by (simp add: div_int_pos_iff)
  ultimately show ?thesis by (simp add: signed_divide_int_def abs_mult)
qed

lemma type_name: "0 \<notin> set (cstr_of (connection_type_to_str ty))" "length (cstr_of (connection_type_to_str ty)) = (if ty = TCP then 3 else 2)"
  by (cases ty; simp add: conversion_defs cstr_of_def)+

lemma file_name_ok:
  assumes "c_int (clients g)" and "c_int (num_ops g)" and "c_int i"
  shows "length (file_name g i) \<le> 254" "0 \<notin> set (file_name g i)"
    "\<exists>stem. file_name g i = stem @ bytes ''.csv''"
proof -
  have "\<bar>num_ops g sdiv clients g\<bar> < 10 ^ 10"
    using sdiv_abs [of "num_ops g" "clients g"] assms(2) by auto
  then have "length (decimal (num_ops g sdiv clients g)) \<le> 11" by (rule decimal_length)
  with decimal_length_int [OF assms(1)] decimal_length_int [OF assms(3)] type_name(2) [of "connectionType g"]
  show "length (file_name g i) \<le> 254"
    by (auto simp: file_name_def bytes_def split: if_splits)
  show "0 \<notin> set (file_name g i)"
    using type_name(1) [of "connectionType g"] by (auto simp: file_name_def bytes_def decimal_nonzero)
  show "\<exists>stem. file_name g i = stem @ bytes ''.csv''"
    by (simp add: file_name_def flip: append_assoc)
qed

lemma open_data_file_run:
  assumes "c_int (clients (settings s))" and "c_int (num_ops (settings s))" and "c_int i"
    and "script s = f # rest" and "rep_ret f \<noteq> 0"
  shows "\<exists>s'. open_data_file i s = Return ((), s') \<and> settings s' = settings s \<and> script s' = rest \<and>
    trace s' = trace s @ [(Sys (Open_file (file_name (settings s) i @ [0])), f)]"
proof -
  let ?n = "file_name (settings s) i"
  note ok = file_name_ok [OF assms(1-3)]
  obtain stem where stem: "?n = stem @ bytes ''.csv''" using ok(3) by blast
  have snp: "snprintf 255 ?n = ?n @ [0]" using ok(1) by (simp add: snprintf_def)
  have len: "strlen (?n @ [0]) = Return (length ?n)" by (intro strlen_cstr cstr_append_zero ok(2))
  have four: "4 \<le> length ?n" "drop (length ?n - 4) (?n @ [0]) = lit ''.csv''"
    by (simp_all add: stem bytes_def lit_def)
  have "strncmp (lit ''.csv'') (lit ''.csv'') 4 = Return 0" by (simp add: lit_def bytes_def eval_nat_numeral)
  with snp len four assms(4,5) show ?thesis
    by (simp add: open_data_file_def cmd_run Let_def)
qed

text \<open>
  C35: for a client that measured all of its operations, \<open>data_processing\<close> counts them all and writes one
  row for each, in order, with its times and the microseconds between them.
\<close>

theorem data_processing_rows:
  assumes "xs \<noteq> []" and "nat (num_ops (settings s) sdiv clients (settings s)) = length xs"
    and "c_int (clients (settings s))" and "c_int (num_ops (settings s))" and "c_int i"
    and "save (settings s) \<longrightarrow> (\<exists>f rest. script s = f # rest \<and> rep_ret f \<noteq> 0)"
  shows "\<exists>s'. data_processing (map measured xs) i s =
    Return ((length xs, if save (settings s) then map row_of xs else []), s')"
proof -
  have first: "array_get (map measured xs) 0 = Return (measured (hd xs))"
    using assms(1) by (cases xs) (simp_all add: array_get_def)
  have loop: "data_loop (length xs) (map measured xs) 0 (measured (hd xs)) [] =
      Return (length xs, measured (last xs), map row_of xs)"
    using data_loop_run [of "map measured xs" "[]" xs "[]"] assms(1) by simp
  have time: "time_taken (op_start (measured (hd xs))) (op_end (measured (last xs))) =
      Return (timersub (or_end (last xs)) (or_start (hd xs)))"
    by (simp add: time_taken_def read_time_def)
  show ?thesis
  proof (cases "save (settings s)")
    case True
    with assms(6) obtain f rest where f: "script s = f # rest" "rep_ret f \<noteq> 0" by blast
    from open_data_file_run [OF assms(3-5) f] obtain s1 where
      "open_data_file i s = Return ((), s1)" "settings s1 = settings s" by blast
    with True first loop time assms(2) show ?thesis by (simp add: data_processing_def cmd_run)
  next
    case False
    with first loop time assms(2) show ?thesis by (simp add: data_processing_def cmd_run)
  qed
qed

definition sample_program :: "settings \<Rightarrow> unit reply list \<Rightarrow> program" where
  "sample_program g sc = \<lparr>script = sc, trace = [], rx = [], errno = 0, settings = g\<rparr>"

abbreviation two_runs :: "op_run list" where
  "two_runs \<equiv>
     [\<lparr>or_request = zero_request, or_losses = 0, or_response = zero_response, or_start = (1, 999990), or_end = (2, 5)\<rparr>,
      \<lparr>or_request = zero_request, or_losses = 1, or_response = zero_response, or_start = (2, 20), or_end = (2, 30)\<rparr>]"

theorem data_processing_rows_witness:
  "\<exists>s'. data_processing (map measured two_runs) 1
      (sample_program (default_settings\<lparr>num_ops := 5, clients := 2\<rparr>) [returned 1]) =
    Return ((2, [\<lparr>row_start = (1, 999990), row_end = (2, 5), row_latency = 15\<rparr>,
      \<lparr>row_start = (2, 20), row_end = (2, 30), row_latency = 10\<rparr>]), s')"
proof -
  let ?s = "sample_program (default_settings\<lparr>num_ops := 5, clients := 2\<rparr>) [returned 1]"
  have "\<exists>s'. data_processing (map measured two_runs) 1 ?s =
      Return ((length two_runs, if save (settings ?s) then map row_of two_runs else []), s')"
    by (rule data_processing_rows)
       (simp_all add: sample_program_def default_settings_def signed_divide_int_def)
  then show ?thesis
    by (simp add: sample_program_def default_settings_def row_of_def usec_of_def numeral_2_eq_2)
qed

section \<open>The threads\<close>




section \<open>At the edges\<close>

text \<open>
  With fewer operations than clients every thread has none, and writes its first operation outside of
  the array it has allocated for them.
\<close>

lemma thread_without_operations:
  assumes "0 \<le> num_ops g" and "num_ops g < clients g"
    and "open_connection (instance_args g i) mem random s = Return (None, s1)"
    and "link_connected ty b (conn s1) r0" and "script s1 = z # cs @ rest" and "rep_dma z = []"
    and "chooses (cc_instance_nr (conn s1)) 0 r0 cs r"
  shows "start_instance (instance_args g i) mem random s = Undefined Out_of_bounds"
proof -
  have "num_ops g sdiv clients g = 0" using assms(1,2) by (simp add: signed_divide_int_def)
  then have n: "unat (ta_num_ops (instance_args g i)) = 0" by (simp add: instance_args_def)
  let ?s = "s1\<lparr>ops := [], script := cs @ rest, trace := trace s1 @ [(Sys (Sleep 1), z)], errno := rep_errno z\<rparr>"
  from link.choose_run [of ty b ?s r0 0 cs r rest] assms(4,7) obtain s2 where
    "choose_request 0 ?s = Return ((), s2)" "ops s2 = []" by auto
  with assms(3,5,6) n show ?thesis by (simp add: start_instance_def perform_operation_def cmd_run)
qed

lemma thread_without_operations_witness:
  "\<forall>mem c rxs. start_instance (instance_args (default_settings\<lparr>num_ops := 3, clients := 4\<rparr>) 2) mem 0
     \<lparr>script = [returned 5, returned 0, returned 0, returned 3], trace = [], rx = rxs, errno = 0, conn = c, ops = []\<rparr> =
   Undefined Out_of_bounds"
proof (intro allI)
  fix mem c and rxs :: "response list"
  let ?g = "default_settings\<lparr>num_ops := 3, clients := 4\<rparr>"
  have ty: "ta_conn_t (instance_args ?g 2) = TCP" "ta_instance_nr (instance_args ?g 2) = 2"
    by (simp_all add: instance_args_def default_settings_def)
  from tcp_opened [OF ty(1), of mem 0 "[returned 0, returned 3]" rxs c "[]"] obtain s1 where s1:
    "open_connection (instance_args ?g 2) mem 0 \<lparr>script = [returned 5, returned 0, returned 0, returned 3],
      trace = [], rx = rxs, errno = 0, conn = c, ops = []\<rparr> = Return (None, s1)"
    "link_connected TCP False (conn s1) zero_request" "cc_instance_nr (conn s1) = 2"
    "script s1 = returned 0 # [returned 3] @ []" using ty(2) by auto
  obtain r where "set_into 2 0 zero_request = Return r" using set_into_run [of zero_request 2 0] by auto
  then have "chooses (cc_instance_nr (conn s1)) 0 zero_request [returned 3] r" by (simp add: chooses_def s1(3))
  from thread_without_operations [OF _ _ s1(1,2,4) _ this]
  show "start_instance (instance_args ?g 2) mem 0 \<lparr>script = [returned 5, returned 0, returned 0, returned 3],
      trace = [], rx = rxs, errno = 0, conn = c, ops = []\<rparr> = Undefined Out_of_bounds" by simp
qed

text \<open>
  C39: a TCP thread whose first request cannot be written returns its array all the same, and processing it
  reads the end time of that operation, which nobody has set.
\<close>

theorem failed_operation_is_processed:
  assumes "open_connection args mem random s = Return (None, s1)"
    and "tcp_connected (conn s1) r0" and "script s1 = z # cs @ g # w # rest"
    and "rep_dma z = []" and "rep_dma g = []" and "chooses (cc_instance_nr (conn s1)) 0 r0 cs r"
    and "rep_ret w \<le> 0" and "0 < rep_errno w" and "0 < unat (ta_num_ops args)"
    and "0 < num_ops (settings p) sdiv clients (settings p)" and "\<not> save (settings p)"
  shows "\<exists>os s'. start_instance args mem random s = Return (Some os, s') \<and>
    data_processing os i p = Undefined Uninitialised"
proof -
  obtain k where k: "unat (ta_num_ops args) = Suc k" using assms(9) by (cases "unat (ta_num_ops args)") auto
  let ?empty = "\<lparr>op_start = None, op_end = None\<rparr> :: operation"
  define t where "t = s1\<lparr>ops := replicate (Suc k) ?empty, script := cs @ g # w # rest,
    trace := trace s1 @ [(Sys (Sleep 1), z)], errno := rep_errno z\<rparr>"
  have t: "tcp_connected (conn t) r0" "chooses (cc_instance_nr (conn t)) 0 r0 cs r" "script t = cs @ g # w # rest"
    "ops t = replicate (Suc k) ?empty" using assms(2,6) by (simp_all add: t_def)
  from tcp_link.choose_run [OF t(1-3)] t(4) obtain s2 where s2:
    "choose_request 0 t = Return ((), s2)" "script s2 = g # w # rest" "tcp_connected (conn s2) r"
    "ops s2 = replicate (Suc k) ?empty" by auto
  let ?os = "\<lparr>op_start = Some (Some (rep_time g)), op_end = Some None\<rparr> # replicate k ?empty"
  from s2(2-4) assms(5,7,8) have "\<exists>s'. perform_operation 0 t = Return (Some (- rep_errno w), s') \<and> ops s' = ?os"
    by (auto simp: perform_operation_def s2(1) send_request_def tcp_send_request_def tcp_connected_def cmd_run)
  then obtain s3 where s3: "perform_operation 0 t = Return (Some (- rep_errno w), s3)" "ops s3 = ?os" by blast
  have "start_instance args mem random s = Return (Some ?os, s3)"
    using assms(1,3,4) k s3 by (simp add: start_instance_def cmd_run t_def)
  moreover obtain m where "nat (num_ops (settings p) sdiv clients (settings p)) = Suc m"
    using assms(10) by (metis zero_less_nat_eq gr0_conv_Suc)
  then have "data_processing ?os i p = Undefined Uninitialised"
    using assms(11) by (simp add: data_processing_def array_get_def read_time_def cmd_run)
  ultimately show ?thesis by blast
qed

theorem failed_operation_is_processed_witness:
  "\<forall>mem c rxs. \<exists>os s'. start_instance (tcp_args 2) mem 0
     \<lparr>script = [returned 5, returned 0, returned 0, returned 3, at_time 10, (returned (- 1))\<lparr>rep_errno := 32\<rparr>],
      trace = [], rx = rxs, errno = 0, conn = c, ops = []\<rparr> = Return (Some os, s') \<and>
   data_processing os 0 (sample_program (default_settings\<lparr>num_ops := 2, save := False\<rparr>) []) = Undefined Uninitialised"
proof (intro allI)
  fix mem c and rxs :: "response list"
  let ?w = "(returned (- 1))\<lparr>rep_errno := 32\<rparr> :: response reply"
  let ?s = "\<lparr>script = [returned 5, returned 0, returned 0, returned 3, at_time 10, ?w],
    trace = [], rx = rxs, errno = 0, conn = c, ops = []\<rparr>"
  have ty: "ta_conn_t (tcp_args 2) = TCP" "ta_instance_nr (tcp_args 2) = 0" by (simp_all add: thread_of_def)
  from tcp_opened [OF ty(1), of mem 0 "[returned 0, returned 3, at_time 10, ?w]" rxs c "[]"] obtain s1 where s1:
    "open_connection (tcp_args 2) mem 0 ?s = Return (None, s1)"
    "tcp_connected (conn s1) zero_request" "cc_instance_nr (conn s1) = 0"
    "script s1 = returned 0 # [returned 3] @ at_time 10 # ?w # []" using ty(2) by (auto simp: link_defs)
  obtain r where "set_into 0 0 zero_request = Return r" using set_into_run [of zero_request 0 0] by auto
  then have "chooses (cc_instance_nr (conn s1)) 0 zero_request [returned 3] r" by (simp add: chooses_def s1(3))
  from failed_operation_is_processed [OF s1(1,2,4) _ _ this]
  show "\<exists>os s'. start_instance (tcp_args 2) mem 0 ?s = Return (Some os, s') \<and>
      data_processing os 0 (sample_program (default_settings\<lparr>num_ops := 2, save := False\<rparr>) []) = Undefined Uninitialised"
    by (simp add: thread_of_def sample_program_def default_settings_def signed_divide_int_def)
qed

section \<open>A thread over UC\<close>

text \<open>The two halves of the set-up, for any replies of success; the moves of the queue pair may fail.\<close>

lemma uc_client_prepared:
  assumes "script s = [dev, ctx, pd, ch, cq, nt, qp, init, gid, port, req, res, post] @ rest"
    and "rep_ret dev \<noteq> 0" and "rep_ret pd \<noteq> 0" and "rep_ret ch \<noteq> 0" and "rep_ret cq \<noteq> 0" and "rep_ret nt = 0"
    and "rep_ret qp \<noteq> 0" and "rep_ret init = 0" and "rep_ret port = 0" and "rep_ret req \<noteq> 0" and "rep_ret res \<noteq> 0"
    and "rep_ret post = 0" and "cc_uc_server_conn (conn s) = Some c"
  shows "\<exists>s1 uc. uc_client_prepare_connection random s = Return (0, s1) \<and>
    cc_uc_server_conn (conn s1) = Some uc \<and> script s1 = rest"
  using assms
  unfolding uc_client_prepare_connection_def first_device_def uc_set_init_qp_def get_local_lid_def
    rdma_buffer_register_def uc_pre_post_receive_response_def post_recieve_def
  by (simp add: cmd_run)

lemma connect_qp_result:
  assumes "script s = rtr # rts # rest"
  shows "\<exists>v s'. connect_qp q l r s = Return (v, s') \<and>
    (if rep_ret rtr = 0 \<and> rep_ret rts = 0 then v = None else \<exists>n. v = Some n \<and> n \<noteq> 0)"
proof (cases "rep_ret rtr = 0 \<and> rep_ret rts = 0")
  case True
  with assms show ?thesis by (simp add: connect_qp_def cmd_run)
next
  case False
  with assms show ?thesis by (cases "rep_ret rtr = 0") (simp_all add: connect_qp_def cmd_run)
qed

lemma uc_client_connected:
  assumes "script s = fd # co # w # rd # rtr # rts # rest" and "0 \<le> rep_ret fd" and "rep_ret co = 0"
    and "cc_uc_server_conn (conn s) = Some uc"
  shows "if rep_ret rtr = 0 \<and> rep_ret rts = 0 then uc_client_connect_to_server s = Undefined No_return_value
    else \<exists>n s'. uc_client_connect_to_server s = Return (n, s') \<and> n \<noteq> 0"
proof -
  let ?t = "s\<lparr>script := rtr # rts # rest,
    trace := trace s @ [(Sys Socket, fd), (Sys (Connect (rep_ret fd)), co),
      (Write_qp_attr (rep_ret fd) (usc_local_qp_attrs uc), w), (Read_qp_attr (rep_ret fd), rd)],
    rx := dma (rep_dma rd) (dma (rep_dma w) (dma (rep_dma co) (dma (rep_dma fd) (rx s)))), errno := rep_errno rd,
    conn := conn s\<lparr>cc_uc_server_conn :=
      Some (uc\<lparr>usc_socket_fd := rep_ret fd, usc_remote_qp_attrs := rep_attr rd\<rparr>)\<rparr>\<rparr>"
  have "script ?t = rtr # rts # rest" by simp
  from connect_qp_result [OF this] obtain v s' where v:
    "connect_qp (usc_client_qp uc) (usc_local_qp_attrs uc) (rep_attr rd) ?t = Return (v, s')"
    "if rep_ret rtr = 0 \<and> rep_ret rts = 0 then v = None else \<exists>n. v = Some n \<and> n \<noteq> 0" by blast
  from assms v(1) have "uc_client_connect_to_server s =
      cbind (use_result v) (\<lambda>ret. check (ret \<noteq> 0) ret (cret 0)) s'"
    by (simp add: uc_client_connect_to_server_def cmd_run)
  with v(2) show ?thesis by (auto simp: cmd_run split: if_splits)
qed

text \<open>
  C38: a benchmark thread over UC for which every call of its set-up succeeds, from the list of devices to the two
  moves of the queue pair, uses the value of \<open>connect_qp\<close>, which then returns none: its behaviour is undefined in C.
  (Whether the compiled program goes on depends on what it finds where the value is expected.) When one of the two
  moves fails, \<open>connect_qp\<close> does return its error and the thread ends without an array of operations.
\<close>

theorem uc_thread_uses_missing_value:
  assumes "ta_conn_t args = UC"
    and "script s = [dev, ctx, pd, ch, cq, nt, qp, init, gid, port, req, res, post, fd, co, w, rd, rtr, rts] @ rest"
    and "rep_ret dev \<noteq> 0" and "rep_ret pd \<noteq> 0" and "rep_ret ch \<noteq> 0" and "rep_ret cq \<noteq> 0" and "rep_ret nt = 0"
    and "rep_ret qp \<noteq> 0" and "rep_ret init = 0" and "rep_ret port = 0" and "rep_ret req \<noteq> 0" and "rep_ret res \<noteq> 0"
    and "rep_ret post = 0" and "0 \<le> rep_ret fd" and "rep_ret co = 0"
  shows "if rep_ret rtr = 0 \<and> rep_ret rts = 0 then start_instance args mem random s = Undefined No_return_value
    else \<exists>s'. start_instance args mem random s = Return (None, s')"
proof -
  let ?c = "\<lparr>cc_conn_t = UC, cc_blocking = ta_blocking args, cc_instance_nr = ta_instance_nr args,
    cc_rc_server_conn = None, cc_ud_server_conn = None,
    cc_uc_server_conn = Some ((fresh_usc mem)\<lparr>usc_request := Some zero_request\<rparr>), cc_tcp_server_conn = None\<rparr>"
  let ?s = "s\<lparr>conn := ?c, rx := [zero_response]\<rparr>"
  have sc: "script ?s = [dev, ctx, pd, ch, cq, nt, qp, init, gid, port, req, res, post] @ fd # co # w # rd # rtr # rts # rest"
    using assms(2) by simp
  from uc_client_prepared [OF sc assms(3-13), of _ random] obtain s1 uc where s1:
    "uc_client_prepare_connection random ?s = Return (0, s1)"
    "cc_uc_server_conn (conn s1) = Some uc" "script s1 = fd # co # w # rd # rtr # rts # rest" by auto
  show ?thesis
    using uc_client_connected [OF s1(3) assms(14,15) s1(2)] s1(1) assms(1)
    by (auto simp: start_instance_def open_connection_def cmd_run split: if_splits)
qed

theorem uc_thread_uses_missing_value_witness:
  "\<forall>mem random c rxs.
     start_instance (thread_of UC 5) mem random
       \<lparr>script = map returned [1, 2, 3, 4, 5, 0, 6, 0, 0, 0, 7, 8, 0, 9, 0, 88, 88, 0, 0], trace = [], rx = rxs, errno = 0,
        conn = c, ops = []\<rparr> = Undefined No_return_value"
proof (intro allI)
  fix mem random c and rxs :: "response list"
  have uc: "ta_conn_t (thread_of UC 5) = UC" by (simp add: thread_of_def)
  let ?s = "\<lparr>script = map returned [1, 2, 3, 4, 5, 0, 6, 0, 0, 0, 7, 8, 0, 9, 0, 88, 88, 0, 0],
    trace = [], rx = rxs, errno = 0, conn = c, ops = []\<rparr> :: bench"
  show "start_instance (thread_of UC 5) mem random ?s = Undefined No_return_value"
    using uc_thread_uses_missing_value [where s = ?s and rest = "[]", OF uc] by simp
qed

end
