(* ===== verification/Command_Lines.thy ===== *)
theory Command_Lines
  imports Benchmark Worker
begin

text \<open>
  The command lines of the two programs: the port that is printed is the port that is read back, and the
  options that do not do what their names say.
\<close>

section \<open>The port\<close>

lemma server_option_p:
  "server_option (CHR ''p'', arg) = cbind (clift (atoi arg)) (\<lambda>n. upd_server_info (\<lambda>si. si\<lparr>si_port := word_of_int n\<rparr>))"
  by (simp add: server_option_def)

lemma decimal_nat_first_digit: "\<exists>c cs. decimal_nat n = c # cs \<and> \<not> blank c \<and> c \<noteq> 45 \<and> c \<noteq> 43"
proof -
  have "decimal_nat n \<noteq> []" by (subst decimal_nat.simps) simp
  then obtain c cs where "decimal_nat n = c # cs" by (cases "decimal_nat n") auto
  moreover have "48 \<le> c"
  proof -
    have "\<forall>c \<in> set (decimal_nat n). 48 \<le> uint c"
    proof (induction n rule: decimal_nat.induct)
      case (1 n)
      have "48 \<le> uint (of_nat (48 + d) :: byte)" if "d < 10" for d using digit_word [OF that] by simp
      with 1 show ?case by (subst decimal_nat.simps) (auto simp del: of_nat_add)
    qed
    with \<open>decimal_nat n = c # cs\<close> show ?thesis by (simp add: word_le_def)
  qed
  ultimately show ?thesis by (intro exI [of _ c] exI [of _ cs]) (auto simp: blank_def word_le_def)
qed

lemma atoi_decimal: "atoi (decimal_nat n @ [0]) = Return (int n)"
proof -
  obtain c cs where c: "decimal_nat n = c # cs" "\<not> blank c" "c \<noteq> 45" "c \<noteq> 43"
    using decimal_nat_first_digit by blast
  have "digits_value 0 (decimal_nat n @ [0]) = Return (int n)"
    by (subst digits_value_decimal) simp
  with c show ?thesis by simp
qed

text \<open>The server's option \<open>-p\<close> with the decimal digits of a port sets that port.\<close>

lemma port_option_roundtrip:
  "server_option (CHR ''p'', decimal_nat n @ [0]) s =
    Return ((), s\<lparr>server_info := (server_info s)\<lparr>si_port := of_nat n\<rparr>\<rparr>)"
  by (simp add: server_option_p atoi_decimal upd_server_info_def cmd_run)

section \<open>Options that surprise\<close>

lemma names_compared:
  "strncmp (lit ''RC'') (lit ''rc'') (Suc (Suc 0)) = Return (- 32)"
  "strncmp (lit ''RC'') (lit ''uc'') (Suc (Suc 0)) = Return (- 35)"
  "strncmp (lit ''RC'') (lit ''ud'') (Suc (Suc 0)) = Return (- 35)"
  "strncmp (lit ''rc'') (lit ''rc'') (Suc (Suc 0)) = Return 0"
  by (simp_all add: lit_def bytes_def)

text \<open>
  The server's short option \<open>-b\<close> is not among the letters given to \<open>getopt_long\<close>: it ends the
  process, while \<open>--blocking\<close> works; and \<open>-r RC\<close>, as the protocol is written in the documentation, leaves
  the server a TCP server and makes it blocking.
\<close>

lemma server_options_surprise:
  "(server_options (server_command_line (''-b'' # argv)) s = Exited EXIT_SUCCESS) \<and>
   (server_options (server_command_line [''--blocking'']) s =
      Return ((), s\<lparr>server_info := (server_info s)\<lparr>si_blocking := True\<rparr>\<rparr>)) \<and>
   (server_options (server_command_line [''-r'', ''RC'']) s =
      Return ((), s\<lparr>server_info := (server_info s)\<lparr>si_blocking := True\<rparr>\<rparr>)) \<and>
   (server_options (server_command_line [''-r'', ''rc'']) s =
      Return ((), s\<lparr>server_info := (server_info s)\<lparr>si_type := RC\<rparr>\<rparr>))"
  by (intro conjI; simp add: server_command_line_def server_optstring_def server_long_options_def long_option_def
      find_long_def server_option_def names_compared upd_server_info_def numeral_2_eq_2 cmd_run)

text \<open>
  The benchmark's option \<open>-o\<close> is declared without an argument: in its short form it makes \<open>strtol\<close>
  follow a null pointer, whatever comes after it; only \<open>--ops\<close> can set the number of operations.
\<close>

lemma short_ops_option_is_null_deref:
  "(benchmark_main (''-o'' # argv) worlds s = Undefined Null_deref) \<and>
   (benchmark_options (getopt_long benchmark_optstring benchmark_long_options [''--ops'', ''100'']) s =
      Return (None, s\<lparr>settings := (settings s)\<lparr>num_ops := 100\<rparr>\<rparr>))"
  by (intro conjI; simp add: benchmark_main_def benchmark_optstring_def benchmark_long_options_def long_option_def
      find_long_def benchmark_option_def strtol_optarg_def upd_settings_def cmd_run lit_def bytes_def
      unsigned_value_def digit_value_def blank_def to_long_def to_int_def)

text \<open>
  With no clients the benchmark starts no thread, so nothing sets the end time it then computes the
  throughput with.
\<close>

lemma no_clients_is_uninitialised:
  assumes "script s = start # rest"
  shows "benchmark_main [''-n'', ''0''] worlds s = Undefined Uninitialised"
  using assms
  by (simp add: benchmark_main_def benchmark_optstring_def benchmark_option_def strtol_optarg_def
      upd_settings_def default_settings_def time_taken_def read_time_def cmd_run lit_def bytes_def
      unsigned_value_def digit_value_def blank_def to_long_def to_int_def)

lemma no_clients_is_uninitialised_witness:
  "benchmark_main [''-n'', ''0''] [] \<lparr>script = [returned 0], trace = [], rx = [], errno = 0, settings = default_settings\<rparr> =
     Undefined Uninitialised"
  by (rule no_clients_is_uninitialised) simp

end
