(* ===== verification/Server_Failures.thy ===== *)
theory Server_Failures
  imports Sessions Step_Rules
begin

text \<open>
  What a worker does outside of the sessions of theory \<open>Sessions\<close>: when a client says that it closes the
  connection, when a request has no known method, and when the client numbers of datagram clients are not
  the order of their connections.
\<close>

section \<open>A worker keeps its client\<close>

lemma worker_same_client:
  assumes "clear_close_flag s = Return ((), s0)" and "job_loop fuel oks s0 = Return (res, s')"
  shows "same_client s s'"
proof -
  have "same_client s s0"
    using assms(1)
    by (auto simp: clear_close_flag_def cbind_eq_Return cmd_run request_at_def clift_def same_client_def
        obind_eq_Return split: if_splits)
  moreover have "same_client s0 s'" using stepsD [OF same.loop assms(2)] .
  ultimately show ?thesis using same.trans by blast
qed

section \<open>Closing the connection\<close>

text \<open>
  C33: an RC or UC client that asks to close the connection in its first request, which lies in slot 0, makes the worker close
  the socket of a TCP client it has not got.
\<close>

theorem rdma_close_is_uninitialised:
  assumes start: "idle_start (rdma_conn b) s" "stores (store s) m" "ci_tcp_client (client s) = None"
    and replies: "script s = a @ p @ d @ rest" "rdma_arrives b 0 r a"
      "if req_method r = PING then rdma_delivered b p else p = []" "rdma_delivered b d"
    and r: "plain_method r" "request_served r m" "req_connection_close r \<noteq> 0"
  shows "main_job (True, True, True) s = Undefined Uninitialised"
proof -
  let ?oks = "(True, True, True)"
  have "\<exists>s0. clear_close_flag s = Return ((), s0) \<and> ring_idle (rdma_conn b) s0 0 \<and> script s0 = script s \<and>
      store s0 = store s \<and> trace s0 = trace s \<and> req_connection_close (rx s0 ! 0) = 0 \<and>
      endpoints s0 = endpoints s"
    by (rule cleared_ring [OF start(1)]) (auto simp: rdma_conn_def rc_conn_def uc_conn_def)
  then obtain s0 where s0: "clear_close_flag s = Return ((), s0)" "ring_idle (rdma_conn b) s0 0"
    "script s0 = a @ p @ [] @ d @ rest" "store s0 = store s"
    using replies(1) by auto
  have st: "stores (store s0) m" using start(2) s0(4) by simp
  have len: "0 < length (rx s0)" using s0(2) by (simp add: ring_defs REQUEST_BACKLOG_def)
  from s0(2) have "ring_idle (rc_conn b) s0 0 \<or> ring_idle (uc_conn b) s0 0"
    by (auto simp: ring_defs rdma_conn_def)
  then obtain s1 where s1: "job_round ?oks s0 = Return (Close, s1)"
    using rc.round_run [OF _ st s0(3) replies(2,3) refl replies(4) r(1,2)]
      uc.round_run [OF _ st s0(3) replies(2,3) refl replies(4) r(1,2)] r(3) len by fastforce
  then have l: "job_loop (Suc (length (script s0))) ?oks s0 = Return (Close, s1)" by (simp add: cmd_run)
  have "same_client s s1" using worker_same_client [OF s0(1) l] .
  then have "ci_tcp_client (client s1) = None" using start(3) by (simp add: same_client_def)
  with s0(1) l show ?thesis by (simp add: main_job_def cmd_run del: job_loop.simps)
qed

definition closing :: "request \<Rightarrow> request" where
  "closing r = r\<lparr>req_connection_close := 1\<rparr>"

lemma closing_ping: "plain_method (closing (plain_request PING [] []))"
  "request_served (closing (plain_request PING [] [])) m" "req_connection_close (closing r) = 1"
  "req_method (closing r) = req_method r"
  by (simp_all add: plain_method_def request_served_def closing_def)

theorem rdma_close_is_uninitialised_witness:
  "main_job (True, True, True) (sample_server sample_rc REQUEST_BACKLOG
     (rdma_replies 0 [closing (plain_request PING [] [])])) = Undefined Uninitialised"
proof (rule rdma_close_is_uninitialised)
  let ?r = "closing (plain_request PING [] [])"
  let ?s = "sample_server sample_rc REQUEST_BACKLOG (rdma_replies 0 [?r])"
  show "idle_start (rdma_conn False) ?s"
    by (simp add: idle_start_def rdma_conn_def rc_conn_def) (simp add: sample_rc_def fresh_client_def)
  show "stores (store ?s) Map.empty" by (simp add: start_stores)
  show "ci_tcp_client (client ?s) = None" by (simp add: sample_rc_def fresh_client_def)
  show "script ?s = (returned 0 # polled True [(0, ?r)]) @ (returned 0 # polled False []) @
      (returned 0 # polled False []) @ []"
    by (simp add: closing_ping)
  show "rdma_arrives False 0 ?r (returned 0 # polled True [(0, ?r)])"
    "if req_method ?r = PING then rdma_delivered False (returned 0 # polled False []) else returned 0 # polled False [] = []"
    "rdma_delivered False (returned 0 # polled False [])"
    by (simp_all add: rdma_arrives_def rdma_delivered_def polled_twice closing_ping)
qed (simp_all add: closing_ping)

text \<open>
  A client that asks to close the connection in any other slot of the ring is not heard: the worker
  answers the request and waits for the next one.
\<close>

lemma close_request_ignored:
  assumes "ring_idle tcp_conn s i" and "0 < i" and "req_connection_close (rx s ! 0) = 0"
    and "stores (store s) m" and "script s = a @ p @ d @ rest" and "tcp_arrives i r a"
    and "if req_method r = PING then tcp_delivered p else p = []" and "tcp_delivered d"
    and "plain_method r" and "request_served r m"
  shows "\<exists>s'. job_round (True, True, True) s = Return (Continue, s') \<and>
    ring_idle tcp_conn s' ((i + 1) mod REQUEST_BACKLOG) \<and>
    sent_messages (trace s') = sent_messages (trace s) @ answers r m"
proof -
  have sc: "script s = a @ p @ [] @ d @ rest" using assms(5) by simp
  from tcp.round_run [OF assms(1,4) sc assms(6,7) refl assms(8-10)] obtain s' where s':
    "job_round (True, True, True) s =
       Return (if req_connection_close (rx s' ! 0) = 0 then Continue else Close, s')"
    "rx s' = (rx s)[i := r]" "ring_idle tcp_conn s' ((i + 1) mod REQUEST_BACKLOG)"
    "sent_messages (trace s') = sent_messages (trace s) @ answers r m" by blast
  have "rx s' ! 0 = rx s ! 0" using s'(2) assms(2) by simp
  with s' assms(3) show ?thesis by auto
qed

lemma close_request_ignored_witness:
  "\<exists>s'. job_round (True, True, True) (sample_server (sample_tcp\<lparr>ci_request_count := 1\<rparr>) REQUEST_BACKLOG
       (tcp_replies 1 [closing (plain_request PING [] [])])) = Return (Continue, s')"
proof -
  let ?r = "closing (plain_request PING [] [])"
  let ?s = "sample_server (sample_tcp\<lparr>ci_request_count := 1\<rparr>) REQUEST_BACKLOG (tcp_replies 1 [?r])"
  let ?a = "[returned 1, transferred sizeof_request [(1, ?r)]]" and ?d = "[transferred sizeof_response []]"
  have idle: "ring_idle tcp_conn ?s 1"
    by (simp add: ring_defs tcp_conn_def REQUEST_BACKLOG_def) (simp add: sample_tcp_def fresh_client_def)
  have open0: "req_connection_close (rx ?s ! 0) = 0" by (simp add: REQUEST_BACKLOG_def zero_request_def)
  have st: "stores (store ?s) Map.empty" by (simp add: start_stores)
  have sc: "script ?s = ?a @ ?d @ ?d @ []" by (simp add: closing_ping)
  have "tcp_arrives 1 ?r ?a" "if req_method ?r = PING then tcp_delivered ?d else ?d = []" "tcp_delivered ?d"
    by (simp_all add: tcp_arrives_def tcp_delivered_def closing_ping)
  from close_request_ignored [OF idle _ open0 st sc this closing_ping(1,2)] show ?thesis by auto
qed

section \<open>Requests without a method\<close>

definition parsing_error :: response where
  "parsing_error = \<lparr>resp_code = PARSING_ERROR, resp_msg = replicate MSG_SIZE 0, resp_msg_len = 0\<rparr>"

lemma unk_served: "req_method r = UNK \<Longrightarrow> serve_request tid oks r x t = Return (x, t)"
  by (simp add: serve_request_def cmd_run)

context ring_transport
begin

lemma receive_kept:
  assumes "ring_idle conn s i" and "arrives j r a" and "script s = a @ rest"
  shows "\<exists>s'. cseq prepare_for_next_request take_request s = Return (Some (int i), s') \<and> script s' = rest \<and>
    ring_idle conn s' i \<and> kept [] [(j, r)] s s'"
proof -
  from receive_run [OF assms] obtain s' where s': "cseq prepare_for_next_request take_request s = Return (Some (int i), s')"
    "script s' = rest" "ring_idle conn s' i" "worked (before (endpoints s) i) [(j, r)] s s'" by blast
  from worked_kept [OF s'(4)] s'(1-3) show ?thesis by (simp add: quiet)
qed

lemma send_kept:
  assumes "ring_ok conn s" and "delivered d" and "script s = d @ rest"
  shows "\<exists>n s'. send_response_to_client s = Return (n, s') \<and> 0 \<le> n \<and> script s' = rest \<and>
    client s' = client s \<and> rx s' = rx s \<and> kept [ci_response (client s)] [] s s'"
proof -
  from send_run [OF assms] obtain n s' where s': "send_response_to_client s = Return (n, s')" "0 \<le> n"
    "script s' = rest" "client s' = client s" "rx s' = rx s"
    "worked [reply (endpoints s) zero_request (ci_response (client s))] [] s s'" by blast
  from worked_kept [OF s'(6)] s'(1-5) show ?thesis by (simp add: carries)
qed

text \<open>
  A turn of the loop in which the buffer of the worker's own slot \<open>i\<close> holds a request without a method:
  two responses, and the worker stays in slot \<open>i\<close>, whatever slot the request that arrived was put in.
\<close>

lemma unk_round:
  assumes idle: "ring_idle conn s i" and sc: "script s = a @ d @ d' @ rest"
    and replies: "arrives j r a" "delivered d" "delivered d'" and unk: "req_method ((rx s)[j := r] ! i) = UNK"
  shows "\<exists>s'. job_round oks s =
      Return (if req_connection_close (rx s' ! 0) = 0 then Continue else Close, s') \<and> script s' = rest \<and>
    rx s' = (rx s)[j := r] \<and> ring_idle conn s' i \<and> store s' = store s \<and>
    sent_messages (trace s') = sent_messages (trace s) @ [parsing_error, zero_response]"
proof -
  from receive_kept [OF idle replies(1) sc] obtain s1 where s1:
    "cseq prepare_for_next_request take_request s = Return (Some (int i), s1)" "script s1 = d @ d' @ rest"
    "ring_idle conn s1 i" "kept [] [(j, r)] s s1" by blast
  from s1(1) obtain n s0 where s0: "prepare_for_next_request s = Return (n, s0)"
    "take_request s0 = Return (Some (int i), s1)" by (auto simp: cseq_eq_Return)
  have rx1: "rx s1 = (rx s)[j := r]" using s1(4) by (simp add: kept_def)
  have i: "i < length (rx s1)" "conn (client s1)" "uint (ci_request_count (client s1)) = int i"
    "i < REQUEST_BACKLOG" "length (rx s1) = REQUEST_BACKLOG"
    using s1(3) by (auto simp: ring_defs simp flip: uint_nat)
  have cur: "get_current_request s1 = Return (int i, s1)" using current_run [OF i(2)] i(3) by simp
  let ?s2 = "set_response parsing_error s1"
  have "ring_ok conn ?s2" using i by (simp add: ring_ok_def set_response_def conn_upd)
  from send_kept [OF this replies(2), of "d' @ rest"] s1(2) obtain k s2 where s2:
    "send_response_to_client ?s2 = Return (k, s2)" "0 \<le> k" "script s2 = d' @ rest" "client s2 = client ?s2"
    "rx s2 = rx s1" "kept [parsing_error] [] ?s2 s2" by auto
  have "send_response PARSING_ERROR 0 None s1 = (if k < 0 then Return (- 1, s2) else Return (0, s2))"
    using s2(1) by (simp add: send_response_def cmd_run set_response_def parsing_error_def)
  then have "request_dispatcher s1 = Return ((), s2)"
    using cur i(1) unk rx1 s2(2) by (simp add: request_dispatcher_def cmd_run)
  then have recv: "recv_request s0 = Return (Some (int i), s2)"
    using s0(2) by (simp add: recv_request_def cmd_run)
  let ?s3 = "set_store (store s2) (set_response zero_response s2)"
  have ok3: "ring_ok conn ?s3"
    using i s2(4,5) by (simp add: ring_ok_def set_response_def set_store_def conn_upd)
  from send_kept [OF this replies(3), of rest] s2(3) obtain k' s4 where s4:
    "send_response_to_client ?s3 = Return (k', s4)" "script s4 = rest" "client s4 = client ?s3"
    "rx s4 = rx s2" "kept [zero_response] [] ?s3 s4" by auto
  let ?res = "if req_connection_close (rx s4 ! 0) = 0 then Continue else Close"
  have "0 < length (rx s4)" using i s4(4) s2(5) by simp
  then have closed: "cbind is_connection_closed (\<lambda>c. cret (if c then Close else Continue)) s4 = Return (?res, s4)"
    by (simp add: is_connection_closed_def cmd_run cbind_assoc)
  have "answer_request oks (int i) s2 = Return (?res, s4)"
    using i(1) unk rx1 s2(5) s4(1) closed unk_served
    by (simp add: answer_request_def cmd_run set_response_def set_store_def)
  then have "job_round oks s = Return (?res, s4)"
    using s0(1) recv by (simp add: job_round_def cmd_run)
  moreover have "ring_idle conn s4 i"
    using s1(3) s2(4,5) s4(3,4) by (simp add: ring_defs set_response_def set_store_def conn_upd)
  moreover have "sent_messages (trace s4) = sent_messages (trace s) @ [parsing_error, zero_response]"
    using s1(4) s2(6) s4(5) by (simp add: kept_def)
  moreover have "store s4 = store s" using s1(4) s2(6) s4(5) by (simp add: kept_def)
  ultimately show ?thesis using s4(2,4) s2(5) rx1 by auto
qed

end

text \<open>
  C31: an RC worker answers a request without a method twice and stays in its slot, while the card goes on to
  the next one: the request that arrives there, whatever it is, is not looked at. It gets the two
  responses of the request before it, and the store does not change.
\<close>

theorem unknown_method_desynchronises:
  assumes "ring_idle (rc_conn b) s i" and "script s = a @ d @ d' @ a' @ e @ e' @ rest"
    and "rdma_arrives b i u a" and "req_method u = UNK" and "rdma_arrives b ((i + 1) mod REQUEST_BACKLOG) r a'"
    and "rdma_delivered b d" and "rdma_delivered b d'" and "rdma_delivered b e" and "rdma_delivered b e'"
  shows "\<exists>s1 s2 res res'. job_round oks s = Return (res, s1) \<and> job_round oks s1 = Return (res', s2) \<and>
    store s2 = store s \<and> ring_idle (rc_conn b) s2 i \<and>
    sent_messages (trace s2) =
      sent_messages (trace s) @ [parsing_error, zero_response, parsing_error, zero_response]"
proof -
  have i: "i < REQUEST_BACKLOG" "length (rx s) = REQUEST_BACKLOG" using assms(1) by (simp_all add: ring_defs)
  have moved: "(i + 1) mod REQUEST_BACKLOG \<noteq> i" using i(1) by (auto simp: REQUEST_BACKLOG_def mod_if)
  have "req_method ((rx s)[i := u] ! i) = UNK" using assms(4) i by simp
  from rc.unk_round [OF assms(1,2,3,6,7) this, of oks] obtain res s1 where s1: "job_round oks s = Return (res, s1)"
    "script s1 = a' @ e @ e' @ rest" "rx s1 = (rx s)[i := u]" "ring_idle (rc_conn b) s1 i" "store s1 = store s"
    "sent_messages (trace s1) = sent_messages (trace s) @ [parsing_error, zero_response]" by blast
  have "req_method ((rx s1)[(i + 1) mod REQUEST_BACKLOG := r] ! i) = UNK"
    using assms(4) i s1(3) moved by simp
  from rc.unk_round [OF s1(4,2) assms(5,8,9) this, of oks] obtain res' s2 where
    "job_round oks s1 = Return (res', s2)" "ring_idle (rc_conn b) s2 i" "store s2 = store s1"
    "sent_messages (trace s2) = sent_messages (trace s1) @ [parsing_error, zero_response]" by blast
  with s1 show ?thesis by auto
qed

theorem unknown_method_desynchronises_witness:
  "\<exists>s1 s2 res res'. job_round (True, True, True) (sample_server sample_rc REQUEST_BACKLOG
      ((returned 0 # polled True [(0, plain_request UNK [] [])]) @ (returned 0 # polled False []) @
       (returned 0 # polled False []) @
       (returned 0 # polled True [(1, plain_request SET (bytes ''k'') (bytes ''v''))]) @
       (returned 0 # polled False []) @ (returned 0 # polled False []))) = Return (res, s1) \<and>
     job_round (True, True, True) s1 = Return (res', s2) \<and> store s2 = start_memory \<and>
     sent_messages (trace s2) = [parsing_error, zero_response, parsing_error, zero_response]"
proof -
  let ?u = "plain_request UNK [] []" and ?r = "plain_request SET (bytes ''k'') (bytes ''v'')"
  let ?a = "returned 0 # polled True [(0, ?u)]" and ?a' = "returned 0 # polled True [(1, ?r)]"
    and ?d = "returned 0 # polled False [] :: request reply list"
  let ?s = "sample_server sample_rc REQUEST_BACKLOG (?a @ ?d @ ?d @ ?a' @ ?d @ ?d)"
  have idle: "ring_idle (rc_conn False) ?s 0"
    by (simp add: ring_defs rc_conn_def REQUEST_BACKLOG_def) (simp add: sample_rc_def fresh_client_def)
  have sc: "script ?s = ?a @ ?d @ ?d @ ?a' @ ?d @ ?d @ []" by simp
  have "rdma_arrives False 0 ?u ?a" "rdma_arrives False ((0 + 1) mod REQUEST_BACKLOG) ?r ?a'" "rdma_delivered False ?d"
    by (simp_all add: rdma_arrives_def rdma_delivered_def polled_twice REQUEST_BACKLOG_def)
  from unknown_method_desynchronises [OF idle sc this(1) _ this(2) this(3) this(3) this(3) this(3),
      of "(True, True, True)"]
  show ?thesis by auto
qed

section \<open>Datagram clients\<close>

text \<open>
  C32: on the datagram server a request without a method leaves the mutex locked, and the worker that
  receives the next request, whichever client it serves, waits for it for ever.
\<close>

theorem ud_unknown_method_blocks_server:
  assumes "ud_idle b s i" and "script s = a @ d @ d' @ rest" and "ud_arrives b i u a" and "req_method u = UNK"
    and "rdma_delivered b d" and "rdma_delivered b d'"
  shows "\<exists>s' res. job_round oks s = Return (res, s') \<and> uds_lock (ud_server s') \<and>
    (\<forall>t c r sc more. ud_server t = ud_server s' \<and> ci_type (client t) = UD \<and> ci_ud_client (client t) = Some c \<and>
       completion (ci_blocking (client t)) [(j, r)] sc \<and> script t = sc @ more \<longrightarrow> job_round oks t = Blocked)"
proof -
  from ud_receive_run [OF assms(1,3,2)] obtain s1 where s1:
    "cseq prepare_for_next_request take_request s = Return (Some (int i), s1)" "script s1 = d @ d' @ rest"
    "ud_busy b s1 i u" by blast
  from s1(1) obtain n s0 where s0: "prepare_for_next_request s = Return (n, s0)"
    "take_request s0 = Return (Some (int i), s1)" by (auto simp: cseq_eq_Return)
  have c: "get_current_request s1 = Return (int i, s1)" "request_at (int i) s1 = Return (u, s1)"
    using ud.busy_current [OF s1(3)] by blast+
  let ?s2 = "set_response parsing_error s1"
  have "ud_ok b ?s2" "ud_handling ?s2 u" using s1(3) by (simp_all add: ud_defs set_response_def)
  from ud_send_run [OF this assms(5), of "d' @ rest"] s1(2) obtain k s2 where s2:
    "send_response_to_client ?s2 = Return (k, s2)" "0 \<le> k" "script s2 = d' @ rest" "client s2 = client ?s2"
    "ud_server s2 = ud_server s1" "rx s2 = rx s1" by auto
  have "send_response PARSING_ERROR 0 None s1 = (if k < 0 then Return (- 1, s2) else Return (0, s2))"
    using s2(1) by (simp add: send_response_def cmd_run set_response_def parsing_error_def)
  then have "request_dispatcher s1 = Return ((), s2)"
    using c assms(4) s2(2) by (simp add: request_dispatcher_def cmd_run)
  then have recv: "recv_request s0 = Return (Some (int i), s2)"
    using s0(2) by (simp add: recv_request_def cmd_run)
  let ?s3 = "set_store (store s2) (set_response zero_response s2)"
  have "ud_ok b ?s3" "ud_handling ?s3 u"
    using s1(3) s2(4-6) by (simp_all add: ud_defs set_response_def set_store_def)
  from ud_send_run [OF this assms(6), of rest] s2(3) obtain k' s4 where s4:
    "send_response_to_client ?s3 = Return (k', s4)" "ud_server s4 = ud_server s2" "rx s4 = rx s2" by auto
  have i: "0 < length (rx s4)" "i < length (rx s2)" "rx s2 ! i = u"
    using s1(3) s2(6) s4(3) by (auto simp: ud_defs MAX_CLIENTS_def)
  let ?res = "if req_connection_close (rx s4 ! 0) = 0 then Continue else Close"
  have closed: "cbind is_connection_closed (\<lambda>c. cret (if c then Close else Continue)) s4 = Return (?res, s4)"
    using i(1) by (simp add: is_connection_closed_def cmd_run cbind_assoc)
  have "answer_request oks (int i) s2 = Return (?res, s4)"
    using i(2,3) assms(4) s4(1) closed unk_served
    by (simp add: answer_request_def cmd_run set_response_def set_store_def)
  then have "job_round oks s = Return (?res, s4)" using s0(1) recv by (simp add: job_round_def cmd_run)
  moreover have locked: "uds_lock (ud_server s4)" using s1(3) s2(5) s4(2) by (simp add: ud_busy_def)
  moreover have "job_round oks t = Blocked"
    if t: "ud_server t = ud_server s4" "ci_type (client t) = UD" "ci_ud_client (client t) = Some c"
      "completion (ci_blocking (client t)) [(j, r)] sc" "script t = sc @ more" for t c r sc more
  proof -
    from process_completion [OF t(4,5)] obtain t' where t':
      "process_work_completion_events (uds_io_completion_channel_recv (ud_server t)) 1
         (uds_ud_recv_cq (ud_server t)) (ci_blocking (client t)) t = Return (1, t')"
      "io_step [] [(j, r)] t t'" by blast
    have "uds_lock (ud_server t')" using io_step_same [OF t'(2)] t(1) locked by simp
    then have "receive_header t = Blocked"
      using t(2,3) t'(1) by (simp add: receive_header_def ud_receive_header_def ud_mutex_lock_def cmd_run)
    moreover have "prepare_for_next_request t = Return (0, t)"
      using t(2) by (simp add: prepare_for_next_request_def cmd_run)
    ultimately show ?thesis by (simp add: job_round_def recv_request_def take_request_def cmd_run)
  qed
  ultimately show ?thesis by blast
qed

theorem ud_unknown_method_blocks_server_witness:
  "\<exists>s' res. job_round (True, True, True) (sample_server sample_ud MAX_CLIENTS
       (polled True [(0, plain_request UNK [] [])] @ (returned 0 # polled False []) @ (returned 0 # polled False []) @ []))
     = Return (res, s') \<and> uds_lock (ud_server s') \<and>
    (\<forall>t c r sc more. ud_server t = ud_server s' \<and> ci_type (client t) = UD \<and> ci_ud_client (client t) = Some c \<and>
       completion (ci_blocking (client t)) [(1, r)] sc \<and> script t = sc @ more \<longrightarrow>
       job_round (True, True, True) t = Blocked)"
proof (rule ud_unknown_method_blocks_server)
  let ?u = "plain_request UNK [] []"
  let ?s = "sample_server sample_ud MAX_CLIENTS
    (polled True [(0, ?u)] @ (returned 0 # polled False []) @ (returned 0 # polled False []) @ [])"
  show "ud_idle False ?s 0"
    by (simp add: ud_idle_def ud_ok_def sample_ud_server_def MAX_CLIENTS_def)
       (simp add: sample_ud_def fresh_client_def)
  show "script ?s = polled True [(0, ?u)] @ (returned 0 # polled False []) @ (returned 0 # polled False []) @ []"
    by simp
  show "ud_arrives False 0 ?u (polled True [(0, ?u)])"
    by (simp add: ud_arrives_def polled_twice MAX_CLIENTS_def) (simp add: plain_request_def zero_request_def)
  show "rdma_delivered False (returned 0 # polled False [])" "rdma_delivered False (returned 0 # polled False [])"
    by (simp_all add: rdma_delivered_def polled_twice)
qed simp

text \<open>
  C40: accepting a datagram client whose attributes name the id \<open>k\<close>, as the \<open>c\<close>-th one: its address handle
  becomes entry \<open>k\<close>, its attributes become entry \<open>c\<close>. So when \<open>k\<close> is not \<open>c\<close> the entry a response to it
  is sent with combines its address with the queue pair number of another client or of none; and a
  \<open>k\<close> or \<open>c\<close> beyond the arrays, as the client after the last entry has it, is written outside of them.
\<close>

theorem ud_accept_entries:
  assumes "script s = [mr, fd, so, remote, w, ah] @ rest"
    and "rep_ret mr \<noteq> 0" and "0 \<le> rep_ret fd" and "0 \<le> rep_ret so" and "rep_ret ah \<noteq> 0"
    and "uds_pd (ud_server s) \<noteq> 0" and "ci_ud_client (client s) = Some d"
    and "uds_client_counter (ud_server s) = int c" and "qa_client_id (rep_attr remote) = int k"
    and "length (uds_ah (ud_server s)) = MAX_CLIENTS"
    and "length (uds_remote_dgram_qp_attrs (ud_server s)) = MAX_CLIENTS"
  shows "if c < MAX_CLIENTS \<and> k < MAX_CLIENTS
    then \<exists>s'. ud_accept_new_connection s = Return (rep_ret w, s') \<and>
      uds_ah (ud_server s') = (uds_ah (ud_server s))[k := rep_ret ah] \<and>
      uds_remote_dgram_qp_attrs (ud_server s') = (uds_remote_dgram_qp_attrs (ud_server s))[c := rep_attr remote] \<and>
      uds_client_counter (ud_server s') = int (c + 1)
    else ud_accept_new_connection s = Undefined Out_of_bounds"
  using assms
  by (simp add: ud_accept_new_connection_def rdma_buffer_register_def set_at_def array_set_def cmd_run)

theorem ud_accept_entries_witness:
  "\<exists>s'. ud_accept_new_connection (sample_server sample_ud MAX_CLIENTS [returned 1, returned 4, returned 0,
       (returned 32)\<lparr>rep_attr := zero_attr\<lparr>qa_client_id := 3, qa_qpn := 77\<rparr>\<rparr>, returned 32, returned 5]) = Return (32, s') \<and>
     uds_ah (ud_server s') ! 3 = 5 \<and> qa_qpn (uds_remote_dgram_qp_attrs (ud_server s') ! 3) = 0 \<and>
     qa_qpn (uds_remote_dgram_qp_attrs (ud_server s') ! 0) = 77"
proof -
  let ?r = "(returned 32)\<lparr>rep_attr := zero_attr\<lparr>qa_client_id := 3, qa_qpn := 77\<rparr>\<rparr> :: request reply"
  let ?s = "sample_server sample_ud MAX_CLIENTS [returned 1, returned 4, returned 0, ?r, returned 32, returned 5]"
  have d: "ci_ud_client (client ?s) = Some \<lparr>ud_socket_fd = 4, ud_response_mr = 5, ud_client_handling = 0\<rparr>"
    by (simp add: sample_ud_def)
  have "script ?s = [returned 1, returned 4, returned 0, ?r, returned 32, returned 5] @ []" by simp
  from ud_accept_entries [OF this _ _ _ _ _ d, of 0 3] show ?thesis
    by (auto simp: sample_ud_server_def MAX_CLIENTS_def zero_attr_def)
qed

end
