(* ===== verification/Worker_Ends.thy ===== *)
theory Worker_Ends
  imports Sessions
begin

text \<open>
  The loop of \<open>main_job\<close> does not spin: whatever the requests contain and whatever the outside replies, a
  worker returns, exits, blocks or does something undefined, and every turn of its loop makes an
  external call. The walks of the hash table end because every operation either keeps the table well
  formed or is undefined, also for requests that do not fit their buffers.
\<close>

section \<open>Every operation of the store ends\<close>

text \<open>\<open>store_good s\<close>: a well-formed table, or none because an allocation of a reset has failed.\<close>

definition store_good :: "memory \<Rightarrow> bool" where
  "store_good s \<longleftrightarrow>
     (\<exists>tab. represents s table_size tab) \<or> (ht s \<in> {Ht_null, Ht_dangling} \<and> below_fresh s)"

text \<open>What an operation of the store may do: something undefined, or return with a good store.\<close>

definition keeps_good :: "('a \<times> memory) outcome \<Rightarrow> bool" where
  "keeps_good x \<longleftrightarrow> (\<exists>u. x = Undefined u) \<or> (\<exists>a s'. x = Return (a, s') \<and> store_good s')"

lemma represents_good: "represents s table_size tab \<Longrightarrow> store_good s"
  unfolding store_good_def by blast

lemma good_below: "store_good s \<Longrightarrow> below_fresh s"
  by (auto simp: store_good_def represents_opened opened_def table_ok_def)

lemma get_bucket_unterminated: "0 \<notin> set key \<Longrightarrow> get_bucket key s = Undefined Out_of_bounds"
  using hash_loop_unterminated by (simp add: get_bucket_def hash_def cmd_run)

lemma get_bucket_no_table:
  assumes "0 \<in> set key" and "ht s \<in> {Ht_null, Ht_dangling}"
  shows "\<exists>u. get_bucket key s = Undefined u"
  using assms hash_cstr [OF cstr_cstr_of [OF assms(1)]]
  by (auto simp: get_bucket_def the_ht_def cmd_run)

lemma no_bucket_undefined:
  assumes "get_bucket (req_key r) s = Undefined u"
  shows "set_request w r resp s = Undefined u" "get_request w r resp s = Undefined u"
    "del_request w r resp s = Undefined u"
  using assms
  by (simp_all add: set_request_def get_key_entry_def get_request_def search_def del_request_def
      remove_item_def cmd_run)

lemma set_request_good:
  assumes rep: "represents s table_size tab" and wf: "request_wf r" and key: "0 \<in> set (req_key r)"
  shows "keeps_good (set_request w r resp s)"
proof -
  let ?q = "req_string r" and ?n = "req_prefix r" and ?b = "bucket_of table_size (req_string r)"
  note q = cstr_cstr_of [OF key]
  have len: "length (req_key r) = KEY_SIZE" "length (req_msg r) = MSG_SIZE"
    using wf by (simp_all add: request_wf_def)
  from rep obtain t bs where op: "opened s t bs table_size tab" by (auto simp: represents_opened)
  consider "?n \<le> KEY_SIZE" "unat (req_msg_len r) \<le> MSG_SIZE"
    | "?n \<le> KEY_SIZE" "MSG_SIZE < unat (req_msg_len r)"
    | "KEY_SIZE < ?n" "find (matches s ?n ?q) (bs ?b) = None"
    | e where "KEY_SIZE < ?n" "find (matches s ?n ?q) (bs ?b) = Some e"
    by (meson not_le option.exhaust)
  then show ?thesis
  proof cases
    case 1
    then have "request_fits r" using wf key by (simp add: request_fits_def)
    from set_request_represents [OF rep this, of w resp] show ?thesis
      unfolding keeps_good_def using represents_good by blast
  next
    case 2
    from set_request_too_long_value [OF rep q len(1) this] show ?thesis by (auto simp: keeps_good_def)
  next
    case 3
    from get_key_entry_too_long_key [OF op q len(1) this] show ?thesis
      by (simp add: set_request_def keeps_good_def cmd_run)
  next
    case 4
    from find_split [OF 4(2)] obtain xs ys where split: "bs ?b = xs @ e # ys"
      "matches s ?n ?q e" "\<forall>x \<in> set xs. \<not> matches s ?n ?q x" by blast
    obtain it where it: "cells s e = Some it" "item_rwlock it = Lock_free"
      using opened_lock [OF op, of e ?q] split(1) by auto
    have t: "ht s = Ht_live t" "table_ok s t bs" "ht_capacity t = table_size" using op by (simp_all add: opened_def)
    have e: "get_key_entry (req_key r) (req_key_len r) s = Return (e, s)"
      using get_key_entry_found [OF t(1,2) _ q] 4(2) opened_index(3) [OF op, of ?q] t(3) by simp
    show ?thesis
    proof (cases "unat (req_msg_len r) \<le> MSG_SIZE")
      case True
      with len(2) have m: "unat (req_msg_len r) \<le> length (req_msg r)" by simp
      from set_request_written [OF e it m True, of w resp] written_opened [OF op split m True]
      show ?thesis unfolding keeps_good_def store_good_def represents_opened by blast
    next
      case False
      with e it show ?thesis by (simp add: set_request_def keeps_good_def cmd_run memcpy_def)
    qed
  qed
qed

lemma init_hashtable_good:
  assumes "store_good s"
  shows "keeps_good (init_hashtable oks HT_CAPACITY s)"
proof -
  have below: "below_fresh s" using good_below [OF assms] .
  have "store_good (s\<lparr>ht := Ht_live \<lparr>ht_capacity = table_size, ht_items = replicate (unat HT_CAPACITY) None,
      ht_locks = replicate (unat HT_CAPACITY) False\<rparr>\<rparr>)"
    using fresh_table_stores [OF below] represents_good by (auto simp: stores_def)
  moreover have "store_good (s\<lparr>ht := Ht_null\<rparr>)" "store_good (s\<lparr>ht := Ht_dangling\<rparr>)"
    using below by (simp_all add: store_good_def below_fresh_def)
  ultimately show ?thesis
    by (cases oks; cases "ht s") (auto simp: init_hashtable_def keeps_good_def cmd_run HT_CAPACITY_def)
qed

lemma serve_request_good:
  assumes "store_good s" and wf: "request_wf r"
  shows "keeps_good (serve_request w oks r zero_response s)"
proof -
  have requests: "keeps_good (set_request w r zero_response s)" "keeps_good (get_request w r zero_response s)"
    "keeps_good (del_request w r zero_response s)"
  proof -
    consider u where "get_bucket (req_key r) s = Undefined u"
      | tab where "0 \<in> set (req_key r)" "represents s table_size tab"
      using assms(1) get_bucket_unterminated [of "req_key r" s] get_bucket_no_table [of "req_key r" s]
      unfolding store_good_def by metis
    then have "keeps_good (set_request w r zero_response s) \<and> keeps_good (get_request w r zero_response s) \<and>
        keeps_good (del_request w r zero_response s)"
    proof cases
      case 1
      from no_bucket_undefined [OF this] show ?thesis by (simp add: keeps_good_def)
    next
      case 2
      from del_request_bucket [OF 2(2,1), of w zero_response] represents_good
      have "keeps_good (del_request w r zero_response s)" unfolding keeps_good_def by blast
      moreover from get_request_bucket [OF 2(2,1) zero_response_wf, of w] represents_good [OF 2(2)]
      have "keeps_good (get_request w r zero_response s)" by (simp add: keeps_good_def)
      ultimately show ?thesis using set_request_good [OF 2(2) wf 2(1)] by blast
    qed
    then show "keeps_good (set_request w r zero_response s)" "keeps_good (get_request w r zero_response s)"
      "keeps_good (del_request w r zero_response s)" by simp_all
  qed
  show ?thesis
    using requests init_hashtable_good [OF assms(1), of oks] assms(1)
    by (cases "req_method r") (auto simp: serve_request_def keeps_good_def cmd_run)
qed

section \<open>Every operation of a worker ends\<close>

text \<open>
  \<open>worker_sound s\<close>: the store is good and the requests in the buffers and those to come have the sizes of the
  structure. An operation that does not touch the store leaves it alone and receives such requests.
\<close>

definition dma_sound :: "request reply \<Rightarrow> bool" where
  "dma_sound p \<longleftrightarrow> (\<forall>(i, r) \<in> set (rep_dma p). request_wf r)"

definition inputs_sound :: "server \<Rightarrow> bool" where
  "inputs_sound s \<longleftrightarrow> (\<forall>r \<in> set (rx s). request_wf r) \<and> (\<forall>p \<in> set (script s). dma_sound p)"

definition leaves_store :: "server \<Rightarrow> server \<Rightarrow> bool" where
  "leaves_store s s' \<longleftrightarrow> store s' = store s \<and> (inputs_sound s \<longrightarrow> inputs_sound s')"

lemma dma_wf: "\<forall>r \<in> set b. request_wf r \<Longrightarrow> \<forall>(i, r) \<in> set ws. request_wf r \<Longrightarrow> \<forall>r \<in> set (dma ws b). request_wf r"
proof (induction ws b rule: dma.induct)
  case (2 i m ws b)
  have "\<forall>r \<in> set (b[i := m]). request_wf r"
    using 2(2,3) set_update_subset_insert [of b i m] by auto
  with 2 show ?case by simp
qed simp

lemma ext_leaves_store: "steps leaves_store (ext c) s"
  unfolding steps_def
proof (intro allI impI)
  fix a s' assume "ext c s = Return (a, s')"
  then obtain rs where s: "script s = a # rs" "s' = s\<lparr>script := rs, trace := trace s @ [(c, a)],
      rx := dma (rep_dma a) (rx s), errno := rep_errno a\<rparr>" by (auto simp: ext_returns)
  have "\<forall>r \<in> set (dma (rep_dma a) (rx s)). request_wf r" if "inputs_sound s"
    using that s(1) by (intro dma_wf) (auto simp: inputs_sound_def dma_sound_def)
  then show "leaves_store s s'"
    using s by (auto simp: leaves_store_def inputs_sound_def)
qed

interpretation calm: worker_relation leaves_store
proof
  fix s t u :: server and c and f g
  show "leaves_store s s" by (simp add: leaves_store_def)
  show "leaves_store s t \<Longrightarrow> leaves_store t u \<Longrightarrow> leaves_store s u" by (simp add: leaves_store_def)
  show "steps leaves_store (ext c) s" by (rule ext_leaves_store)
  show "steps leaves_store (upd_client f) s" "steps leaves_store (upd_ud_server g) s"
    by (simp_all add: steps_def leaves_store_def inputs_sound_def cmd_run)
qed

lemma compare_ends: "strcmp a b \<noteq> Diverges"
  by (induction a b rule: strcmp.induct) simp_all

lemma clift_ends: "v \<noteq> Diverges \<Longrightarrow> ends (clift v) s"
  by (cases v) (simp_all add: ends_def clift_def)

lemma state_ends:
  "ends (upd_response h) s" "ends (upd_client f) s" "ends (upd_ud_server g) s" "ends (pointee p) s'"
  "ends (lkey mr) s'" "ends tcp_client s" "ends rc_client s" "ends uc_client s" "ends ud_client s"
  "ends (upd_ud k) s" "ends (request_at i) s" "ends (index xs j) s" "ends ud_mutex_lock s" "ends ud_mutex_unlock s"
proof -
  have p: "ends (pointee p) s" for p and s :: 's
    unfolding pointee_def by (intro ends_intros)
  show "ends (pointee p) s'" by (rule p)
  show "ends (lkey mr) s'" unfolding lkey_def by (intro ends_intros)
  show u: "ends (upd_client f) s" for f s
    unfolding upd_client_def by (intro ends_intros)
  show "ends (upd_response h) s" unfolding upd_response_def by (rule u)
  show v: "ends (upd_ud_server g) s" for g s unfolding upd_ud_server_def by (intro ends_intros)
  show "ends tcp_client s" "ends rc_client s" "ends uc_client s" and d: "ends ud_client s"
    unfolding tcp_client_def rc_client_def uc_client_def ud_client_def by (intro ends_intros p)+
  show "ends (upd_ud k) s" unfolding upd_ud_def by (intro ends_intros d u)
  show "ends (request_at i) s" "ends (index xs j) s"
    unfolding request_at_def index_def by (intro ends_intros clift_ends; simp add: array_get_def)+
  show "ends ud_mutex_lock s" "ends ud_mutex_unlock s"
    unfolding ud_mutex_lock_def ud_mutex_unlock_def by (intro ends_intros v)+
qed

lemma post_ends:
  "ends (post_recieve z w q b) s" "ends (post_send z w q m) s" "ends (ud_post_send z w q m a n) s"
  unfolding post_recieve_def post_send_def ud_post_send_def by (intro ends_intros)+

lemmas server_ends = ends_intros state_ends post_ends process_work_completion_events_ends

lemma transport_ends:
  "ends prepare_for_next_request s" "ends receive_header s" "ends get_current_request s"
  "ends ready_for_next_request s" "ends send_response_to_client s" "ends is_connection_closed s"
  unfolding prepare_for_next_request_def rc_post_receive_request_def uc_post_receive_request_def
    receive_header_def connection_ready_def tcp_read_header_def rc_receive_header_def uc_receive_header_def
    ud_receive_header_def get_current_request_def ready_for_next_request_def ud_post_receive_request_def
    send_response_to_client_def tcp_send_response_def rc_send_response_def uc_send_response_def
    ud_send_response_def is_connection_closed_def
  by (cases "ci_type (client s)"; intro server_ends; (simp add: cmd_run; intro server_ends)?)+

lemma send_ends: "ends (send_response c n p) s"
  unfolding send_response_def
  by (intro server_ends transport_ends clift_ends) (simp add: memcpy_def)

lemma dispatcher_ends: "ends request_dispatcher s"
proof -
  have setopt: "ends (setopt_request r) s" for r s
    unfolding setopt_request_def by (intro server_ends send_ends clift_ends compare_ends)
  have "ends (case req_method r of PING \<Rightarrow> cbind ping (\<lambda>ignored. cret ())
     | EXIT \<Rightarrow> cbind (send_response OK 0 None) (\<lambda>ignored. exit_process 0)
     | SETOPT \<Rightarrow> cbind (setopt_request r) (\<lambda>ignored. cret ())
     | UNK \<Rightarrow> cbind (send_response PARSING_ERROR 0 None) (\<lambda>ignored. cret ())
     | _ \<Rightarrow> cret ()) s" for r s
    unfolding ping_def by (cases "req_method r"; simp; intro server_ends send_ends setopt)
  then show ?thesis unfolding request_dispatcher_def by (intro server_ends transport_ends)
qed

lemma receive_ends: "ends recv_request s"
  unfolding recv_request_def take_request_def by (intro server_ends transport_ends dispatcher_ends)

definition worker_sound :: "server \<Rightarrow> bool" where
  "worker_sound s \<longleftrightarrow> store_good (store s) \<and> inputs_sound s"

lemma leaves_sound: "leaves_store s s' \<Longrightarrow> worker_sound s \<Longrightarrow> worker_sound s'"
  by (simp add: leaves_store_def worker_sound_def)

text \<open>The part of a turn that touches the store.\<close>

lemma on_store_sound:
  assumes "worker_sound s" and "request_wf r"
  shows "ends (on_store (serve_request w oks r zero_response)) s"
    and "on_store (serve_request w oks r zero_response) s = Return (x, s') \<Longrightarrow> worker_sound s'"
proof -
  from serve_request_good [OF _ assms(2), of "store s" w oks] assms(1)
  have g: "keeps_good (serve_request w oks r zero_response (store s))" by (simp add: worker_sound_def)
  then show "ends (on_store (serve_request w oks r zero_response)) s"
    by (auto simp: keeps_good_def on_store_def ends_def)
  show "on_store (serve_request w oks r zero_response) s = Return (x, s') \<Longrightarrow> worker_sound s'"
    using g assms(1) by (auto simp: keeps_good_def on_store_def worker_sound_def inputs_sound_def)
qed

lemma request_at_wf:
  "request_at i s = Return (r, s') \<Longrightarrow> inputs_sound s \<Longrightarrow> s' = s \<and> request_wf r"
  by (auto simp: request_at_def inputs_sound_def cmd_run clift_def array_get_def obind_eq_Return split: if_splits)

text \<open>\<open>sound_run m s\<close>: from \<open>s\<close>, \<open>m\<close> ends, and in a worker_sound state if it returns.\<close>

definition sound_run :: "(server, 'a) cmd \<Rightarrow> server \<Rightarrow> bool" where
  "sound_run m s \<longleftrightarrow> ends m s \<and> (\<forall>a s'. m s = Return (a, s') \<longrightarrow> worker_sound s')"

lemma sound_calm:
  "worker_sound s \<Longrightarrow> ends m s \<Longrightarrow> steps leaves_store m s \<Longrightarrow> sound_run m s"
  by (auto simp: sound_run_def steps_def intro: leaves_sound [of s])

lemma sound_bind:
  assumes "sound_run m s" and "\<And>a s'. m s = Return (a, s') \<Longrightarrow> worker_sound s' \<Longrightarrow> sound_run (f a) s'"
  shows "sound_run (cbind m f) s"
  unfolding sound_run_def
proof
  show "ends (cbind m f) s"
  proof (rule ends_cbind)
    show "ends m s" using assms(1) by (simp add: sound_run_def)
    show "ends (f a) s'" if "m s = Return (a, s')" for a s'
      using assms that by (simp add: sound_run_def)
  qed
  show "\<forall>a s'. cbind m f s = Return (a, s') \<longrightarrow> worker_sound s'"
    using assms by (fastforce simp: sound_run_def cbind_eq_Return)
qed

lemma sound_seq:
  "sound_run m s \<Longrightarrow> (\<And>a s'. m s = Return (a, s') \<Longrightarrow> worker_sound s' \<Longrightarrow> sound_run n s') \<Longrightarrow> sound_run (cseq m n) s"
  by (simp add: cseq_def sound_bind)

lemma serve_sound:
  assumes "worker_sound s" and "ci_response (client s) = zero_response" and "inputs_sound s \<Longrightarrow> request_wf r"
  shows "sound_run (on_store (serve_request w oks r (ci_response (client s)))) s"
proof -
  have wf: "request_wf r" using assms(1,3) by (simp add: worker_sound_def)
  show ?thesis
    unfolding sound_run_def assms(2) using on_store_sound [OF assms(1) wf] by blast
qed

lemma answer_sound:
  assumes "worker_sound s"
  shows "sound_run (answer_request oks i) s"
  unfolding answer_request_def
proof (rule sound_bind, goal_cases)
  case 1
  show ?case by (intro sound_calm assms state_ends calm.state)
next
  case (2 r s1)
  show ?case
  proof (rule sound_seq, goal_cases)
    case 1
    show ?case by (intro sound_calm 2 ends_intros transport_ends calm.guard calm.transport)
  next
    case (2 u s2)
    show ?case
    proof (rule sound_seq, goal_cases)
      case 1
      show ?case by (intro sound_calm 2 state_ends calm.state)
    next
      case 3: (2 v s3)
      then have zero: "ci_response (client s3) = zero_response" by (auto simp: cmd_run)
      show ?case
      proof (rule sound_bind, goal_cases)
        case 1
        show ?case by (intro sound_calm 3(2) state_ends calm.state)
      next
        case 4: (2 q s4)
        then have q: "s4 = s3" "request_wf q" using request_at_wf 3(2) by (auto simp: worker_sound_def)
        have served: "sound_run (on_store (serve_request (me s3) oks q (ci_response (client s3)))) s3"
          using 3(2) zero q by (intro serve_sound)
        have rest: "sound_run (cseq (upd_response (\<lambda>r. x)) (cbind send_response_to_client (\<lambda>ignored.
            cbind is_connection_closed (\<lambda>closed. cret (if closed then Close else Continue))))) t" if "worker_sound t" for x t
          by (intro sound_calm that ends_intros state_ends transport_ends calm.intros calm.state calm.transport)
        show ?case
          using sound_bind [OF served rest] unfolding q(1) by (simp add: sound_run_def ends_def cmd_run)
      qed
    qed
  qed
qed

lemma round_sound:
  assumes "worker_sound s"
  shows "sound_run (job_round oks) s"
  unfolding job_round_def
proof (rule sound_bind, goal_cases)
  case 1
  show ?case by (intro sound_calm assms transport_ends calm.transport)
next
  case (2 n s1)
  show ?case
  proof (rule sound_bind, goal_cases)
    case 1
    show ?case by (intro sound_calm 2 receive_ends calm.receive)
  next
    case 3: (2 current s2)
    show ?case
      using 3(2) answer_sound [OF 3(2)]
      by (cases current) (auto simp: sound_run_def ends_def cmd_run)
  qed
qed

lemma loop_sound:
  "worker_sound s \<Longrightarrow> length (script s) < fuel \<Longrightarrow> sound_run (job_loop fuel oks) s"
proof (induction fuel arbitrary: s)
  case (Suc fuel)
  show ?case
    unfolding job_loop.simps
  proof (rule sound_bind [OF round_sound [OF Suc.prems(1)]])
    fix res s' assume s': "job_round oks s = Return (res, s')" "worker_sound s'"
    show "sound_run (if res = Continue then job_loop fuel oks else cret res) s'"
    proof (cases "res = Continue")
      case True
      with round_calls [OF s'(1)] Suc.prems(2) s'(2) show ?thesis by (simp add: Suc.IH)
    next
      case False
      with s'(2) show ?thesis by (simp add: sound_run_def ends_def cmd_run)
    qed
  qed
qed simp

section \<open>Every turn calls the outside\<close>







section \<open>The loop ends\<close>

lemma clear_sound:
  assumes "worker_sound s"
  shows "sound_run clear_close_flag s" and "clear_close_flag s = Return ((), s') \<Longrightarrow> script s' = script s"
proof -
  have put: "worker_sound (s\<lparr>rx := (rx s)[0 := r\<lparr>req_connection_close := 0\<rparr>]\<rparr>)" if "request_wf r" for r
    using assms that set_update_subset_insert [of "rx s" 0 "r\<lparr>req_connection_close := 0\<rparr>"]
    by (auto simp: worker_sound_def inputs_sound_def request_wf_def)
  have "ends clear_close_flag s" unfolding clear_close_flag_def by (intro ends_intros state_ends)
  moreover have "worker_sound s' \<and> script s' = script s" if r: "clear_close_flag s = Return (u, s')" for u s'
  proof (cases "ci_type (client s) = UD")
    case True
    with r assms show ?thesis by (simp add: clear_close_flag_def cmd_run)
  next
    case False
    with r obtain q s1 where q: "request_at 0 s = Return (q, s1)"
      "s' = s1\<lparr>rx := (rx s1)[0 := q\<lparr>req_connection_close := 0\<rparr>]\<rparr>"
      by (auto simp: clear_close_flag_def cbind_eq_Return cmd_run)
    have "s1 = s" "request_wf q" using request_at_wf [OF q(1)] assms by (auto simp: worker_sound_def)
    with q(2) put show ?thesis by simp
  qed
  ultimately show "sound_run clear_close_flag s"
    and "clear_close_flag s = Return ((), s') \<Longrightarrow> script s' = script s"
    unfolding sound_run_def by blast+
qed

text \<open>
  C5: a worker never spins. From a well-formed table, whatever the requests contain (keys without an end
  and lengths beyond the buffers included), whatever the outside replies and whichever allocations of a
  reset fail, \<open>main_job\<close> does not run for ever without an external call: it returns, ends the process,
  waits for the outside or does something undefined, for every length of the script.
\<close>

theorem worker_never_spins:
  assumes "store_good (store s)" and "inputs_sound s"
  shows "main_job oks s \<noteq> Diverges"
proof -
  have s: "worker_sound s" using assms by (simp add: worker_sound_def)
  have loop: "ends (\<lambda>s. job_loop (Suc (length (script s))) oks s) t" if "worker_sound t" for t
    using loop_sound [OF that, of "Suc (length (script t))" oks] unfolding sound_run_def ends_def by blast
  have "ends (main_job oks) s"
    unfolding main_job_def close_connection_def
  proof (intro ends_cseq ends_cbind ends_if ends_basic ends_ext state_ends loop)
    show "ends clear_close_flag s" using clear_sound(1) [OF s] by (simp add: sound_run_def)
    show "worker_sound s'" if "clear_close_flag s = Return (a, s')" for a s'
      using clear_sound(1) [OF s] that by (simp add: sound_run_def)
  qed
  then show ?thesis by (simp add: ends_def)
qed

text \<open>The witness: a client whose first request has a key without an end and lengths beyond its buffers.\<close>

theorem worker_never_spins_witness:
  "main_job (True, True, False) (sample_server sample_tcp REQUEST_BACKLOG
     [returned 1, transferred sizeof_request [(0, zero_request\<lparr>req_method := SET,
        req_key := replicate KEY_SIZE 65, req_key_len := 1000, req_msg_len := 1000\<rparr>)]]) \<noteq> Diverges"
    (is "main_job _ ?s \<noteq> _")
proof (rule worker_never_spins)
  show "store_good (store ?s)"
    using start_stores represents_good by (auto simp: stores_def)
  show "inputs_sound ?s"
    by (simp add: inputs_sound_def dma_sound_def request_wf_def zero_request_def)
qed

end
