(* ===== verification/KV_Concurrent.thy ===== *)
theory KV_Concurrent
  imports KV_Properties
begin

text \<open>
  The requests of \<^verbatim>\<open>src/server/kvstore.c\<close> when several worker threads run them at the same
  time. \<open>set_request\<close>, \<open>get_request\<close> and \<open>del_request\<close> are cut into the steps that touch the shared
  memory: the lock operations, every access to an item and every node \<open>search\<close> visits. A schedule picks
  the thread of each step.

  A thread that finds the mutex of a bucket held stays where it is, as \<open>pthread_mutex_lock\<close> makes it wait;
  the steps of a thread with the mutex are \<open>Entered\<close> to \<open>Leaving\<close>. Two parts that run with the mutex are
  one step each: the creation of an item, \<open>new_entry\<close>, which writes memory that no other thread can reach
  and the \<open>prev\<close> of the old head, which no SET or GET reads, before it publishes the item by its last write,
  and \<open>delete_entry\<close>. The memory is sequentially consistent.

  A thread that runs alone does what \<open>serve_request\<close> says (\<open>serve_alone\<close>, \<open>interleave_alone\<close>); the
  invariant of all threads together is in the theories that follow.
\<close>

section \<open>Steps of a request\<close>

datatype pc =
    Start
  | Entering nat
  | Entered nat
  | Seeking nat "addr option" "addr option"
  | Adding nat "addr option"
  | Deleting nat addr
  | Leaving nat pc
  | Locking addr
  | Allocating addr
  | Filling addr addr
  | Sizing addr
  | Unlocking addr
  | Walking "addr option"
  | Reading addr
  | Copying addr
  | Releasing addr response
  | Answered response

abbreviation key_error :: response where
  "key_error \<equiv> zero_response\<lparr>resp_code := KEY_ERROR\<rparr>"

text \<open>One turn of the loop of \<open>search\<close>: does the key of item \<open>a\<close> match, and which item is next?\<close>

definition visit :: "request \<Rightarrow> addr \<Rightarrow> (memory, bool \<times> addr option) cmd" where
  "visit r a =
     cbind (item a) (\<lambda>it s.
     obind (read_buf (item_key it) s) (\<lambda>k.
     obind (strncmp k (req_key r) (unat (req_key_len r))) (\<lambda>x. Return ((x = 0, item_next it), s))))"

text \<open>Where \<open>get_key_entry\<close> and \<open>remove_item\<close> go on from the result of their \<open>search\<close>.\<close>

definition sought :: "request \<Rightarrow> nat \<Rightarrow> addr option \<Rightarrow> addr option \<Rightarrow> pc" where
  "sought r bucket item_head found =
     (case found of
        None \<Rightarrow> if req_method r = SET then Adding bucket item_head else Leaving bucket (Answered key_error)
      | Some e \<Rightarrow> if req_method r = SET then Leaving bucket (Locking e) else Deleting bucket e)"

text \<open>A call that waits leaves the memory and the point of the thread as they are.\<close>

definition await :: "(memory, unit) cmd \<Rightarrow> 'a \<Rightarrow> 'a \<Rightarrow> (memory, 'a) cmd" where
  "await c again after s = (case c s of Blocked \<Rightarrow> Return (again, s) | _ \<Rightarrow> cseq c (cret after) s)"

definition micro :: "tid \<Rightarrow> request \<Rightarrow> pc \<Rightarrow> (memory, pc) cmd" where
  "micro me r pc =
     (case pc of
        Start \<Rightarrow>
          (case req_method r of
             SET \<Rightarrow> cbind (get_bucket (req_key r)) (\<lambda>bucket. cret (Entering bucket))
           | DEL \<Rightarrow> cbind (get_bucket (req_key r)) (\<lambda>bucket. cret (Entering bucket))
           | GET \<Rightarrow>
               cbind (get_bucket (req_key r)) (\<lambda>bucket.
               cbind the_ht (\<lambda>t.
               cbind (clift (array_get (ht_items t) bucket)) (\<lambda>current. cret (Walking current))))
           | _ \<Rightarrow> cbind (serve_request me (True, True, True) r zero_response) (\<lambda>resp. cret (Answered resp)))
      | Entering bucket \<Rightarrow> await (mutex_lock bucket) (Entering bucket) (Entered bucket)
      | Entered bucket \<Rightarrow>
          cbind the_ht (\<lambda>t.
          cbind (clift (array_get (ht_items t) bucket)) (\<lambda>item_head.
          cbind (get_bucket (req_key r)) (\<lambda>bucket'.
          cbind (clift (array_get (ht_items t) bucket')) (\<lambda>current.
            cret (Seeking bucket item_head current)))))
      | Seeking bucket item_head None \<Rightarrow> cret (sought r bucket item_head None)
      | Seeking bucket item_head (Some a) \<Rightarrow>
          cbind (visit r a) (\<lambda>(found, p).
            cret (if found then sought r bucket item_head (Some a) else Seeking bucket item_head p))
      | Adding bucket item_head \<Rightarrow>
          cbind (new_entry bucket item_head (req_key r) (req_key_len r)) (\<lambda>entry.
            cret (Leaving bucket (Locking entry)))
      | Deleting bucket a \<Rightarrow>
          cbind (delete_entry me bucket a) (\<lambda>x.
            cret (Leaving bucket (Answered
              (if x < 0 then key_error else zero_response\<lparr>resp_code := OK\<rparr>))))
      | Leaving bucket pc \<Rightarrow> cseq (mutex_unlock bucket) (cret pc)
      | Locking e \<Rightarrow>
          cbind (rwlock_trywrlock me e) (\<lambda>x. cret (if x \<noteq> 0 then Answered key_error else Allocating e))
      | Allocating e \<Rightarrow>
          cbind (malloc_buf MSG_SIZE) (\<lambda>v.
          cseq (upd_item (Some e) (\<lambda>it. it\<lparr>item_value := Some v\<rparr>)) (cret (Filling e v)))
      | Filling e v \<Rightarrow>
          cseq (write_buf (Some v) (\<lambda>b. memcpy b (req_msg r) (unat (req_msg_len r)))) (cret (Sizing e))
      | Sizing e \<Rightarrow>
          cseq (upd_item (Some e) (\<lambda>it. it\<lparr>item_value_size := req_msg_len r\<rparr>)) (cret (Unlocking e))
      | Unlocking e \<Rightarrow>
          cseq (rwlock_unlock me e) (cret (Answered (zero_response\<lparr>resp_code := OK\<rparr>)))
      | Walking None \<Rightarrow> cret (Answered key_error)
      | Walking (Some a) \<Rightarrow>
          cbind (visit r a) (\<lambda>(found, p). cret (if found then Reading a else Walking p))
      | Reading a \<Rightarrow>
          cbind (rwlock_tryrdlock me a) (\<lambda>x. cret (if x \<noteq> 0 then Answered key_error else Copying a))
      | Copying a \<Rightarrow>
          cbind (item a) (\<lambda>it.
          cbind (copy_value it (resp_msg zero_response)) (\<lambda>msg.
            cret (Releasing a (zero_response\<lparr>resp_code := OK, resp_msg := msg,
                                             resp_msg_len := item_value_size it\<rparr>))))
      | Releasing a resp \<Rightarrow> cseq (rwlock_unlock me a) (cret (Answered resp))
      | Answered resp \<Rightarrow> cret (Answered resp))"

text \<open>
  A thread has the requests its client is still to send, the one it serves first, the point it has
  reached in it, and the answers it gave. \<open>advance\<close> is one step of a thread, \<open>interleave\<close> runs a
  schedule, which names the thread of each step.
\<close>

record thread =
  queue :: "request list"
  point :: pc
  answers :: "(request \<times> response) list"

type_synonym config = "memory \<times> (tid \<Rightarrow> thread)"

definition idle :: "request list \<Rightarrow> thread" where
  "idle rs = \<lparr>queue = rs, point = Start, answers = []\<rparr>"

definition advance :: "tid \<Rightarrow> config \<Rightarrow> config outcome" where
  "advance t c =
     (let th = snd c t
      in case queue th of
           [] \<Rightarrow> Return c
         | r # rs \<Rightarrow>
             (case point th of
                Answered resp \<Rightarrow>
                  Return (fst c, (snd c)(t := \<lparr>queue = rs, point = Start, answers = answers th @ [(r, resp)]\<rparr>))
              | pc \<Rightarrow> obind (micro t r pc (fst c)) (\<lambda>(pc', s).
                       Return (s, (snd c)(t := th\<lparr>point := pc'\<rparr>)))))"

fun run_schedule :: "('i \<Rightarrow> 'c \<Rightarrow> 'c outcome) \<Rightarrow> 'i list \<Rightarrow> 'c \<Rightarrow> 'c outcome" where
  "run_schedule step [] c = Return c"
| "run_schedule step (t # ts) c = obind (step t c) (run_schedule step ts)"

definition interleave :: "tid list \<Rightarrow> config \<Rightarrow> config outcome" where
  "interleave ts c = run_schedule advance ts c"

lemma run_schedule_append:
  "run_schedule step (ts @ us) c = obind (run_schedule step ts c) (run_schedule step us)"
proof (induction ts arbitrary: c)
  case (Cons t ts)
  then have "(\<lambda>c. run_schedule step (ts @ us) c) = (\<lambda>c. obind (run_schedule step ts c) (run_schedule step us))"
    by blast
  then show ?case by (simp add: obind_assoc)
qed simp

lemma interleave_simps [simp]:
  "interleave [] c = Return c"
  "interleave (t # ts) c = obind (advance t c) (interleave ts)"
  by (simp_all add: interleave_def [abs_def])

lemma interleave_append: "interleave (ts @ us) c = obind (interleave ts c) (interleave us)"
  by (simp add: interleave_def [abs_def] run_schedule_append)

lemma advance_work:
  "queue (ts t) = r # rs \<Longrightarrow> \<forall>resp. point (ts t) \<noteq> Answered resp \<Longrightarrow>
     advance t (s, ts) = obind (micro t r (point (ts t)) s) (\<lambda>(pc', s).
       Return (s, ts(t := (ts t)\<lparr>point := pc'\<rparr>)))"
  by (cases "point (ts t)") (simp_all add: advance_def Let_def)

lemma advance_answer:
  "queue (ts t) = r # rs \<Longrightarrow> point (ts t) = Answered resp \<Longrightarrow>
     advance t (s, ts) =
       Return (s, ts(t := \<lparr>queue = rs, point = Start, answers = answers (ts t) @ [(r, resp)]\<rparr>))"
  by (simp add: advance_def Let_def)

lemma advance_idle: "queue (ts t) = [] \<Longrightarrow> advance t (s, ts) = Return (s, ts)"
  by (simp add: advance_def Let_def)

section \<open>A thread on its own\<close>

text \<open>\<open>alone me r (pc, s) k (pc', s')\<close>: \<open>k\<close> steps of the thread, none of them after its answer.\<close>

definition answered :: "pc \<Rightarrow> bool" where
  "answered pc = (case pc of Answered resp \<Rightarrow> True | _ \<Rightarrow> False)"

lemma answered_simps [simp]:
  "answered (Answered resp)" "\<not> answered Start" "\<not> answered (Entering b)" "\<not> answered (Entered b)"
  "\<not> answered (Seeking b h p)" "\<not> answered (Adding b h)" "\<not> answered (Deleting b a)"
  "\<not> answered (Leaving b pc)" "\<not> answered (Locking a)" "\<not> answered (Allocating a)"
  "\<not> answered (Filling a v)" "\<not> answered (Sizing a)" "\<not> answered (Unlocking a)" "\<not> answered (Walking p)"
  "\<not> answered (Reading a)" "\<not> answered (Copying a)" "\<not> answered (Releasing a resp)"
  by (simp_all add: answered_def)

fun alone :: "tid \<Rightarrow> request \<Rightarrow> nat \<Rightarrow> pc \<times> memory \<Rightarrow> (pc \<times> memory) outcome" where
  "alone me r 0 x = Return x"
| "alone me r (Suc k) (pc, s) =
     (if answered pc then Return (pc, s) else obind (micro me r pc s) (alone me r k))"

lemma alone_step:
  assumes "micro me r pc s = Return (pc', s')" and "\<not> answered pc"
    and "\<exists>k. alone me r k (pc', s') = Return y"
  shows "\<exists>k. alone me r k (pc, s) = Return y"
proof -
  from assms(3) obtain k where "alone me r k (pc', s') = Return y" ..
  with assms(1,2) have "alone me r (Suc k) (pc, s) = Return y" by simp
  then show ?thesis ..
qed

lemma alone_trans:
  "alone me r k x = Return y \<Longrightarrow> \<exists>l. alone me r l y = Return z \<Longrightarrow> \<exists>n. alone me r n x = Return z"
proof (induction me r k x rule: alone.induct)
  case (2 me r k pc s)
  then show ?case
    by (cases "answered pc") (auto simp: obind_eq_Return intro: alone_step)
qed simp

lemma alone_done: "\<exists>k. alone me r k x = Return x"
  by (rule exI [of _ 0]) simp

lemma visit_eq_Return:
  "visit r a s = Return (x, s') \<longleftrightarrow>
     (\<exists>it k y. deref (Some a) s = Return it \<and> read_buf (item_key it) s = Return k \<and>
        strncmp k (req_key r) (unat (req_key_len r)) = Return y \<and> x = (y = 0, item_next it) \<and> s' = s)"
  by (auto simp: visit_def cbind_eq_Return item_def obind_eq_Return)

text \<open>
  The loop of \<open>search\<close>, one node in a step: \<open>at p\<close> is the point before node \<open>p\<close>, \<open>goto x\<close> where the
  thread goes on from the result \<open>x\<close>.
\<close>

lemma loop_alone:
  assumes "\<And>p. \<not> answered (at p)" and "micro me r (at None) s = Return (goto None, s)"
    and "\<And>a. micro me r (at (Some a)) s =
      cbind (visit r a) (\<lambda>(found, q). cret (if found then goto (Some a) else at q)) s"
  shows "search_loop fuel s (req_key r) (unat (req_key_len r)) p = Return x \<Longrightarrow>
     \<exists>k. alone me r k (at p, s) = Return (goto x, s)"
proof (induction fuel arbitrary: p)
  case (Suc fuel)
  show ?case
  proof (cases p)
    case None
    with Suc.prems show ?thesis using alone_step [OF assms(2) _ alone_done] assms(1) by simp
  next
    case (Some a)
    with Suc.prems obtain it k y where a: "deref (Some a) s = Return it"
      "read_buf (item_key it) s = Return k"
      "strncmp k (req_key r) (unat (req_key_len r)) = Return y"
      "(if y = 0 then Return (Some a) else search_loop fuel s (req_key r) (unat (req_key_len r)) (item_next it))
         = Return x"
      by (auto simp: obind_eq_Return)
    then have "visit r a s = Return ((y = 0, item_next it), s)" by (simp add: visit_eq_Return)
    then have m: "micro me r (at p) s = Return (if y = 0 then goto (Some a) else at (item_next it), s)"
      using assms(3) [of a] Some by (simp add: cbind_run cret_run)
    have "\<exists>k. alone me r k (if y = 0 then goto (Some a) else at (item_next it), s) = Return (goto x, s)"
      using a(4) Suc.IH alone_done by (cases "y = 0") auto
    from alone_step [OF m _ this] assms(1) show ?thesis by simp
  qed
qed simp

lemma walk_alone:
  "search_loop fuel s (req_key r) (unat (req_key_len r)) p = Return x \<Longrightarrow>
     \<exists>k. alone me r k (Walking p, s) =
       Return (case x of None \<Rightarrow> Answered key_error | Some a \<Rightarrow> Reading a, s)"
  by (rule loop_alone) (simp_all add: micro_def cret_run cong: if_cong)

lemma seek_alone:
  "search_loop fuel s (req_key r) (unat (req_key_len r)) p = Return x \<Longrightarrow>
     \<exists>k. alone me r k (Seeking b h p, s) = Return (sought r b h x, s)"
  by (rule loop_alone [where goto = "sought r b h"]) (simp_all add: micro_def cret_run)

lemma get_bucket_state: "get_bucket key s = Return (b, s') \<Longrightarrow> s' = s"
  by (auto simp: get_bucket_def cbind_eq_Return clift_def cret_def the_ht_def obind_eq_Return
      split: ht_pointer.splits if_splits)

lemma the_ht_state: "the_ht s = Return (t, s') \<Longrightarrow> s' = s"
  by (auto simp: the_ht_def split: ht_pointer.splits)

lemma search_parts:
  assumes "search key n s = Return (x, s')"
  obtains b t where "s' = s" "get_bucket key s = Return (b, s)" "the_ht s = Return (t, s)"
    "b < length (ht_items t)" "search_loop (Suc (fresh s)) s key (unat n) (ht_items t ! b) = Return x"
proof -
  from assms obtain b s1 t s2 where b: "get_bucket key s = Return (b, s1)" "the_ht s1 = Return (t, s2)"
    "cbind (clift (array_get (ht_items t) b)) (\<lambda>current s.
       obind (search_loop (Suc (fresh s)) s key (unat n) current) (\<lambda>r. Return (r, s))) s2 = Return (x, s')"
    by (auto simp: search_def cbind_eq_Return)
  have "s1 = s" "s2 = s" using b(1,2) get_bucket_state the_ht_state by blast+
  moreover have "b < length (ht_items t)"
    using b(3) by (auto simp: cbind_eq_Return clift_def array_get_def split: if_splits)
  ultimately show ?thesis
    using b that by (auto simp: cbind_def clift_def obind_eq_Return)
qed

lemma get_alone:
  assumes "req_method r = GET" and "get_request me r zero_response s = Return (resp, s')"
  shows "\<exists>k. alone me r k (Start, s) = Return (Answered resp, s')"
proof -
  from assms(2) obtain x s1 where x: "search (req_key r) (req_key_len r) s = Return (x, s1)"
    "get_request me r zero_response s = (case x of None \<Rightarrow> cret (zero_response\<lparr>resp_code := KEY_ERROR\<rparr>)
     | Some a \<Rightarrow>
         cbind (rwlock_tryrdlock me a) (\<lambda>y.
         if y \<noteq> 0 then cret (zero_response\<lparr>resp_code := KEY_ERROR\<rparr>)
         else
           cbind (item a) (\<lambda>it.
           cbind (copy_value it (resp_msg zero_response)) (\<lambda>msg.
           cseq (rwlock_unlock me a)
             (cret (zero_response\<lparr>resp_code := OK, resp_msg := msg, resp_msg_len := item_value_size it\<rparr>)))))) s1"
    unfolding get_request_def by (auto simp: cbind_eq_Return cbind_def obind_eq_Return)
  from x(1) obtain b t where b: "s1 = s" "get_bucket (req_key r) s = Return (b, s)" "the_ht s = Return (t, s)"
    "b < length (ht_items t)"
    "search_loop (Suc (fresh s)) s (req_key r) (unat (req_key_len r)) (ht_items t ! b) = Return x"
    by (rule search_parts)
  have start: "micro me r Start s = Return (Walking (ht_items t ! b), s)"
    using assms(1) b by (simp add: micro_def cmd_run)
  from walk_alone [OF b(5), of me] obtain k where k: "alone me r k (Walking (ht_items t ! b), s) =
      Return (case x of None \<Rightarrow> Answered key_error | Some a \<Rightarrow> Reading a, s)" ..
  have "\<exists>k. alone me r k (case x of None \<Rightarrow> Answered key_error | Some a \<Rightarrow> Reading a, s)
      = Return (Answered resp, s')"
  proof (cases x)
    case None
    then show ?thesis using x(2) assms(2) b(1) alone_done by (simp add: cmd_run)
  next
    case (Some a)
    have body: "cbind (rwlock_tryrdlock me a) (\<lambda>y.
         if y \<noteq> 0 then cret (zero_response\<lparr>resp_code := KEY_ERROR\<rparr>)
         else
           cbind (item a) (\<lambda>it.
           cbind (copy_value it (resp_msg zero_response)) (\<lambda>msg.
           cseq (rwlock_unlock me a)
             (cret (zero_response\<lparr>resp_code := OK, resp_msg := msg, resp_msg_len := item_value_size it\<rparr>))))) s
       = Return (resp, s')"
      using x(2) assms(2) b(1) Some by simp
    then obtain y s2 where y: "rwlock_tryrdlock me a s = Return (y, s2)" by (auto simp: cbind_eq_Return)
    show ?thesis
    proof (cases "y = 0")
      case False
      then show ?thesis using body y Some
        by (auto simp: cmd_run micro_def intro: alone_step [of me r "Reading a" s "Answered resp" s'] alone_done)
    next
      case True
      with body y obtain it s3 msg s4 s5 where "item a s2 = Return (it, s3)"
        "copy_value it (resp_msg zero_response) s3 = Return (msg, s4)"
        "rwlock_unlock me a s4 = Return ((), s5)" "s5 = s'"
        "resp = zero_response\<lparr>resp_code := OK, resp_msg := msg, resp_msg_len := item_value_size it\<rparr>"
        by (auto simp: cbind_eq_Return cseq_eq_Return cret_def cbind_def [of "rwlock_tryrdlock me a"])
      with y True have m:
        "micro me r (Reading a) s = Return (Copying a, s2)"
        "micro me r (Copying a) s2 = Return (Releasing a resp, s4)"
        "micro me r (Releasing a resp) s4 = Return (Answered resp, s')"
        by (simp_all add: micro_def cmd_run)
      have "\<exists>k. alone me r k (Reading a, s) = Return (Answered resp, s')"
        by (rule alone_step [OF m(1) _ alone_step [OF m(2) _ alone_step [OF m(3) _ alone_done]]]) simp_all
      then show ?thesis using Some by simp
    qed
  qed
  from alone_step [OF start _ alone_trans [OF k this]] show ?thesis by simp
qed

text \<open>What \<open>get_key_entry\<close> and \<open>remove_item\<close> have in common: the mutex, the search, the mutex again.\<close>

lemma mutex_lock_eq_Return:
  "mutex_lock b s = Return (x, s') \<longleftrightarrow>
     (\<exists>t. ht s = Ht_live t \<and> b < length (ht_locks t) \<and> \<not> ht_locks t ! b \<and>
        s' = s\<lparr>ht := Ht_live (t\<lparr>ht_locks := (ht_locks t)[b := True]\<rparr>)\<rparr>)"
  by (cases "ht s") (auto simp: mutex_lock_def the_ht_def array_get_def upd_ht_def cmd_run cbind_def)

lemma mutex_lock_get_bucket:
  assumes "mutex_lock b s = Return ((), s1)"
  shows "get_bucket key s1 = obind (get_bucket key s) (\<lambda>(c, _). Return (c, s1))"
proof (cases "hash key")
  case (Return h)
  with assms show ?thesis by (auto simp: mutex_lock_eq_Return get_bucket_def cmd_run)
qed (simp_all add: get_bucket_def cmd_run)

lemma enter_alone:
  assumes "req_method r = SET \<or> req_method r = DEL" and "get_bucket (req_key r) s = Return (b, s)"
    and "mutex_lock b s = Return ((), s1)" and "search (req_key r) (req_key_len r) s1 = Return (x, s2)"
  shows "s2 = s1" and "\<exists>t. the_ht s1 = Return (t, s1) \<and>
    (\<exists>k. alone me r k (Start, s) = Return (sought r b (ht_items t ! b) x, s1))"
proof -
  from assms(4) obtain b' t where p: "s2 = s1" "get_bucket (req_key r) s1 = Return (b', s1)"
    "the_ht s1 = Return (t, s1)" "b' < length (ht_items t)"
    "search_loop (Suc (fresh s1)) s1 (req_key r) (unat (req_key_len r)) (ht_items t ! b') = Return x"
    by (rule search_parts)
  with mutex_lock_get_bucket [OF assms(3), of "req_key r"] assms(2) have b: "b' = b" by simp
  have m: "micro me r Start s = Return (Entering b, s)" "micro me r (Entering b) s = Return (Entered b, s1)"
    "micro me r (Entered b) s1 = Return (Seeking b (ht_items t ! b) (ht_items t ! b), s1)"
    using assms(1-3) p(2-4) b by (auto simp: micro_def cmd_run await_def)
  have "\<exists>k. alone me r k (Start, s) = Return (sought r b (ht_items t ! b) x, s1)"
    using alone_step [OF m(1) _ alone_step [OF m(2) _ alone_step [OF m(3)]]] seek_alone [OF p(5)] b by simp
  with p show "s2 = s1" "\<exists>t. the_ht s1 = Return (t, s1) \<and>
    (\<exists>k. alone me r k (Start, s) = Return (sought r b (ht_items t ! b) x, s1))" by simp_all
qed

lemma key_entry_leaves:
  assumes set: "req_method r = SET" and e: "get_key_entry (req_key r) (req_key_len r) s = Return (e, s')"
  shows "\<exists>b s1. (\<exists>k. alone me r k (Start, s) = Return (Leaving b (Locking e), s1)) \<and>
    get_bucket (req_key r) s = Return (b, s) \<and> mutex_unlock b s1 = Return ((), s')"
proof -
  from e obtain b s0 s1 t s2 h s3 x s4 s5 where a: "get_bucket (req_key r) s = Return (b, s0)"
    "mutex_lock b s0 = Return ((), s1)" "the_ht s1 = Return (t, s2)"
    "clift (array_get (ht_items t) b) s2 = Return (h, s3)"
    "search (req_key r) (req_key_len r) s3 = Return (x, s4)"
    "(case x of Some e \<Rightarrow> cret e | None \<Rightarrow> new_entry b h (req_key r) (req_key_len r)) s4 = Return (e, s5)"
    "mutex_unlock b s5 = Return ((), s')"
    by (clarsimp simp: get_key_entry_def cbind_eq_Return cseq_eq_Return cret_run)
  have st: "s0 = s" "s2 = s1" using a(1,3) get_bucket_state the_ht_state by blast+
  have "h = ht_items t ! b \<and> b < length (ht_items t) \<and> s3 = s2"
    using a(4) by (auto simp: clift_def array_get_def obind_eq_Return split: if_splits)
  with a(5) st have "search (req_key r) (req_key_len r) s1 = Return (x, s4)" by simp
  note en = enter_alone [OF disjI1 [OF set] a(1) [unfolded st] a(2) [unfolded st] this]
  from en(2) [of me] obtain t' where "the_ht s1 = Return (t', s1)"
    "\<exists>k. alone me r k (Start, s) = Return (sought r b (ht_items t' ! b) x, s1)" by blast
  with en(1) a(3) st \<open>h = _ \<and> _\<close> have s4: "s4 = s1"
    and en: "\<exists>k. alone me r k (Start, s) = Return (sought r b h x, s1)" by auto
  have "\<exists>k. alone me r k (sought r b h x, s1) = Return (Leaving b (Locking e), s5)"
  proof (cases x)
    case None
    then have "micro me r (Adding b h) s1 = Return (Leaving b (Locking e), s5)"
      using a(6) s4 by (simp add: micro_def cmd_run)
    from alone_step [OF this _ alone_done] show ?thesis using None set by (simp add: sought_def)
  next
    case (Some y)
    with a(6) s4 set alone_done show ?thesis by (simp add: sought_def cret_def)
  qed
  with en alone_trans a(1,7) st(1) show ?thesis by blast
qed

lemma key_entry_alone:
  assumes "req_method r = SET" and "get_key_entry (req_key r) (req_key_len r) s = Return (e, s')"
  shows "\<exists>k. alone me r k (Start, s) = Return (Locking e, s')"
proof -
  from key_entry_leaves [OF assms, of me] obtain b s1 where b: "mutex_unlock b s1 = Return ((), s')"
    "\<exists>k. alone me r k (Start, s) = Return (Leaving b (Locking e), s1)" by blast
  have "micro me r (Leaving b (Locking e)) s1 = Return (Locking e, s')" using b(1) by (simp add: micro_def cmd_run)
  from alone_step [OF this _ alone_done] have "\<exists>k. alone me r k (Leaving b (Locking e), s1) = Return (Locking e, s')"
    by simp
  with b(2) alone_trans show ?thesis by blast
qed

lemma del_alone:
  assumes "req_method r = DEL" and "del_request me r zero_response s = Return (resp, s')"
  shows "\<exists>k. alone me r k (Start, s) = Return (Answered resp, s')"
proof -
  from assms(2) obtain y s6 where "remove_item me (req_key r) (req_key_len r) s = Return (y, s6)" "s6 = s'"
    and resp: "resp = (if y < 0 then key_error else zero_response\<lparr>resp_code := OK\<rparr>)"
    by (auto simp: del_request_def cbind_eq_Return cret_def split: if_splits)
  then obtain b s0 s1 x s4 where a: "get_bucket (req_key r) s = Return (b, s0)"
    "mutex_lock b s0 = Return ((), s1)" "search (req_key r) (req_key_len r) s1 = Return (x, s4)"
    "(case x of None \<Rightarrow> cseq (mutex_unlock b) (cret (- 1))
      | Some a \<Rightarrow> cbind (delete_entry me b a) (\<lambda>r. cseq (mutex_unlock b) (cret r))) s4 = Return (y, s')"
    unfolding remove_item_def by (auto simp: cbind_eq_Return cseq_eq_Return)
  have st: "s0 = s" using a(1) get_bucket_state by blast
  note en = enter_alone [OF disjI2 [OF assms(1)] a(1) [unfolded st] a(2) [unfolded st] a(3)]
  from en(2) [of me] obtain t :: hashtable_t where e: "\<exists>k. alone me r k (Start, s) = Return (sought r b (ht_items t ! b) x, s1)" by blast
  note s4 = en(1)
  have "\<exists>k. alone me r k (sought r b (ht_items t ! b) x, s1) = Return (Answered resp, s')"
  proof (cases x)
    case None
    with a(4) s4 resp have "micro me r (Leaving b (Answered resp)) s1 = Return (Answered resp, s')"
      by (auto simp: micro_def cseq_eq_Return cret_def cmd_run)
    from alone_step [OF this _ alone_done] show ?thesis using None assms(1) resp a(4)
      by (auto simp: sought_def cseq_eq_Return cret_def)
  next
    case (Some e)
    with a(4) s4 obtain s5 where d: "delete_entry me b e s1 = Return (y, s5)" "mutex_unlock b s5 = Return ((), s')"
      by (auto simp: cbind_eq_Return cseq_eq_Return cret_def)
    have m: "micro me r (Deleting b e) s1 = Return (Leaving b (Answered resp), s5)"
      "micro me r (Leaving b (Answered resp)) s5 = Return (Answered resp, s')"
      using d resp by (simp_all add: micro_def cmd_run)
    from alone_step [OF m(1) _ alone_step [OF m(2) _ alone_done]] show ?thesis
      using Some assms(1) by (simp add: sought_def)
  qed
  with e alone_trans show ?thesis by blast
qed

lemma set_alone:
  assumes "req_method r = SET" and "set_request me r zero_response s = Return ((x, resp), s')"
  shows "\<exists>k. alone me r k (Start, s) = Return (Answered resp, s')"
proof -
  from assms(2) obtain e s1 y s2 where e: "get_key_entry (req_key r) (req_key_len r) s = Return (e, s1)"
    "rwlock_trywrlock me e s1 = Return (y, s2)"
    by (auto simp: set_request_def cbind_eq_Return)
  have start: "\<exists>k. alone me r k (Start, s) = Return (Locking e, s1)" by (rule key_entry_alone [OF assms(1) e(1)])
  have "\<exists>k. alone me r k (Locking e, s1) = Return (Answered resp, s')"
  proof (cases "y = 0")
    case False
    with assms(2) e have "micro me r (Locking e) s1 = Return (Answered resp, s')"
      by (simp add: set_request_def micro_def cmd_run)
    then show ?thesis by (rule alone_step) (simp_all add: alone_done)
  next
    case True
    with assms(2) e obtain v s3 s4 s5 s6 where "malloc_buf MSG_SIZE s2 = Return (v, s3)"
      "upd_item (Some e) (\<lambda>it. it\<lparr>item_value := Some v\<rparr>) s3 = Return ((), s4)"
      "write_buf (Some v) (\<lambda>b. memcpy b (req_msg r) (unat (req_msg_len r))) s4 = Return ((), s5)"
      "upd_item (Some e) (\<lambda>it. it\<lparr>item_value_size := req_msg_len r\<rparr>) s5 = Return ((), s6)"
      "rwlock_unlock me e s6 = Return ((), s')" "resp = zero_response\<lparr>resp_code := OK\<rparr>"
      by (auto simp: set_request_def cmd_run cbind_eq_Return cseq_eq_Return cret_def)
    with e True have m:
      "micro me r (Locking e) s1 = Return (Allocating e, s2)"
      "micro me r (Allocating e) s2 = Return (Filling e v, s4)"
      "micro me r (Filling e v) s4 = Return (Sizing e, s5)"
      "micro me r (Sizing e) s5 = Return (Unlocking e, s6)"
      "micro me r (Unlocking e) s6 = Return (Answered resp, s')"
      by (simp_all add: micro_def cbind_run cseq_run cret_run)
    show ?thesis
      by (rule alone_step [OF m(1) _ alone_step [OF m(2) _ alone_step [OF m(3) _
            alone_step [OF m(4) _ alone_step [OF m(5) _ alone_done]]]]]) simp_all
  qed
  with start alone_trans show ?thesis by blast
qed

lemma serve_alone:
  assumes "serve_request me (True, True, True) r zero_response s = Return (resp, s')"
  shows "\<exists>k. alone me r k (Start, s) = Return (Answered resp, s')"
proof -
  consider "req_method r = SET" | "req_method r = GET" | "req_method r = DEL"
    | "micro me r Start s = Return (Answered resp, s')"
    using assms by (cases "req_method r") (auto simp: micro_def cmd_run)
  then show ?thesis
  proof cases
    case 1
    with assms set_alone show ?thesis by (auto simp: serve_request_def cbind_eq_Return cret_def)
  next
    case 2
    with assms get_alone show ?thesis by (auto simp: serve_request_def)
  next
    case 3
    with assms del_alone show ?thesis by (auto simp: serve_request_def)
  next
    case 4
    then show ?thesis by (rule alone_step) (simp_all add: alone_done)
  qed
qed

lemma interleave_alone:
  "alone me r k (pc, s) = Return (pc', s') \<Longrightarrow> queue th = r # rs \<Longrightarrow>
     \<exists>n. interleave (replicate n me) (s, ts(me := th\<lparr>point := pc\<rparr>)) = Return (s', ts(me := th\<lparr>point := pc'\<rparr>))"
proof (induction k arbitrary: pc s)
  case 0
  then show ?case by (intro exI [of _ 0]) simp
next
  case (Suc k)
  show ?case
  proof (cases "answered pc")
    case True
    with Suc.prems show ?thesis by (intro exI [of _ 0]) simp
  next
    case False
    with Suc.prems(1) obtain pc1 s1 where m: "micro me r pc s = Return (pc1, s1)"
      "alone me r k (pc1, s1) = Return (pc', s')" by (auto simp: obind_eq_Return)
    from Suc.IH [OF m(2) Suc.prems(2)] obtain n where
      n: "interleave (replicate n me) (s1, ts(me := th\<lparr>point := pc1\<rparr>)) = Return (s', ts(me := th\<lparr>point := pc'\<rparr>))" ..
    have "\<forall>resp. pc \<noteq> Answered resp" using False by auto
    with m(1) Suc.prems(2) have "advance me (s, ts(me := th\<lparr>point := pc\<rparr>)) = Return (s1, ts(me := th\<lparr>point := pc1\<rparr>))"
      by (simp add: advance_work [where r = r and rs = rs])
    with n have "interleave (replicate (Suc n) me) (s, ts(me := th\<lparr>point := pc\<rparr>))
        = Return (s', ts(me := th\<lparr>point := pc'\<rparr>))"
      by (simp only: replicate_Suc interleave_simps obind.simps)
    then show ?thesis ..
  qed
qed

end
