(* ===== verification/KV_Concurrent_Inv.thy ===== *)
theory KV_Concurrent_Inv
  imports KV_Concurrent
begin

text \<open>
  The invariant of a table that several threads use at the same time, and that every step of a SET
  or a GET keeps it. The lock of an item agrees with the threads that are writing or reading it, an
  item that nobody writes holds a value stored under its key, and each thread is at a point of its
  request that the memory allows.
\<close>

section \<open>The contract of a lock\<close>

text \<open>
  \<open>agrees l W R\<close>: the lock \<open>l\<close> is held for writing by the threads \<open>W\<close> and for reading by the
  threads \<open>R\<close>.
\<close>

locale item_lock =
  fixes trywr :: "tid \<Rightarrow> 'l \<Rightarrow> int \<times> 'l"
    and tryrd :: "tid \<Rightarrow> 'l \<Rightarrow> int \<times> 'l"
    and unlock :: "tid \<Rightarrow> 'l \<Rightarrow> 'l outcome"
    and agrees :: "'l \<Rightarrow> tid set \<Rightarrow> tid set \<Rightarrow> bool"
  assumes one_writer: "agrees l W R \<Longrightarrow> W = {} \<or> R = {} \<and> (\<exists>t. W = {t})"
    and trywr_free: "agrees l W R \<Longrightarrow> trywr t l = (0, l') \<Longrightarrow> W = {} \<and> R = {} \<and> agrees l' {t} {}"
    and trywr_busy: "trywr t l = (x, l') \<Longrightarrow> x \<noteq> 0 \<Longrightarrow> l' = l"
    and tryrd_free: "agrees l W R \<Longrightarrow> t \<notin> R \<Longrightarrow> tryrd t l = (0, l') \<Longrightarrow> W = {} \<and> agrees l' {} (insert t R)"
    and tryrd_busy: "tryrd t l = (x, l') \<Longrightarrow> x \<noteq> 0 \<Longrightarrow> l' = l"
    and unlock_writer: "agrees l W R \<Longrightarrow> t \<in> W \<Longrightarrow> \<exists>l'. unlock t l = Return l' \<and> agrees l' {} {}"
    and unlock_reader: "agrees l W R \<Longrightarrow> t \<in> R \<Longrightarrow> \<exists>l'. unlock t l = Return l' \<and> agrees l' {} (R - {t})"
begin

lemma writer_alone:
  assumes "agrees l W R" and "t \<in> W"
  shows "W = {t}" and "R = {}"
  using one_writer [OF assms(1)] assms(2) by auto

lemma take_write:
  "agrees l W R \<Longrightarrow> agrees (snd (trywr t l)) (if fst (trywr t l) = 0 then insert t W else W) R"
  using trywr_free [of l W R t] trywr_busy [of t l] by (cases "trywr t l") auto

lemma take_write_free:
  "agrees l W R \<Longrightarrow> fst (trywr t l) = 0 \<Longrightarrow> W = {}"
  using trywr_free [of l W R t] by (cases "trywr t l") auto

lemma take_read:
  "agrees l W R \<Longrightarrow> t \<notin> R \<Longrightarrow>
     agrees (snd (tryrd t l)) W (if fst (tryrd t l) = 0 then insert t R else R)"
  using tryrd_free [of l W R t] tryrd_busy [of t l] by (cases "tryrd t l") auto

lemma release_write:
  "agrees l W R \<Longrightarrow> t \<in> W \<Longrightarrow> \<exists>l'. unlock t l = Return l' \<and> agrees l' (W - {t}) R"
  using unlock_writer [of l W R t] writer_alone [of l W R t] by auto

lemma release_read:
  "agrees l W R \<Longrightarrow> t \<in> R \<Longrightarrow> \<exists>l'. unlock t l = Return l' \<and> agrees l' W (R - {t})"
  using unlock_reader [of l W R t] one_writer [of l W R] by auto

end

fun rw_agrees :: "rwlock \<Rightarrow> tid set \<Rightarrow> tid set \<Rightarrow> bool" where
  "rw_agrees Lock_free W R \<longleftrightarrow> W = {} \<and> R = {}"
| "rw_agrees (Read_held ts) W R \<longleftrightarrow> W = {} \<and> R = set ts \<and> ts \<noteq> [] \<and> distinct ts"
| "rw_agrees (Write_held t) W R \<longleftrightarrow> W = {t} \<and> R = {}"

lemma rw_agrees_trywr:
  "rw_agrees l W R \<Longrightarrow> rw_trywrlock t l = (0, l') \<Longrightarrow> W = {} \<and> R = {} \<and> rw_agrees l' {t} {}"
  by (cases l) (auto simp: EBUSY_def)

lemma rw_agrees_tryrd:
  "rw_agrees l W R \<Longrightarrow> t \<notin> R \<Longrightarrow> rw_tryrdlock t l = (0, l') \<Longrightarrow> W = {} \<and> rw_agrees l' {} (insert t R)"
  by (cases l) (auto simp: EBUSY_def)

lemma rw_agrees_unlock_reader:
  "rw_agrees l W R \<Longrightarrow> t \<in> R \<Longrightarrow> \<exists>l'. rw_unlock t l = Return l' \<and> rw_agrees l' {} (R - {t})"
proof (cases l)
  case (Read_held ts)
  assume l: "rw_agrees l W R" "t \<in> R"
  with Read_held have ts: "W = {}" "distinct (remove1 t ts)" "set (remove1 t ts) = R - {t}" by simp_all
  show ?thesis
  proof (cases "remove1 t ts = []")
    case True
    with ts(3) have "R - {t} = {}" by (metis list.set(1))
    with True Read_held l show ?thesis by simp
  next
    case False
    with ts Read_held l show ?thesis by simp
  qed
qed simp_all

interpretation lk: item_lock rw_trywrlock rw_tryrdlock rw_unlock rw_agrees
proof
  show "W = {} \<or> R = {} \<and> (\<exists>t. W = {t})" if "rw_agrees l W R" for l W R
    using that by (cases l) auto
  show "\<exists>l'. rw_unlock t l = Return l' \<and> rw_agrees l' {} {}" if "rw_agrees l W R" "t \<in> W" for l W R t
    using that by (cases l) auto
  show "l' = l" if "rw_trywrlock t l = (x, l')" "x \<noteq> 0" for t l x l'
    using that by (cases l) auto
  show "l' = l" if "rw_tryrdlock t l = (x, l')" "x \<noteq> 0" for t l x l'
    using that by (cases l) auto
qed (fact rw_agrees_trywr rw_agrees_tryrd rw_agrees_unlock_reader)+

text \<open>A mutex: whether it is locked, and the threads that are between locking and unlocking it.\<close>

definition mutex_agrees :: "bool \<Rightarrow> tid set \<Rightarrow> bool" where
  "mutex_agrees l T \<longleftrightarrow> (if l then \<exists>t. T = {t} else T = {})"

lemma mutex_take: "mutex_agrees False T \<Longrightarrow> mutex_agrees True (insert t T)"
  by (simp add: mutex_agrees_def)

lemma mutex_give: "mutex_agrees l T \<Longrightarrow> t \<in> T \<Longrightarrow> mutex_agrees False (T - {t})"
  by (auto simp: mutex_agrees_def split: if_splits)

lemma mutex_alone: "mutex_agrees l T \<Longrightarrow> t \<in> T \<Longrightarrow> l \<and> T = {t}"
  by (auto simp: mutex_agrees_def split: if_splits)

section \<open>What other threads may rely on\<close>

definition next_of :: "memory \<Rightarrow> addr \<Rightarrow> addr option" where
  "next_of s a = (case cells s a of None \<Rightarrow> None | Some it \<Rightarrow> item_next it)"

text \<open>The value of an item as its writer sees it.\<close>

definition item_view :: "memory \<Rightarrow> addr \<Rightarrow> (addr option \<times> size_t \<times> byte list) option" where
  "item_view s a =
     map_option (\<lambda>it. (item_value it, item_value_size it, buf_at s (item_value it))) (cells s a)"

definition keeps :: "addr set \<Rightarrow> addr set \<Rightarrow> memory \<Rightarrow> addr set \<Rightarrow> memory \<Rightarrow> bool" where
  "keeps X N s N' s' \<longleftrightarrow> N \<subseteq> N' \<and>
     (\<forall>a \<in> N. key_of s' a = key_of s a \<and> next_of s' a = next_of s a \<and> (a \<notin> X \<longrightarrow> item_view s' a = item_view s a))"

lemma keeps_refl: "keeps X N s N s"
  by (simp add: keeps_def)

lemma keeps_weaken: "keeps {} N s N' s' \<Longrightarrow> keeps X N s N' s'"
  by (simp add: keeps_def)

lemma item_view_value: "item_view s' a = item_view s a \<Longrightarrow> value_of s' a = value_of s a"
  by (cases "cells s a"; cases "cells s' a") (auto simp: item_view_def value_of_def)

lemma buf_at_ht_upd [simp]: "buf_at (s\<lparr>ht := p\<rparr>) q = buf_at s q"
  by (simp add: buf_at_def split: option.split)

lemma view_ht_upd [simp]:
  "item_view (s\<lparr>ht := p\<rparr>) a = item_view s a" "next_of (s\<lparr>ht := p\<rparr>) a = next_of s a"
  "lock_of (s\<lparr>ht := p\<rparr>) a = lock_of s a"
  by (simp_all add: item_view_def next_of_def lock_of_def)

lemma item_view_frame:
  assumes "map_option item_content (cells s' a) = map_option item_content (cells s a)"
    and "\<And>x. x \<in> bufs s a \<Longrightarrow> blocks s' x = blocks s x"
  shows "item_view s' a = item_view s a"
proof (cases "cells s a")
  case None
  with assms(1) show ?thesis by (simp add: item_view_def)
next
  case (Some it)
  with assms(1) obtain it' where it': "cells s' a = Some it'" "item_content it' = item_content it" by auto
  then have "buf_at s' (item_value it) = buf_at s (item_value it)"
    using assms(2) Some by (auto simp: buf_at_def bufs_def bufs_of_def split: option.splits)
  with it' Some show ?thesis by (simp add: item_view_def item_content_def)
qed

text \<open>Changing one item, and buffers that only it uses.\<close>

lemma item_changed:
  assumes ok: "table_ok s t bs" and e: "e \<in> nodes (length (ht_items t)) bs"
    and other: "\<And>x. x \<noteq> e \<Longrightarrow> cells s' x = cells s x"
    and blk: "\<And>y. y \<notin> bufs s e \<Longrightarrow> y < fresh s \<Longrightarrow> blocks s' y = blocks s y"
    and lks: "item_links (cells s') e = item_links (cells s) e"
    and new: "item_ok s' e" "bufs s' e \<subseteq> bufs s e \<union> {fresh s..}"
    and bf: "below_fresh s'"
  shows "table_ok s' t bs"
    and "x \<in> nodes (length (ht_items t)) bs \<Longrightarrow> x \<noteq> e \<Longrightarrow>
      key_of s' x = key_of s x \<and> value_of s' x = value_of s x \<and> item_view s' x = item_view s x"
proof -
  let ?N = "nodes (length (ht_items t)) bs"
  have lt: "y < fresh s" if "x \<in> ?N" "y \<in> bufs s x" for x y
    using bufs_below [OF _ _ that(2)] ok that(1) by (auto simp: table_ok_def)
  have same: "map_option item_content (cells s' x) = map_option item_content (cells s x)"
    "\<And>y. y \<in> bufs s x \<Longrightarrow> blocks s' y = blocks s y" if "x \<in> ?N" "x \<noteq> e" for x
    using other [OF that(2)] blk lt [OF that(1)] table_ok_apart(2) [OF ok that(1) e that(2)] by auto
  note cong = content_cong [OF same]
  show "key_of s' x = key_of s x \<and> value_of s' x = value_of s x \<and> item_view s' x = item_view s x"
    if "x \<in> ?N" "x \<noteq> e" for x
    using cong(1,2) [OF that that] item_view_frame [OF same [OF that]] by simp
  have bufs: "bufs s' x = bufs s x" if "x \<in> ?N" "x \<noteq> e" for x
    using cong(3) [OF that that] .
  have e_apart: "bufs s' e \<inter> bufs s' x = {}" if "x \<in> ?N" "x \<noteq> e" for x
    using new(2) bufs [OF that] lt [OF that(1)] table_ok_apart(2) [OF ok that(1) e that(2)] by fastforce
  have "bufs s' x \<inter> bufs s' y = {}" if "x \<in> ?N" "y \<in> ?N" "x \<noteq> y" for x y
    using e_apart bufs table_ok_apart(2) [OF ok that] that by (cases "x = e"; cases "y = e") auto
  moreover have "item_ok s' x" if "x \<in> ?N" for x
    using new(1) cong(4) [OF that _ that] ok that by (cases "x = e") (auto simp: table_ok_def)
  moreover have "item_links (cells s') x = item_links (cells s) x" for x
    using lks other [of x] by (cases "x = e") (simp_all add: item_links_def)
  then have "chain (cells s') p prv as = chain (cells s) p prv as" for p prv as
    by (rule chain_cong)
  ultimately show "table_ok s' t bs"
    using ok bf by (simp add: table_ok_def chains_ok_def disjoint_ok_def)
qed

text \<open>
  \<open>changes e t bs s s'\<close>: from \<open>s\<close> to \<open>s'\<close> only the value and the lock of item \<open>e\<close> change.
\<close>

definition changes :: "addr \<Rightarrow> hashtable_t \<Rightarrow> (nat \<Rightarrow> addr list) \<Rightarrow> memory \<Rightarrow> memory \<Rightarrow> bool" where
  "changes e t bs s s' \<longleftrightarrow> ht s' = ht s \<and> table_ok s' t bs \<and>
     (\<forall>a. a \<noteq> e \<longrightarrow> lock_of s' a = lock_of s a) \<and>
     (\<forall>a \<in> nodes (length (ht_items t)) bs. key_of s' a = key_of s a \<and> next_of s' a = next_of s a \<and>
        (a \<noteq> e \<longrightarrow> item_view s' a = item_view s a))"

lemma changes_keeps:
  "changes e t bs s s' \<Longrightarrow> keeps {e} (nodes (length (ht_items t)) bs) s (nodes (length (ht_items t)) bs) s'"
  by (simp add: changes_def keeps_def)

lemma item_changed_changes:
  assumes ok: "table_ok s t bs" and e: "e \<in> nodes (length (ht_items t)) bs"
    and other: "\<And>x. x \<noteq> e \<Longrightarrow> cells s' x = cells s x"
    and blk: "\<And>y. y \<notin> bufs s e \<Longrightarrow> y < fresh s \<Longrightarrow> blocks s' y = blocks s y"
    and lks: "item_links (cells s') e = item_links (cells s) e"
    and new: "item_ok s' e" "bufs s' e \<subseteq> bufs s e \<union> {fresh s..}"
    and key: "key_of s' e = key_of s e" and bf: "below_fresh s'" and t: "ht s' = ht s"
  shows "changes e t bs s s'"
proof -
  have tab: "table_ok s' t bs"
    by (rule item_changed(1) [OF ok e _ _ lks new bf]) (simp_all add: other blk)
  have same: "key_of s' x = key_of s x \<and> value_of s' x = value_of s x \<and> item_view s' x = item_view s x"
    if "x \<in> nodes (length (ht_items t)) bs" "x \<noteq> e" for x
    by (rule item_changed(2) [OF ok e _ _ lks new bf that]) (simp_all add: other blk)
  have "next_of s' e = next_of s e"
    using lks by (cases "cells s e"; cases "cells s' e") (simp_all add: next_of_def item_links_def)
  then have nx: "next_of s' a = next_of s a" for a
    using other [of a] by (cases "a = e") (simp_all add: next_of_def)
  have "key_of s' a = key_of s a" if "a \<in> nodes (length (ht_items t)) bs" for a
    using same [OF that] key by (cases "a = e") simp_all
  with tab same nx t show ?thesis
    by (simp add: changes_def lock_of_def other)
qed

lemma node_item:
  assumes "table_ok s t bs" and "e \<in> nodes (length (ht_items t)) bs"
  obtains it k kb where "cells s e = Some it" "item_key it = Some k" "blocks s k = Some kb" "0 \<in> set kb"
    "value_ok s it" "k < fresh s" "e < fresh s" "below_fresh s"
proof -
  have e: "item_ok s e" "below_fresh s" using assms by (auto simp: table_ok_def)
  then obtain it k kb where it: "cells s e = Some it" "item_key it = Some k" "blocks s k = Some kb" "0 \<in> set kb"
    "value_ok s it" by (auto simp: item_ok_def key_ok_def)
  moreover have "k < fresh s" using bufs_below [OF e(2,1), of k] it by (simp add: bufs_def bufs_of_def)
  ultimately show ?thesis using that item_ok_below [OF e(2,1)] e(2) by blast
qed

lemma relock_changes:
  fixes l :: rwlock
  assumes ok: "table_ok s t bs" and e: "e \<in> nodes (length (ht_items t)) bs" and it: "cells s e = Some it"
  defines "s' \<equiv> s\<lparr>cells := (cells s)(e \<mapsto> it\<lparr>item_rwlock := l\<rparr>)\<rparr>"
  shows "changes e t bs s s'" and "item_view s' e = item_view s e" and "lock_of s' e = l"
proof -
  have same: "map_option item_content (cells s' e) = map_option item_content (cells s e)"
    using it by (simp add: s'_def item_content_def)
  have blk: "\<And>x. blocks s' x = blocks s x" by (simp add: s'_def)
  note cong = content_cong [OF same blk]
  have "item_ok s e" "below_fresh s" "e < fresh s"
    using ok e by (auto simp: table_ok_def intro: table_ok_below)
  then show "changes e t bs s s'"
    using it cong by (intro item_changed_changes [OF ok e]) (auto simp: s'_def item_links_def below_fresh_def)
  show "item_view s' e = item_view s e" by (rule item_view_frame [OF same blk])
  show "lock_of s' e = l" by (simp add: s'_def lock_of_def)
qed

lemma alloc_changes:
  assumes ok: "table_ok s t bs" and e: "e \<in> nodes (length (ht_items t)) bs" and it: "cells s e = Some it"
    and len: "length b = MSG_SIZE"
  defines "s' \<equiv> s\<lparr>blocks := (blocks s)(fresh s \<mapsto> b), fresh := fresh s + 1,
    cells := (cells s)(e \<mapsto> it\<lparr>item_value := Some (fresh s)\<rparr>)\<rparr>"
  shows "changes e t bs s s'" and "lock_of s' e = lock_of s e"
proof -
  from node_item [OF ok e] it obtain k kb where k: "item_key it = Some k" "blocks s k = Some kb" "0 \<in> set kb"
    "value_ok s it" "k < fresh s" "e < fresh s" "below_fresh s" by (metis option.inject)
  have "unat (item_value_size it) \<le> MSG_SIZE" using k(4) by (auto simp: value_ok_def split: option.splits)
  then have "item_ok s' e" "bufs s' e \<subseteq> bufs s e \<union> {fresh s..}" "key_of s' e = key_of s e"
    using it k len by (auto simp: s'_def content_defs split: if_splits)
  then show "changes e t bs s s'"
    using it k by (intro item_changed_changes [OF ok e]) (auto simp: s'_def item_links_def below_fresh_def)
  show "lock_of s' e = lock_of s e" using it by (simp add: s'_def lock_of_def)
qed

lemma fill_changes:
  assumes ok: "table_ok s t bs" and e: "e \<in> nodes (length (ht_items t)) bs" and it: "cells s e = Some it"
    and v: "item_value it = Some v" and len: "length b = MSG_SIZE"
  defines "s' \<equiv> s\<lparr>blocks := (blocks s)(v \<mapsto> b)\<rparr>"
  shows "changes e t bs s s'" and "lock_of s' e = lock_of s e"
proof -
  from node_item [OF ok e] it obtain k kb where k: "item_key it = Some k" "blocks s k = Some kb" "0 \<in> set kb"
    "value_ok s it" "k < fresh s" "e < fresh s" "below_fresh s" by (metis option.inject)
  have "k \<noteq> v" using k(1,4) v by (auto simp: value_ok_def)
  moreover have "v \<in> bufs s e" using it v by (simp add: bufs_def bufs_of_def)
  moreover from this have "v < fresh s" using bufs_below [OF k(7)] ok e by (auto simp: table_ok_def)
  ultimately have "item_ok s' e" "bufs s' e \<subseteq> bufs s e \<union> {fresh s..}" "key_of s' e = key_of s e"
    using it k v len by (auto simp: s'_def content_defs split: if_splits)
  then show "changes e t bs s s'"
    using \<open>v \<in> bufs s e\<close> \<open>v < fresh s\<close> it k
    by (intro item_changed_changes [OF ok e]) (auto simp: s'_def item_links_def below_fresh_def)
  show "lock_of s' e = lock_of s e" using it by (simp add: s'_def lock_of_def)
qed

lemma size_changes:
  assumes ok: "table_ok s t bs" and e: "e \<in> nodes (length (ht_items t)) bs" and it: "cells s e = Some it"
    and v: "item_value it = Some v" and n: "unat n \<le> MSG_SIZE"
  defines "s' \<equiv> s\<lparr>cells := (cells s)(e \<mapsto> it\<lparr>item_value_size := n\<rparr>)\<rparr>"
  shows "changes e t bs s s'" and "lock_of s' e = lock_of s e"
proof -
  from node_item [OF ok e] it obtain k kb where k: "item_key it = Some k" "blocks s k = Some kb" "0 \<in> set kb"
    "value_ok s it" "k < fresh s" "e < fresh s" "below_fresh s" by (metis option.inject)
  have "item_ok s' e" "bufs s' e \<subseteq> bufs s e \<union> {fresh s..}" "key_of s' e = key_of s e"
    using it k v n by (auto simp: s'_def content_defs split: if_splits)
  then show "changes e t bs s s'"
    using it k by (intro item_changed_changes [OF ok e]) (auto simp: s'_def item_links_def below_fresh_def)
  show "lock_of s' e = lock_of s e" using it by (simp add: s'_def lock_of_def)
qed

end
