(* ===== verification/KV_Concurrent_Steps.thy ===== *)
theory KV_Concurrent_Steps
  imports KV_Concurrent_Inv
begin

text \<open>
  Every step of a thread that serves SETs and GETs is defined and keeps the state of the table that
  the threads share (\<open>shared\<close>): one lemma per point of a request (\<open>stepped\<close>), and the frame that
  the other threads rely on.
\<close>

section \<open>Points of a request\<close>

definition writes_item :: "pc \<Rightarrow> addr option" where
  "writes_item pc = (case pc of Allocating e \<Rightarrow> Some e | Filling e v \<Rightarrow> Some e | Sizing e \<Rightarrow> Some e
     | Unlocking e \<Rightarrow> Some e | _ \<Rightarrow> None)"

definition reads_item :: "pc \<Rightarrow> addr option" where
  "reads_item pc = (case pc of Copying a \<Rightarrow> Some a | Releasing a resp \<Rightarrow> Some a | _ \<Rightarrow> None)"

definition writers :: "(tid \<Rightarrow> thread) \<Rightarrow> addr \<Rightarrow> tid set" where
  "writers ts a = {u. writes_item (point (ts u)) = Some a}"

definition readers :: "(tid \<Rightarrow> thread) \<Rightarrow> addr \<Rightarrow> tid set" where
  "readers ts a = {u. reads_item (point (ts u)) = Some a}"

definition key_matches :: "request \<Rightarrow> byte list \<Rightarrow> bool" where
  "key_matches r k \<longleftrightarrow> take (req_prefix r) k = take (req_prefix r) (req_string r)"

text \<open>
  What an answer may be: to a SET that it succeeded, to a GET a value \<open>v\<close> with \<open>org k v\<close> for a
  stored key \<open>k\<close> the request matches, to both that the key is locked or not there.
\<close>

definition answer_ok :: "(byte list \<Rightarrow> byte list \<Rightarrow> bool) \<Rightarrow> request \<Rightarrow> response \<Rightarrow> bool" where
  "answer_ok org r resp \<longleftrightarrow>
     resp = zero_response\<lparr>resp_code := KEY_ERROR\<rparr> \<or>
     req_method r = SET \<and> resp = zero_response\<lparr>resp_code := OK\<rparr> \<or>
     req_method r = GET \<and> (\<exists>k v. key_matches r k \<and> org k v \<and> resp = got_response v zero_response)"

text \<open>The mutex a thread has: of the bucket of \<open>get_key_entry\<close> or \<open>remove_item\<close>.\<close>

definition owns :: "pc \<Rightarrow> nat option" where
  "owns pc = (case pc of Entered b \<Rightarrow> Some b | Seeking b h p \<Rightarrow> Some b | Adding b h \<Rightarrow> Some b
     | Deleting b a \<Rightarrow> Some b | Leaving b pc \<Rightarrow> Some b | _ \<Rightarrow> None)"

definition owners :: "(tid \<Rightarrow> thread) \<Rightarrow> nat \<Rightarrow> tid set" where
  "owners ts b = {u. owns (point (ts u)) = Some b}"

primrec path :: "memory \<Rightarrow> addr option \<Rightarrow> addr list \<Rightarrow> bool" where
  "path s p [] \<longleftrightarrow> p = None"
| "path s p (a # as) \<longleftrightarrow> p = Some a \<and> path s (next_of s a) as"

lemma chain_path: "chain (cells s) p prv as \<Longrightarrow> path s p as"
  by (induction as arbitrary: p prv) (auto simp: item_links_def next_of_def split: option.splits)

lemma path_keeps: "keeps X N s N' s' \<Longrightarrow> path s p as \<Longrightarrow> set as \<subseteq> N \<Longrightarrow> path s' p as"
  by (induction as arbitrary: p) (auto simp: keeps_def)

lemma path_ht_upd [simp]: "path (s\<lparr>ht := p\<rparr>) q as = path s q as"
  by (induction as arbitrary: q) auto

lemma path_unique: "path s p as \<Longrightarrow> path s p as' \<Longrightarrow> as = as'"
proof (induction as arbitrary: p as')
  case Nil
  then show ?case by (cases as') auto
next
  case (Cons a as)
  then show ?case by (cases as') auto
qed

definition target :: "memory \<Rightarrow> addr set \<Rightarrow> request \<Rightarrow> addr \<Rightarrow> bool" where
  "target s N r a \<longleftrightarrow> a \<in> N \<and> key_matches r (key_of s a)"

definition point_ok ::
  "(byte list \<Rightarrow> byte list \<Rightarrow> bool) \<Rightarrow> memory \<Rightarrow> addr set \<Rightarrow> request \<Rightarrow> pc \<Rightarrow> bool" where
  "point_ok org s N r pc =
     (case pc of
        Start \<Rightarrow> True
      | Entering b \<Rightarrow> req_method r = SET
      | Entered b \<Rightarrow> req_method r = SET
      | Seeking b h p \<Rightarrow> req_method r = SET
      | Adding b h \<Rightarrow> req_method r = SET
      | Deleting b a \<Rightarrow> False
      | Leaving b pc \<Rightarrow> req_method r = SET \<and> (\<exists>e. pc = Locking e \<and> target s N r e)
      | Locking e \<Rightarrow> req_method r = SET \<and> target s N r e
      | Allocating e \<Rightarrow> req_method r = SET \<and> target s N r e
      | Filling e v \<Rightarrow> req_method r = SET \<and> target s N r e \<and>
          (\<exists>n b. item_view s e = Some (Some v, n, b))
      | Sizing e \<Rightarrow> req_method r = SET \<and> target s N r e \<and>
          (\<exists>v n b. item_view s e = Some (Some v, n, b) \<and> take (unat (req_msg_len r)) b = req_value r)
      | Unlocking e \<Rightarrow> req_method r = SET \<and> target s N r e \<and> value_of s e = req_value r
      | Walking p \<Rightarrow> req_method r = GET \<and> (\<exists>as. path s p as \<and> set as \<subseteq> N)
      | Reading a \<Rightarrow> req_method r = GET \<and> target s N r a
      | Copying a \<Rightarrow> req_method r = GET \<and> target s N r a
      | Releasing a resp \<Rightarrow> req_method r = GET \<and> target s N r a \<and> answer_ok org r resp
      | Answered resp \<Rightarrow> answer_ok org r resp)"

lemma target_keeps: "keeps X N s N' s' \<Longrightarrow> target s N r a \<Longrightarrow> target s' N' r a"
  by (auto simp: keeps_def target_def)

lemma view_keeps: "keeps X N s N' s' \<Longrightarrow> a \<in> N \<Longrightarrow> a \<notin> X \<Longrightarrow> item_view s' a = item_view s a"
  by (simp add: keeps_def)

lemma point_ok_keeps:
  assumes k: "keeps X N s N' s'" and p: "point_ok org s N r pc"
    and X: "\<And>a. writes_item pc = Some a \<Longrightarrow> a \<notin> X"
  shows "point_ok org s' N' r pc"
proof -
  note tk = target_keeps [OF k]
  have view: "item_view s' a = item_view s a" if "target s N r a" "writes_item pc = Some a" for a
    using view_keeps [OF k _ X [OF that(2)]] that(1) by (simp add: target_def)
  have N: "N \<subseteq> N'" using k by (simp add: keeps_def)
  show ?thesis
  proof (cases pc)
    case (Walking q)
    with p obtain as where "req_method r = GET" "path s q as" "set as \<subseteq> N" by (auto simp: point_ok_def)
    moreover from this have "path s' q as" "set as \<subseteq> N'" using path_keeps [OF k] N by blast+
    ultimately show ?thesis using Walking by (auto simp: point_ok_def)
  next
    case (Unlocking e)
    then show ?thesis
      using p tk view [of e] item_view_value [of s' e s] by (auto simp: point_ok_def writes_item_def)
  next
    case (Filling e v)
    then show ?thesis using p tk view [of e] by (auto simp: point_ok_def writes_item_def)
  next
    case (Sizing e)
    then show ?thesis using p tk view [of e] by (auto simp: point_ok_def writes_item_def)
  qed (use p tk in \<open>auto simp: point_ok_def\<close>)
qed

lemma point_ok_ht_upd [simp]: "point_ok org (s\<lparr>ht := p\<rparr>) N r pc = point_ok org s N r pc"
  by (cases pc) (simp_all add: point_ok_def target_def)

section \<open>The shared table\<close>

definition touches :: "pc \<Rightarrow> addr set" where
  "touches pc = set_option (writes_item pc) \<union> set_option (reads_item pc)"

text \<open>\<open>org b k v\<close>: a value that an item of bucket \<open>b\<close> with key \<open>k\<close> may hold.\<close>

type_synonym origins = "nat \<Rightarrow> byte list \<Rightarrow> byte list \<Rightarrow> bool"

abbreviation slot :: "hashtable_t \<Rightarrow> request \<Rightarrow> nat" where
  "slot t r \<equiv> bucket_of (ht_capacity t) (req_string r)"

text \<open>
  What the mutex gives a SET: no other thread changes its bucket. The nodes that \<open>search\<close> has passed do
  not match, and an item is added only when no item of the bucket matches.
\<close>

definition section_ok :: "hashtable_t \<Rightarrow> memory \<Rightarrow> addr set \<Rightarrow> request \<Rightarrow> pc \<Rightarrow> bool" where
  "section_ok t s N r pc =
     (case pc of
        Entering b \<Rightarrow> b = slot t r
      | Entered b \<Rightarrow> b = slot t r
      | Seeking b h p \<Rightarrow> b = slot t r \<and> h = ht_items t ! b \<and>
          (\<exists>as. path s p as \<and> set as \<subseteq> N \<and> (\<forall>a \<in> N - set as. \<not> key_matches r (key_of s a)))
      | Adding b h \<Rightarrow> b = slot t r \<and> h = ht_items t ! b \<and> (\<forall>a \<in> N. \<not> key_matches r (key_of s a))
      | Deleting b a \<Rightarrow> b = slot t r
      | Leaving b pc \<Rightarrow> b = slot t r
      | _ \<Rightarrow> True)"

lemma section_ok_simps [simp]:
  "section_ok t s N r Start" "section_ok t s N r (Locking a)" "section_ok t s N r (Allocating a)"
  "section_ok t s N r (Filling a v)" "section_ok t s N r (Sizing a)" "section_ok t s N r (Unlocking a)"
  "section_ok t s N r (Walking p)" "section_ok t s N r (Reading a)" "section_ok t s N r (Copying a)"
  "section_ok t s N r (Releasing a resp)" "section_ok t s N r (Answered resp)"
  by (simp_all add: section_ok_def)

lemma section_ok_slot: "section_ok t s N r pc \<Longrightarrow> owns pc = Some b \<Longrightarrow> b = slot t r"
  by (cases pc) (auto simp: section_ok_def owns_def)

lemma section_ok_keeps:
  assumes k: "keeps X N s N' s'" and ok: "section_ok t s N r pc" and cap: "ht_capacity t' = ht_capacity t"
    and own: "owns pc = Some (slot t r) \<Longrightarrow> N' = N \<and> ht_items t' ! slot t r = ht_items t ! slot t r"
  shows "section_ok t' s' N' r pc"
proof -
  have key: "key_of s' a = key_of s a" if "a \<in> N" for a using k that by (simp add: keeps_def)
  show ?thesis
  proof (cases pc)
    case (Seeking b h p)
    with ok obtain as where as: "b = slot t r" "h = ht_items t ! b" "path s p as" "set as \<subseteq> N"
      "\<forall>a \<in> N - set as. \<not> key_matches r (key_of s a)" by (auto simp: section_ok_def)
    with path_keeps [OF k as(3,4)] own key cap Seeking show ?thesis by (auto simp: section_ok_def owns_def)
  next
    case (Adding b h)
    with ok own key cap show ?thesis by (auto simp: section_ok_def owns_def)
  qed (use ok cap in \<open>simp_all add: section_ok_def\<close>)
qed

definition shared :: "origins \<Rightarrow> memory \<Rightarrow> hashtable_t \<Rightarrow> (nat \<Rightarrow> addr list) \<Rightarrow> (tid \<Rightarrow> thread) \<Rightarrow> bool" where
  "shared org s t bs ts \<longleftrightarrow>
     ht s = Ht_live t \<and> table_ok s t bs \<and>
     (\<forall>b < length (ht_locks t). mutex_agrees (ht_locks t ! b) (owners ts b)) \<and>
     (\<forall>u. touches (point (ts u)) \<subseteq> nodes (length (ht_items t)) bs) \<and>
     (\<forall>b < length (ht_items t). \<forall>a \<in> set (bs b).
        rw_agrees (lock_of s a) (writers ts a) (readers ts a) \<and>
        (writers ts a = {} \<longrightarrow> org b (key_of s a) (value_of s a)))"

lemma slot_less: "table_ok s t bs \<Longrightarrow> slot t r < length (ht_items t)"
  using bucket_of_less by (fastforce simp: table_ok_def shape_ok_def word_gt_0)

definition moved :: "(tid \<Rightarrow> thread) \<Rightarrow> tid \<Rightarrow> pc \<Rightarrow> (tid \<Rightarrow> thread)" where
  "moved ts me pc = ts(me := (ts me)\<lparr>point := pc\<rparr>)"

lemma moved_holders:
  "writers (moved ts me pc) a =
     (if writes_item pc = Some a then insert me (writers ts a) else writers ts a - {me})"
  "readers (moved ts me pc) a =
     (if reads_item pc = Some a then insert me (readers ts a) else readers ts a - {me})"
  "owners (moved ts me pc) b =
     (if owns pc = Some b then insert me (owners ts b) else owners ts b - {me})"
  by (auto simp: moved_def writers_def readers_def owners_def)

lemma in_holders:
  "me \<in> writers ts a \<longleftrightarrow> writes_item (point (ts me)) = Some a"
  "me \<in> readers ts a \<longleftrightarrow> reads_item (point (ts me)) = Some a"
  "me \<in> owners ts b \<longleftrightarrow> owns (point (ts me)) = Some b"
  by (simp_all add: writers_def readers_def owners_def)

lemma owners_same: "owns pc = owns (point (ts me)) \<Longrightarrow> owners (moved ts me pc) b = owners ts b"
  by (auto simp: moved_holders in_holders)

lemma holders_elsewhere:
  assumes "a \<notin> touches (point (ts me))" and "a \<notin> touches pc"
  shows "writers (moved ts me pc) a = writers ts a" and "readers (moved ts me pc) a = readers ts a"
  using assms by (auto simp: touches_def moved_holders in_holders)

definition stepped ::
  "origins \<Rightarrow> memory \<Rightarrow> hashtable_t \<Rightarrow> (nat \<Rightarrow> addr list) \<Rightarrow> (tid \<Rightarrow> thread) \<Rightarrow> tid \<Rightarrow> request \<Rightarrow> bool" where
  "stepped org s t bs ts me r \<longleftrightarrow>
     (\<exists>pc s' t' bs'. micro me r (point (ts me)) s = Return (pc, s') \<and> shared org s' t' bs' (moved ts me pc) \<and>
        ht_capacity t' = ht_capacity t \<and> point_ok (org (slot t r)) s' (set (bs' (slot t r))) r pc \<and>
        section_ok t' s' (set (bs' (slot t r))) r pc \<and>
        (\<forall>b < length (ht_items t). owns (point (ts me)) \<noteq> Some b \<longrightarrow>
           bs' b = bs b \<and> ht_items t' ! b = ht_items t ! b) \<and>
        (\<forall>b < length (ht_items t). keeps (set_option (writes_item (point (ts me)))) (set (bs b)) s (set (bs' b)) s'))"

lemma touches_moved:
  "\<forall>u. touches (point (ts u)) \<subseteq> N \<Longrightarrow> touches pc \<subseteq> N \<Longrightarrow> touches (point (moved ts me pc u)) \<subseteq> N"
  by (simp add: moved_def)

text \<open>A step that changes item \<open>e\<close> only.\<close>

lemma shared_changes:
  assumes sh: "shared org s t bs ts" and ch: "changes e t bs s s'" and b: "b < length (ht_items t)" "e \<in> set (bs b)"
    and pcs: "touches (point (ts me)) \<subseteq> {e}" "touches pc \<subseteq> {e}" and own: "owns pc = owns (point (ts me))"
    and lock: "rw_agrees (lock_of s' e) (writers (moved ts me pc) e) (readers (moved ts me pc) e)"
    and val: "writers (moved ts me pc) e = {} \<Longrightarrow> org b (key_of s e) (value_of s' e)"
  shows "shared org s' t bs (moved ts me pc)"
proof -
  have e: "e \<in> nodes (length (ht_items t)) bs" using nodes_bucket [where bs = bs, OF b] .
  have "rw_agrees (lock_of s' a) (writers (moved ts me pc) a) (readers (moved ts me pc) a) \<and>
      (writers (moved ts me pc) a = {} \<longrightarrow> org c (key_of s' a) (value_of s' a))"
    if c: "c < length (ht_items t)" "a \<in> set (bs c)" for a c
  proof (cases "a = e")
    case True
    have "table_ok s t bs" using sh by (simp add: shared_def)
    from table_ok_apart(1) [OF this b(1) c(1)] True b(2) c(2) have "c = b" by auto
    then show ?thesis using True lock val ch e by (simp add: changes_def)
  next
    case False
    have a: "a \<in> nodes (length (ht_items t)) bs" using nodes_bucket [where bs = bs, OF c] .
    have "a \<notin> touches (point (ts me))" "a \<notin> touches pc" using False pcs by auto
    then show ?thesis
      using sh ch a c False item_view_value [of s' a s] holders_elsewhere [of a ts me pc]
      by (simp add: shared_def changes_def)
  qed
  moreover have "touches (point (moved ts me pc u)) \<subseteq> nodes (length (ht_items t)) bs" for u
    using sh pcs(2) e by (intro touches_moved) (auto simp: shared_def)
  ultimately show ?thesis using sh ch owners_same [where ts = ts and me = me, OF own] by (simp add: shared_def changes_def)
qed

lemma stepped_changes:
  assumes sh: "shared org s t bs ts" and "micro me r (point (ts me)) s = Return (pc, s')"
    and "changes e t bs s s'" and tg: "target s (set (bs (slot t r))) r e"
    and "touches (point (ts me)) \<subseteq> {e}" "touches pc \<subseteq> {e}" "owns pc = owns (point (ts me))"
    and "rw_agrees (lock_of s' e) (writers (moved ts me pc) e) (readers (moved ts me pc) e)"
    and "writers (moved ts me pc) e = {} \<Longrightarrow> org (slot t r) (key_of s e) (value_of s' e)"
    and "point_ok (org (slot t r)) s' (set (bs (slot t r))) r pc"
    and "section_ok t s' (set (bs (slot t r))) r pc"
    and "writes_item (point (ts me)) = Some e \<or> item_view s' e = item_view s e"
  shows "stepped org s t bs ts me r"
proof -
  have b: "slot t r < length (ht_items t)" "e \<in> set (bs (slot t r))"
    using sh tg slot_less by (auto simp: shared_def target_def)
  have "keeps (set_option (writes_item (point (ts me)))) (set (bs c)) s (set (bs c)) s'"
    if "c < length (ht_items t)" for c
  proof -
    have "key_of s' a = key_of s a \<and> next_of s' a = next_of s a \<and>
        (writes_item (point (ts me)) \<noteq> Some a \<longrightarrow> item_view s' a = item_view s a)" if "a \<in> set (bs c)" for a
      using assms(3,12) nodes_bucket [where bs = bs, OF \<open>c < length (ht_items t)\<close> that]
      by (cases "a = e") (auto simp: changes_def)
    then show ?thesis by (auto simp: keeps_def)
  qed
  with shared_changes [OF assms(1,3) b assms(5-9)] assms(2,10,11) show ?thesis unfolding stepped_def by blast
qed

text \<open>A step that changes neither the memory nor what the thread holds.\<close>

lemma stepped_same:
  assumes "shared org s t bs ts" and "micro me r (point (ts me)) s = Return (pc, s)"
    and "touches (point (ts me)) = {}" "touches pc = {}" "owns pc = owns (point (ts me))"
    and "point_ok (org (slot t r)) s (set (bs (slot t r))) r pc" and "section_ok t s (set (bs (slot t r))) r pc"
  shows "stepped org s t bs ts me r"
proof -
  have "shared org s t bs (moved ts me pc)"
    using assms(1,3,4) holders_elsewhere [of _ ts me pc] touches_moved [of ts _ pc me] owners_same [where ts = ts and me = me, OF assms(5)]
    by (simp add: shared_def)
  with assms(2,6,7) keeps_refl show ?thesis unfolding stepped_def by blast
qed

section \<open>The steps\<close>

text \<open>A request whose value may be stored under every key it matches.\<close>

definition sound :: "(byte list \<Rightarrow> byte list \<Rightarrow> bool) \<Rightarrow> request \<Rightarrow> bool" where
  "sound org r \<longleftrightarrow> request_fits r \<and> req_method r \<in> {SET, GET} \<and>
     (req_method r = SET \<longrightarrow> (\<forall>k. key_matches r k \<longrightarrow> org k (req_value r)))"

lemma shared_table:
  assumes "shared org s t bs ts"
  shows "ht s = Ht_live t" "table_ok s t bs"
  using assms by (simp_all add: shared_def)

lemma shared_node:
  assumes "shared org s t bs ts" and "target s (set (bs (slot t r))) r e"
  obtains it where "cells s e = Some it" "e \<in> nodes (length (ht_items t)) bs" "key_matches r (key_of s e)"
    "value_ok s it" "rw_agrees (item_rwlock it) (writers ts e) (readers ts e)"
    "writers ts e = {} \<Longrightarrow> org (slot t r) (key_of s e) (value_of s e)"
proof -
  note t = shared_table(2) [OF assms(1)]
  have b: "slot t r < length (ht_items t)" "e \<in> set (bs (slot t r))"
    using assms(2) slot_less [OF t] by (simp_all add: target_def)
  note e = nodes_bucket [where bs = bs, OF b]
  from node_item [OF t e] obtain it where it: "cells s e = Some it" "value_ok s it"
    by metis
  have "lock_of s e = item_rwlock it" using it(1) by (simp add: lock_of_def)
  moreover have "rw_agrees (lock_of s e) (writers ts e) (readers ts e)"
    "writers ts e = {} \<Longrightarrow> org (slot t r) (key_of s e) (value_of s e)"
    using assms(1) b by (simp_all add: shared_def)
  ultimately show ?thesis using that it e assms(2) by (simp add: target_def)
qed

lemma pc_sets [simp]:
  "touches Start = {}" "touches (Entering b) = {}" "touches (Entered b) = {}" "touches (Seeking b h p) = {}"
  "touches (Adding b h) = {}" "touches (Deleting b a) = {}" "touches (Leaving b pc) = {}" "touches (Locking a) = {}" "touches (Walking p) = {}" "touches (Reading a) = {}"
  "touches (Answered resp) = {}" "touches (Allocating a) = {a}" "touches (Filling a v) = {a}"
  "touches (Sizing a) = {a}" "touches (Unlocking a) = {a}" "touches (Copying a) = {a}"
  "touches (Releasing a resp) = {a}"
  "writes_item Start = None" "writes_item (Entering b) = None" "writes_item (Entered b) = None"
  "writes_item (Seeking b h p) = None" "writes_item (Adding b h) = None" "writes_item (Deleting b a) = None"
  "writes_item (Leaving b pc) = None" "writes_item (Locking a) = None" "writes_item (Walking p) = None"
  "writes_item (Reading a) = None" "writes_item (Answered resp) = None" "writes_item (Copying a) = None"
  "writes_item (Releasing a resp) = None" "writes_item (Allocating a) = Some a"
  "writes_item (Filling a v) = Some a" "writes_item (Sizing a) = Some a" "writes_item (Unlocking a) = Some a"
  "reads_item Start = None" "reads_item (Entering b) = None" "reads_item (Entered b) = None"
  "reads_item (Seeking b h p) = None" "reads_item (Adding b h) = None" "reads_item (Deleting b a) = None"
  "reads_item (Leaving b pc) = None" "reads_item (Locking a) = None" "reads_item (Walking p) = None"
  "reads_item (Reading a) = None" "reads_item (Answered resp) = None" "reads_item (Allocating a) = None"
  "reads_item (Filling a v) = None" "reads_item (Sizing a) = None" "reads_item (Unlocking a) = None"
  "reads_item (Copying a) = Some a" "reads_item (Releasing a resp) = Some a"
  "owns Start = None" "owns (Entering b) = None" "owns (Entered b) = Some b" "owns (Seeking b h p) = Some b"
  "owns (Adding b h) = Some b" "owns (Deleting b a) = Some b" "owns (Leaving b pc) = Some b"
  "owns (Locking a) = None" "owns (Walking p) = None" "owns (Reading a) = None" "owns (Answered resp) = None"
  "owns (Allocating a) = None" "owns (Filling a v) = None" "owns (Sizing a) = None" "owns (Unlocking a) = None"
  "owns (Copying a) = None" "owns (Releasing a resp) = None"
  by (simp_all add: touches_def writes_item_def reads_item_def owns_def)

lemma target_changes:
  assumes "shared org s t bs ts" and "changes e t bs s s'" and "target s (set (bs (slot t r))) r a"
  shows "target s' (set (bs (slot t r))) r a"
proof -
  have "slot t r < length (ht_items t)" using slot_less [OF shared_table(2) [OF assms(1)]] .
  moreover have "a \<in> set (bs (slot t r))" using assms(3) by (simp add: target_def)
  ultimately have "a \<in> nodes (length (ht_items t)) bs" by (rule nodes_bucket)
  with assms(2,3) show ?thesis by (auto simp: changes_def target_def)
qed

lemma step_locking:
  assumes sh: "shared org s t bs ts" and pc: "point (ts me) = Locking e"
    and ok: "point_ok (org (slot t r)) s (set (bs (slot t r))) r (Locking e)"
  shows "stepped org s t bs ts me r"
proof -
  have m: "req_method r = SET" and tg: "target s (set (bs (slot t r))) r e"
    using ok by (simp_all add: point_ok_def)
  from shared_node [OF sh tg] obtain it where it: "cells s e = Some it" "e \<in> nodes (length (ht_items t)) bs"
    "rw_agrees (item_rwlock it) (writers ts e) (readers ts e)" "writers ts e = {} \<Longrightarrow> org (slot t r) (key_of s e) (value_of s e)" by metis
  let ?l = "rw_trywrlock me (item_rwlock it)"
  let ?s = "s\<lparr>cells := (cells s)(e \<mapsto> it\<lparr>item_rwlock := snd ?l\<rparr>)\<rparr>"
  let ?pc = "if fst ?l \<noteq> 0 then Answered (zero_response\<lparr>resp_code := KEY_ERROR\<rparr>) else Allocating e"
  note ch = relock_changes [OF shared_table(2) [OF sh] it(2,1), of "snd ?l"]
  have no: "me \<notin> writers ts e" "me \<notin> readers ts e" using pc by (simp_all add: in_holders)
  show ?thesis
  proof (rule stepped_changes [OF sh _ ch(1) tg])
    show "micro me r (point (ts me)) s = Return (?pc, ?s)" using it(1) pc by (simp add: micro_def cmd_run)
    show "rw_agrees (lock_of ?s e) (writers (moved ts me ?pc) e) (readers (moved ts me ?pc) e)"
      using lk.take_write [OF it(3), of me] no ch(3) by (auto simp: moved_holders)
    show "org (slot t r) (key_of s e) (value_of ?s e)" if "writers (moved ts me ?pc) e = {}"
    proof -
      have "writers ts e = {}" using that no by (auto simp: moved_holders split: if_splits)
      with it(4) item_view_value [OF ch(2)] show ?thesis by simp
    qed
    show "point_ok (org (slot t r)) ?s (set (bs (slot t r))) r ?pc"
      using m target_changes [OF sh ch(1) tg] by (simp add: point_ok_def answer_ok_def)
  qed (use pc ch in auto)
qed

text \<open>The steps of a writer: it is the only one, and the others see nothing of them.\<close>

lemma writer_moved:
  assumes "rw_agrees l (writers ts e) (readers ts e)" and "writes_item (point (ts me)) = Some e"
    and "writes_item pc = Some e" and "reads_item pc = None"
  shows "rw_agrees l (writers (moved ts me pc) e) (readers (moved ts me pc) e)"
    and "writers (moved ts me pc) e \<noteq> {}"
proof -
  have w: "me \<in> writers ts e" using assms(2) by (simp add: in_holders)
  from lk.writer_alone [OF assms(1) this] have "writers ts e = {me}" "readers ts e = {}" by simp_all
  with assms show "rw_agrees l (writers (moved ts me pc) e) (readers (moved ts me pc) e)"
    and "writers (moved ts me pc) e \<noteq> {}" by (simp_all add: moved_holders)
qed

lemma stepped_writer:
  assumes sh: "shared org s t bs ts" and m: "micro me r (point (ts me)) s = Return (pc, s')"
    and ch: "changes e t bs s s'" and e: "e \<in> nodes (length (ht_items t)) bs"
    and tg: "target s (set (bs (slot t r))) r e"
    and pcs: "writes_item (point (ts me)) = Some e" "touches (point (ts me)) = {e}"
      "writes_item pc = Some e" "reads_item pc = None" "touches pc = {e}" "owns pc = owns (point (ts me))"
    and l: "lock_of s' e = lock_of s e"
    and ok: "point_ok (org (slot t r)) s' (set (bs (slot t r))) r pc" "section_ok t s' (set (bs (slot t r))) r pc"
  shows "stepped org s t bs ts me r"
proof (rule stepped_changes [OF sh m ch tg])
  have "rw_agrees (lock_of s e) (writers ts e) (readers ts e)" using sh e by (auto simp: shared_def nodes_def)
  note w = writer_moved [OF this pcs(1,3,4)]
  show "rw_agrees (lock_of s' e) (writers (moved ts me pc) e) (readers (moved ts me pc) e)"
    using w(1) l by simp
  show "org (slot t r) (key_of s e) (value_of s' e)" if "writers (moved ts me pc) e = {}"
    using w(2) that by simp
qed (use pcs ok in simp_all)

lemma step_allocating:
  assumes sh: "shared org s t bs ts" and pc: "point (ts me) = Allocating e"
    and ok: "point_ok (org (slot t r)) s (set (bs (slot t r))) r (Allocating e)"
  shows "stepped org s t bs ts me r"
proof -
  have m: "req_method r = SET" and tg: "target s (set (bs (slot t r))) r e"
    using ok by (simp_all add: point_ok_def)
  from shared_node [OF sh tg] obtain it where it: "cells s e = Some it" "e \<in> nodes (length (ht_items t)) bs" by metis
  let ?b = "map (junk s (fresh s)) [0..<MSG_SIZE]"
  let ?s = "s\<lparr>blocks := (blocks s)(fresh s \<mapsto> ?b), fresh := fresh s + 1,
    cells := (cells s)(e \<mapsto> it\<lparr>item_value := Some (fresh s)\<rparr>)\<rparr>"
  have len: "length ?b = MSG_SIZE" by simp
  note ch = alloc_changes [OF shared_table(2) [OF sh] it(2,1) len]
  show ?thesis
  proof (rule stepped_writer [OF sh _ ch(1) it(2) tg])
    show "micro me r (point (ts me)) s = Return (Filling e (fresh s), ?s)"
      using it(1) pc by (simp add: micro_def cmd_run)
    show "point_ok (org (slot t r)) ?s (set (bs (slot t r))) r (Filling e (fresh s))"
      using m target_changes [OF sh ch(1) tg] by (simp add: point_ok_def item_view_def)
  qed (use pc ch(2) in simp_all)
qed

lemma step_filling:
  assumes sh: "shared org s t bs ts" and pc: "point (ts me) = Filling e v" and snd: "sound (org (slot t r)) r"
    and ok: "point_ok (org (slot t r)) s (set (bs (slot t r))) r (Filling e v)"
  shows "stepped org s t bs ts me r"
proof -
  have m: "req_method r = SET" and tg: "target s (set (bs (slot t r))) r e"
    using ok by (simp_all add: point_ok_def)
  from shared_node [OF sh tg] obtain it where it: "cells s e = Some it" "e \<in> nodes (length (ht_items t)) bs"
    "value_ok s it" by metis
  have v: "item_value it = Some v" using ok it(1) by (auto simp: point_ok_def item_view_def)
  with it(3) obtain vb where vb: "blocks s v = Some vb" "length vb = MSG_SIZE" by (auto simp: value_ok_def)
  have len: "unat (req_msg_len r) \<le> length (req_msg r)" "unat (req_msg_len r) \<le> MSG_SIZE"
    using fits_lengths(3,4) snd by (auto simp: sound_def)
  let ?b = "take (unat (req_msg_len r)) (req_msg r) @ drop (unat (req_msg_len r)) vb"
  let ?s = "s\<lparr>blocks := (blocks s)(v \<mapsto> ?b)\<rparr>"
  have bl: "length ?b = MSG_SIZE" using len vb by simp
  note ch = fill_changes [OF shared_table(2) [OF sh] it(2,1) v bl]
  show ?thesis
  proof (rule stepped_writer [OF sh _ ch(1) it(2) tg])
    show "micro me r (point (ts me)) s = Return (Sizing e, ?s)"
      using vb len pc by (simp add: micro_def cmd_run memcpy_def)
    have "item_view ?s e = Some (Some v, item_value_size it, ?b)"
      using it(1) v by (simp add: item_view_def buf_at_def)
    then show "point_ok (org (slot t r)) ?s (set (bs (slot t r))) r (Sizing e)"
      using m target_changes [OF sh ch(1) tg] len by (simp add: point_ok_def req_value_def)
  qed (use pc ch(2) in simp_all)
qed

lemma step_sizing:
  assumes sh: "shared org s t bs ts" and pc: "point (ts me) = Sizing e" and snd: "sound (org (slot t r)) r"
    and ok: "point_ok (org (slot t r)) s (set (bs (slot t r))) r (Sizing e)"
  shows "stepped org s t bs ts me r"
proof -
  have m: "req_method r = SET" and tg: "target s (set (bs (slot t r))) r e"
    using ok by (simp_all add: point_ok_def)
  from shared_node [OF sh tg] obtain it where it: "cells s e = Some it" "e \<in> nodes (length (ht_items t)) bs" by metis
  obtain v where v: "item_value it = Some v" "take (unat (req_msg_len r)) (buf_at s (Some v)) = req_value r"
    using ok it(1) by (auto simp: point_ok_def item_view_def)
  let ?s = "s\<lparr>cells := (cells s)(e \<mapsto> it\<lparr>item_value_size := req_msg_len r\<rparr>)\<rparr>"
  have len: "unat (req_msg_len r) \<le> MSG_SIZE" using fits_lengths(4) snd by (auto simp: sound_def)
  note ch = size_changes [OF shared_table(2) [OF sh] it(2,1) v(1) len]
  show ?thesis
  proof (rule stepped_writer [OF sh _ ch(1) it(2) tg])
    show "micro me r (point (ts me)) s = Return (Unlocking e, ?s)"
      using it pc by (simp add: micro_def cmd_run)
    show "point_ok (org (slot t r)) ?s (set (bs (slot t r))) r (Unlocking e)"
      using m target_changes [OF sh ch(1) tg] v by (simp add: point_ok_def value_of_def buf_at_def)
  qed (use pc ch(2) in simp_all)
qed

lemma step_unlocking:
  assumes sh: "shared org s t bs ts" and pc: "point (ts me) = Unlocking e" and snd: "sound (org (slot t r)) r"
    and ok: "point_ok (org (slot t r)) s (set (bs (slot t r))) r (Unlocking e)"
  shows "stepped org s t bs ts me r"
proof -
  have m: "req_method r = SET" and tg: "target s (set (bs (slot t r))) r e"
    and val: "value_of s e = req_value r"
    using ok by (simp_all add: point_ok_def)
  from shared_node [OF sh tg] obtain it where it: "cells s e = Some it" "e \<in> nodes (length (ht_items t)) bs"
    "key_matches r (key_of s e)" "rw_agrees (item_rwlock it) (writers ts e) (readers ts e)" by metis
  have "me \<in> writers ts e" using pc by (simp add: in_holders)
  from lk.release_write [OF it(4) this] obtain l where l: "rw_unlock me (item_rwlock it) = Return l"
    "rw_agrees l (writers ts e - {me}) (readers ts e)" by blast
  have no: "me \<notin> readers ts e" using pc by (simp add: in_holders)
  let ?s = "s\<lparr>cells := (cells s)(e \<mapsto> it\<lparr>item_rwlock := l\<rparr>)\<rparr>"
  let ?pc = "Answered (zero_response\<lparr>resp_code := OK\<rparr>)"
  note ch = relock_changes [OF shared_table(2) [OF sh] it(2,1), of l]
  show ?thesis
  proof (rule stepped_changes [OF sh _ ch(1) tg])
    show "micro me r (point (ts me)) s = Return (?pc, ?s)" using it(1) l(1) pc by (simp add: micro_def cmd_run)
    show "rw_agrees (lock_of ?s e) (writers (moved ts me ?pc) e) (readers (moved ts me ?pc) e)"
      using l(2) no ch(3) by (simp add: moved_holders)
    show "org (slot t r) (key_of s e) (value_of ?s e)"
      using item_view_value [OF ch(2)] val it(3) snd m by (simp add: sound_def)
    show "point_ok (org (slot t r)) ?s (set (bs (slot t r))) r ?pc"
      using m by (simp add: point_ok_def answer_ok_def)
  qed (use pc in auto)
qed

text \<open>The steps of a reader.\<close>

lemma visit_node:
  assumes ok: "table_ok s t bs" and a: "a \<in> nodes (length (ht_items t)) bs" and fits: "request_fits r"
  shows "visit r a s = Return ((key_matches r (key_of s a), next_of s a), s)"
proof -
  from node_item [OF ok a] obtain it k kb where it: "cells s a = Some it" "item_key it = Some k"
    "blocks s k = Some kb" "0 \<in> set kb" by metis
  have key: "cstr (key_of s a) kb" using it by (simp add: key_of_def buf_at_def cstr_cstr_of)
  from strncmp_cstr [OF key request_fits_cstr [OF fits], of "req_prefix r"] obtain x where
    "strncmp kb (req_key r) (req_prefix r) = Return x" "x = 0 \<longleftrightarrow> key_matches r (key_of s a)"
    by (auto simp: key_matches_def)
  with it show ?thesis by (simp add: visit_eq_Return next_of_def)
qed

lemma step_walking:
  assumes sh: "shared org s t bs ts" and pc: "point (ts me) = Walking p" and snd: "sound (org (slot t r)) r"
    and ok: "point_ok (org (slot t r)) s (set (bs (slot t r))) r (Walking p)"
  shows "stepped org s t bs ts me r"
proof -
  let ?N = "set (bs (slot t r))"
  from ok obtain as where m: "req_method r = GET" and as: "path s p as" "set as \<subseteq> ?N"
    by (auto simp: point_ok_def)
  show ?thesis
  proof (cases p)
    case None
    show ?thesis
    proof (rule stepped_same [OF sh])
      show "micro me r (point (ts me)) s = Return (Answered key_error, s)"
        using pc None by (simp add: micro_def cmd_run)
    qed (use pc in \<open>simp_all add: point_ok_def answer_ok_def\<close>)
  next
    case (Some a)
    with as obtain as' where a: "a \<in> ?N" "path s (next_of s a) as'" "set as' \<subseteq> ?N"
      by (cases as) auto
    have "a \<in> nodes (length (ht_items t)) bs"
      using nodes_bucket [where bs = bs, OF slot_less [OF shared_table(2) [OF sh]] a(1)] .
    from visit_node [OF shared_table(2) [OF sh] this] snd
    have v: "visit r a s = Return ((key_matches r (key_of s a), next_of s a), s)" by (simp add: sound_def)
    let ?pc = "if key_matches r (key_of s a) then Reading a else Walking (next_of s a)"
    show ?thesis
    proof (rule stepped_same [OF sh])
      show "micro me r (point (ts me)) s = Return (?pc, s)"
        using pc Some v by (simp add: micro_def cmd_run)
      show "point_ok (org (slot t r)) s ?N r ?pc" using m a by (auto simp: point_ok_def target_def)
    qed (use pc in auto)
  qed
qed

lemma step_reading:
  assumes sh: "shared org s t bs ts" and pc: "point (ts me) = Reading a"
    and ok: "point_ok (org (slot t r)) s (set (bs (slot t r))) r (Reading a)"
  shows "stepped org s t bs ts me r"
proof -
  have m: "req_method r = GET" and tg: "target s (set (bs (slot t r))) r a"
    using ok by (simp_all add: point_ok_def)
  from shared_node [OF sh tg] obtain it where it: "cells s a = Some it" "a \<in> nodes (length (ht_items t)) bs"
    "rw_agrees (item_rwlock it) (writers ts a) (readers ts a)" "writers ts a = {} \<Longrightarrow> org (slot t r) (key_of s a) (value_of s a)" by metis
  let ?l = "rw_tryrdlock me (item_rwlock it)"
  let ?s = "s\<lparr>cells := (cells s)(a \<mapsto> it\<lparr>item_rwlock := snd ?l\<rparr>)\<rparr>"
  let ?pc = "if fst ?l \<noteq> 0 then Answered (zero_response\<lparr>resp_code := KEY_ERROR\<rparr>) else Copying a"
  note ch = relock_changes [OF shared_table(2) [OF sh] it(2,1), of "snd ?l"]
  have no: "me \<notin> writers ts a" "me \<notin> readers ts a" using pc by (simp_all add: in_holders)
  show ?thesis
  proof (rule stepped_changes [OF sh _ ch(1) tg])
    show "micro me r (point (ts me)) s = Return (?pc, ?s)" using it(1) pc by (simp add: micro_def cmd_run)
    show "rw_agrees (lock_of ?s a) (writers (moved ts me ?pc) a) (readers (moved ts me ?pc) a)"
      using lk.take_read [OF it(3) no(2)] no ch(3) by (auto simp: moved_holders)
    show "org (slot t r) (key_of s a) (value_of ?s a)" if "writers (moved ts me ?pc) a = {}"
    proof -
      have "writers ts a = {}" using that no by (auto simp: moved_holders split: if_splits)
      with it(4) item_view_value [OF ch(2)] show ?thesis by simp
    qed
    show "point_ok (org (slot t r)) ?s (set (bs (slot t r))) r ?pc"
      using m target_changes [OF sh ch(1) tg] by (simp add: point_ok_def answer_ok_def)
  qed (use pc ch in auto)
qed

lemma step_copying:
  assumes sh: "shared org s t bs ts" and pc: "point (ts me) = Copying a"
    and ok: "point_ok (org (slot t r)) s (set (bs (slot t r))) r (Copying a)"
  shows "stepped org s t bs ts me r"
proof -
  let ?N = "nodes (length (ht_items t)) bs"
  have m: "req_method r = GET" and tg: "target s (set (bs (slot t r))) r a"
    using ok by (simp_all add: point_ok_def)
  from shared_node [OF sh tg] obtain it where it: "cells s a = Some it" "a \<in> ?N"
    "key_matches r (key_of s a)" "rw_agrees (item_rwlock it) (writers ts a) (readers ts a)"
    "writers ts a = {} \<Longrightarrow> org (slot t r) (key_of s a) (value_of s a)" by metis
  have rd: "me \<in> readers ts a" using pc by (simp add: in_holders)
  with lk.one_writer [OF it(4)] have "writers ts a = {}" by auto
  note org = it(5) [OF this]
  have iok: "item_ok s a" using shared_table(2) [OF sh] it(2) by (simp add: table_ok_def)
  have len: "length (resp_msg zero_response) = MSG_SIZE" using zero_response_wf by (simp add: response_wf_def)
  let ?resp = "got_response (value_of s a) zero_response"
  have run: "micro me r (point (ts me)) s = Return (Releasing a ?resp, s)"
    using pc it(1) copy_value_run [OF it(1) iok len]
    by (simp add: micro_def cmd_run got_response_def)
  have pt: "point_ok (org (slot t r)) s (set (bs (slot t r))) r (Releasing a ?resp)"
    using m tg it(3) org by (auto simp: point_ok_def answer_ok_def)
  have "writers (moved ts me (Releasing a ?resp)) b = writers ts b"
    "readers (moved ts me (Releasing a ?resp)) b = readers ts b" for b
    using pc by (auto simp: moved_holders in_holders)
  then have "shared org s t bs (moved ts me (Releasing a ?resp))"
    using sh it(2) touches_moved [of ts ?N "Releasing a ?resp" me] owners_same [of "Releasing a ?resp" ts me] pc
    by (simp add: shared_def)
  with run pt keeps_refl show ?thesis unfolding stepped_def by (metis section_ok_simps(10))
qed

lemma step_releasing:
  assumes sh: "shared org s t bs ts" and pc: "point (ts me) = Releasing a resp"
    and ok: "point_ok (org (slot t r)) s (set (bs (slot t r))) r (Releasing a resp)"
  shows "stepped org s t bs ts me r"
proof -
  have tg: "target s (set (bs (slot t r))) r a" and an: "answer_ok (org (slot t r)) r resp"
    using ok by (simp_all add: point_ok_def)
  from shared_node [OF sh tg] obtain it where it: "cells s a = Some it" "a \<in> nodes (length (ht_items t)) bs"
    "rw_agrees (item_rwlock it) (writers ts a) (readers ts a)" "writers ts a = {} \<Longrightarrow> org (slot t r) (key_of s a) (value_of s a)" by metis
  have "me \<in> readers ts a" using pc by (simp add: in_holders)
  from lk.release_read [OF it(3) this] obtain l where l: "rw_unlock me (item_rwlock it) = Return l"
    "rw_agrees l (writers ts a) (readers ts a - {me})" by blast
  have no: "me \<notin> writers ts a" using pc by (simp add: in_holders)
  let ?s = "s\<lparr>cells := (cells s)(a \<mapsto> it\<lparr>item_rwlock := l\<rparr>)\<rparr>"
  note ch = relock_changes [OF shared_table(2) [OF sh] it(2,1), of l]
  show ?thesis
  proof (rule stepped_changes [OF sh _ ch(1) tg])
    show "micro me r (point (ts me)) s = Return (Answered resp, ?s)"
      using it(1) l(1) pc by (simp add: micro_def cmd_run)
    show "rw_agrees (lock_of ?s a) (writers (moved ts me (Answered resp)) a) (readers (moved ts me (Answered resp)) a)"
      using l(2) no ch(3) by (simp add: moved_holders)
    show "org (slot t r) (key_of s a) (value_of ?s a)" if "writers (moved ts me (Answered resp)) a = {}"
      using that no it(4) item_view_value [OF ch(2)] by (simp add: moved_holders)
    show "point_ok (org (slot t r)) ?s (set (bs (slot t r))) r (Answered resp)"
      using an by (simp add: point_ok_def)
  qed (use pc ch in auto)
qed

text \<open>The first step.\<close>

lemma inserted_next: "a \<noteq> fresh s \<Longrightarrow> next_of (inserted b t key n s) a = next_of s a"
  by (auto simp: next_of_def inserted_def Let_def split: option.splits)

lemma inserted_lock: "a \<noteq> fresh s \<Longrightarrow> lock_of (inserted b t key n s) a = lock_of s a"
  using inserted_frame(2) by (rule lock_of_cong)

lemma start_get_run:
  assumes sh: "shared org s t bs ts" and fits: "request_fits r" and m: "req_method r = GET"
  shows "micro me r Start s = Return (Walking (ht_items t ! slot t r), s)"
    and "path s (ht_items t ! slot t r) (bs (slot t r))"
proof -
  note t = shared_table [OF sh]
  have b: "slot t r < length (ht_items t)" using slot_less [OF t(2)] .
  have "ht_capacity t \<noteq> 0" using t(2) by (simp add: table_ok_def shape_ok_def)
  with m b get_bucket_run [OF request_fits_cstr [OF fits] t(1)] the_ht_run [OF t(1)]
  show "micro me r Start s = Return (Walking (ht_items t ! slot t r), s)"
    by (simp add: micro_def cbind_run clift_run cret_run)
  show "path s (ht_items t ! slot t r) (bs (slot t r))" by (rule chain_path [OF table_ok_bucket(1) [OF t(2) b]])
qed

lemma step_start_get:
  assumes sh: "shared org s t bs ts" and pc: "point (ts me) = Start" and snd: "sound (org (slot t r)) r"
    and m: "req_method r = GET"
  shows "stepped org s t bs ts me r"
proof -
  have "request_fits r" using snd by (simp add: sound_def)
  note run = start_get_run [OF sh this m]
  have ok: "point_ok (org (slot t r)) s (set (bs (slot t r))) r (Walking (ht_items t ! slot t r))"
    using m run(2) by (auto simp: point_ok_def)
  show ?thesis by (rule stepped_same [OF sh _ _ _ _ ok]) (use pc run(1) in simp_all)
qed

section \<open>The steps of \<open>get_key_entry\<close>\<close>

lemma bucket_run:
  assumes sh: "shared org s t bs ts" and fits: "request_fits r"
  shows "get_bucket (req_key r) s = Return (slot t r, s)" and "the_ht s = Return (t, s)"
    and "slot t r < length (ht_items t)" and "slot t r < length (ht_locks t)"
proof -
  note t = shared_table [OF sh]
  have "ht_capacity t \<noteq> 0" using t(2) by (simp add: table_ok_def shape_ok_def)
  with t show "get_bucket (req_key r) s = Return (slot t r, s)" "the_ht s = Return (t, s)"
    using get_bucket_run [OF request_fits_cstr [OF fits] t(1)] by (simp_all add: the_ht_run)
  show "slot t r < length (ht_items t)" by (rule slot_less [OF t(2)])
  then show "slot t r < length (ht_locks t)" using t(2) by (simp add: table_ok_def shape_ok_def)
qed

lemma step_start_set:
  assumes sh: "shared org s t bs ts" and pc: "point (ts me) = Start" and snd: "sound (org (slot t r)) r"
    and m: "req_method r = SET"
  shows "stepped org s t bs ts me r"
proof -
  have fits: "request_fits r" using snd by (simp add: sound_def)
  show ?thesis
  proof (rule stepped_same [OF sh])
    show "micro me r (point (ts me)) s = Return (Entering (slot t r), s)"
      using pc m bucket_run(1) [OF sh fits] by (simp add: micro_def cmd_run)
  qed (use pc m in \<open>simp_all add: point_ok_def section_ok_def\<close>)
qed

text \<open>A step that changes the mutexes only.\<close>

lemma stepped_locks:
  assumes sh: "shared org s t bs ts" and l: "length l = length (ht_locks t)"
    and m: "micro me r (point (ts me)) s = Return (pc, s\<lparr>ht := Ht_live (t\<lparr>ht_locks := l\<rparr>)\<rparr>)"
    and pcs: "touches (point (ts me)) = {}" "touches pc = {}"
    and agree: "\<forall>b < length l. mutex_agrees (l ! b) (owners (moved ts me pc) b)"
    and ok: "point_ok (org (slot t r)) s (set (bs (slot t r))) r pc"
    and sec: "section_ok (t\<lparr>ht_locks := l\<rparr>) (s\<lparr>ht := Ht_live (t\<lparr>ht_locks := l\<rparr>)\<rparr>) (set (bs (slot t r))) r pc"
  shows "stepped org s t bs ts me r"
proof -
  let ?t = "t\<lparr>ht_locks := l\<rparr>" and ?s = "s\<lparr>ht := Ht_live (t\<lparr>ht_locks := l\<rparr>)\<rparr>"
  have "shared org ?s ?t bs (moved ts me pc)"
    using sh l agree pcs holders_elsewhere [of _ ts me pc] touches_moved [of ts _ pc me] by (simp add: shared_def)
  moreover have "keeps X N s N ?s" for X N by (simp add: keeps_def)
  ultimately show ?thesis
    using m ok sec unfolding stepped_def
    by (intro exI [of _ pc] exI [of _ ?s] exI [of _ ?t] exI [of _ bs]) simp
qed

lemma step_entering:
  assumes sh: "shared org s t bs ts" and pc: "point (ts me) = Entering b" and snd: "sound (org (slot t r)) r"
    and ok: "point_ok (org (slot t r)) s (set (bs (slot t r))) r (Entering b)"
    and sec: "section_ok t s (set (bs (slot t r))) r (Entering b)"
  shows "stepped org s t bs ts me r"
proof -
  have m: "req_method r = SET" and b: "b = slot t r" using ok sec by (simp_all add: point_ok_def section_ok_def)
  have "request_fits r" using snd by (simp add: sound_def)
  note run = bucket_run [OF sh this]
  note t = shared_table [OF sh]
  show ?thesis
  proof (cases "ht_locks t ! b")
    case True
    show ?thesis
    proof (rule stepped_same [OF sh])
      show "micro me r (point (ts me)) s = Return (Entering b, s)"
        using pc True run(4) b t(1) by (simp add: micro_def await_def mutex_lock_run)
    qed (use pc ok sec in simp_all)
  next
    case False
    let ?l = "(ht_locks t)[b := True]"
    show ?thesis
    proof (rule stepped_locks [OF sh])
      show "micro me r (point (ts me)) s = Return (Entered b, s\<lparr>ht := Ht_live (t\<lparr>ht_locks := ?l\<rparr>)\<rparr>)"
        using pc False run(4) b t(1) by (simp add: micro_def await_def mutex_lock_run cmd_run)
      show "\<forall>c < length ?l. mutex_agrees (?l ! c) (owners (moved ts me (Entered b)) c)"
      proof (intro allI impI)
        fix c assume c: "c < length ?l"
        then have ag: "mutex_agrees (ht_locks t ! c) (owners ts c)" using sh by (simp add: shared_def)
        show "mutex_agrees (?l ! c) (owners (moved ts me (Entered b)) c)"
        proof (cases "c = b")
          case True
          with ag False c mutex_take [of "owners ts b" me] show ?thesis by (simp add: moved_holders)
        next
          case False
          have "me \<notin> owners ts c" using pc by (simp add: in_holders)
          with False ag show ?thesis by (auto simp: moved_holders)
        qed
      qed
    qed (use pc m b in \<open>simp_all add: point_ok_def section_ok_def\<close>)
  qed
qed

lemma step_entered:
  assumes sh: "shared org s t bs ts" and pc: "point (ts me) = Entered b" and snd: "sound (org (slot t r)) r"
    and ok: "point_ok (org (slot t r)) s (set (bs (slot t r))) r (Entered b)"
    and sec: "section_ok t s (set (bs (slot t r))) r (Entered b)"
  shows "stepped org s t bs ts me r"
proof -
  have m: "req_method r = SET" and b: "b = slot t r" using ok sec by (simp_all add: point_ok_def section_ok_def)
  have "request_fits r" using snd by (simp add: sound_def)
  note run = bucket_run [OF sh this]
  let ?pc = "Seeking b (ht_items t ! b) (ht_items t ! b)"
  have "path s (ht_items t ! b) (bs b)"
    using chain_path [OF table_ok_bucket(1) [OF shared_table(2) [OF sh] run(3)]] b by simp
  then have "section_ok t s (set (bs (slot t r))) r ?pc" using b by (auto simp: section_ok_def)
  moreover have run: "micro me r (point (ts me)) s = Return (?pc, s)"
    using pc run b by (simp add: micro_def cmd_run)
  ultimately show ?thesis using pc m by (intro stepped_same [OF sh run]) (simp_all add: point_ok_def)
qed

lemma step_seeking:
  assumes sh: "shared org s t bs ts" and pc: "point (ts me) = Seeking b h p" and snd: "sound (org (slot t r)) r"
    and ok: "point_ok (org (slot t r)) s (set (bs (slot t r))) r (Seeking b h p)"
    and sec: "section_ok t s (set (bs (slot t r))) r (Seeking b h p)"
  shows "stepped org s t bs ts me r"
proof -
  let ?N = "set (bs (slot t r))"
  from ok sec obtain as where m: "req_method r = SET" and b: "b = slot t r" "h = ht_items t ! b"
    and as: "path s p as" "set as \<subseteq> ?N" "\<forall>a \<in> ?N - set as. \<not> key_matches r (key_of s a)"
    by (auto simp: point_ok_def section_ok_def)
  show ?thesis
  proof (cases p)
    case None
    with as(1) have "as = []" by (cases as) simp_all
    show ?thesis
    proof (rule stepped_same [OF sh])
      show "micro me r (point (ts me)) s = Return (Adding b h, s)"
        using pc None m by (simp add: micro_def cmd_run sought_def)
      show "section_ok t s ?N r (Adding b h)" using b as(3) \<open>as = []\<close> by (simp add: section_ok_def)
    qed (use pc m in \<open>simp_all add: point_ok_def\<close>)
  next
    case (Some a)
    with as(1) obtain as' where as': "as = a # as'" by (cases as) simp_all
    with as(1,2) Some have a: "a \<in> ?N" "path s (next_of s a) as'" "set as' \<subseteq> ?N" by simp_all
    have "a \<in> nodes (length (ht_items t)) bs"
      using nodes_bucket [where bs = bs, OF slot_less [OF shared_table(2) [OF sh]] a(1)] .
    from visit_node [OF shared_table(2) [OF sh] this] snd
    have v: "visit r a s = Return ((key_matches r (key_of s a), next_of s a), s)" by (simp add: sound_def)
    let ?pc = "if key_matches r (key_of s a) then Leaving b (Locking a) else Seeking b h (next_of s a)"
    show ?thesis
    proof (rule stepped_same [OF sh])
      show "micro me r (point (ts me)) s = Return (?pc, s)"
        using pc Some v m by (simp add: micro_def cmd_run sought_def)
      show "point_ok (org (slot t r)) s ?N r ?pc" using m a by (auto simp: point_ok_def target_def)
      show "section_ok t s ?N r ?pc" using b a as(3) as' by (auto simp: section_ok_def)
    qed (use pc in auto)
  qed
qed

text \<open>What the insertion of an item leaves to the items that are there.\<close>

lemma inserted_keeps:
  assumes ok: "table_ok s t bs" and c: "c < length (ht_items t)"
  shows "keeps {} (set (bs c)) s (set ((bs(b := fresh s # bs b)) c)) (inserted b t key n s)"
proof -
  let ?s = "inserted b t key n s"
  have bf: "below_fresh s" using ok by (simp add: table_ok_def)
  have "key_of ?s a = key_of s a \<and> next_of ?s a = next_of s a \<and> item_view ?s a = item_view s a"
    if "a \<in> set (bs c)" for a
  proof -
    have a: "a \<noteq> fresh s" "item_ok s a" using table_ok_bucket(3,4) [OF ok c that] by auto
    have "blocks ?s x = blocks s x" if "x \<in> bufs s a" for x
      using bufs_below [OF bf a(2) that] by simp
    from item_view_frame [OF inserted_frame(1) [OF a(1)] this] show ?thesis
      using inserted_item_ok(2) [OF bf a] inserted_next [OF a(1)] by simp
  qed
  then show ?thesis by (auto simp: keeps_def)
qed

lemma step_adding:
  assumes sh: "shared org s t bs ts" and pc: "point (ts me) = Adding b h" and snd: "sound (org (slot t r)) r"
    and empty_value: "\<And>b k. org b k []"
    and ok: "point_ok (org (slot t r)) s (set (bs (slot t r))) r (Adding b h)"
    and sec: "section_ok t s (set (bs (slot t r))) r (Adding b h)"
  shows "stepped org s t bs ts me r"
proof -
  have m: "req_method r = SET" and b: "b = slot t r" and h: "h = ht_items t ! b"
    using ok sec by (simp_all add: point_ok_def section_ok_def)
  have fits: "request_fits r" using snd by (simp add: sound_def)
  note run = bucket_run [OF sh fits]
  note t = shared_table [OF sh] and q = request_fits_cstr [OF fits] and len = fits_lengths [OF fits]
  have bl: "b < length (ht_items t)" using run(3) b by simp
  let ?n = "req_prefix r" and ?N = "nodes (length (ht_items t)) bs"
  let ?s = "inserted b t (req_key r) ?n s" and ?t = "t\<lparr>ht_items := (ht_items t)[b := Some (fresh s)]\<rparr>"
    and ?bs = "bs(b := fresh s # bs b)" and ?pc = "Leaving b (Locking (fresh s))"
  note bk = table_ok_bucket [OF t(2) bl]
  have head: "x < fresh s" if "ht_items t ! b = Some x" for x
    using head_of_chain [OF bk(1) that] bk(4) by blast
  note new = inserted_new_item [of t b s, OF head]
  have bf: "below_fresh s" using t(2) by (simp add: table_ok_def)
  have run: "micro me r (point (ts me)) s = Return (?pc, ?s)"
    using pc h new_entry_run [OF t(1) bl bk(1) bf] len(1,2) by (simp add: micro_def cmd_run)
  have "fresh s \<notin> ?N" using table_ok_below [OF t(2)] by blast
  then have "fresh s \<notin> touches (point (ts u))" for u using sh by (auto simp: shared_def)
  then have w: "writers ts (fresh s) = {}" "readers ts (fresh s) = {}"
    by (auto simp: writers_def readers_def touches_def)
  have "rw_agrees (lock_of ?s a) (writers ts a) (readers ts a) \<and>
      (writers ts a = {} \<longrightarrow> org c (key_of ?s a) (value_of ?s a))"
    if c: "c < length (ht_items t)" "a \<in> set (?bs c)" for a c
  proof (cases "a = fresh s")
    case True
    with w new empty_value show ?thesis by simp
  next
    case False
    with c(2) have a: "a \<in> set (bs c)" by (simp split: if_splits)
    have "item_ok s a" using table_ok_bucket(3) [OF t(2) c(1) a] .
    with sh c(1) a inserted_lock [OF False] inserted_item_ok(2,3) [OF bf False] show ?thesis
      by (simp add: shared_def)
  qed
  moreover have "touches (point (ts u)) \<subseteq> nodes (length (ht_items t)) ?bs" for u
    using sh inserted_nodes [where bs = bs, OF bl] by (auto simp: shared_def)
  ultimately have "shared org ?s ?t ?bs ts"
    using sh inserted_table_ok [OF t(2) bl] by (simp add: shared_def)
  then have "shared org ?s ?t ?bs (moved ts me ?pc)"
    using pc holders_elsewhere [of _ ts me ?pc] touches_moved [of ts _ ?pc me] owners_same [of ?pc ts me]
    by (simp add: shared_def)
  moreover have "point_ok (org b) ?s (set (?bs b)) r ?pc"
    using m new(2) stored_key_cstr [OF q, of ?n]
    by (simp add: point_ok_def target_def key_matches_def stored_key_def)
  moreover have "section_ok ?t ?s (set (?bs b)) r ?pc" using b by (simp add: section_ok_def)
  moreover have "\<forall>c < length (ht_items t). keeps {} (set (bs c)) s (set (?bs c)) ?s"
    using inserted_keeps [OF t(2)] by blast
  moreover have "\<forall>c < length (ht_items t). owns (point (ts me)) \<noteq> Some c \<longrightarrow> ?bs c = bs c \<and> ht_items ?t ! c = ht_items t ! c"
    using pc by simp
  ultimately show ?thesis
    using run pc b unfolding stepped_def
    by (intro exI [of _ ?pc] exI [of _ ?s] exI [of _ ?t] exI [of _ ?bs]) simp
qed

lemma step_leaving:
  assumes sh: "shared org s t bs ts" and pc: "point (ts me) = Leaving b pc'" and snd: "sound (org (slot t r)) r"
    and ok: "point_ok (org (slot t r)) s (set (bs (slot t r))) r (Leaving b pc')"
    and sec: "section_ok t s (set (bs (slot t r))) r (Leaving b pc')"
  shows "stepped org s t bs ts me r"
proof -
  from ok sec obtain e where m: "req_method r = SET" and b: "b = slot t r" and e: "pc' = Locking e"
    "target s (set (bs (slot t r))) r e" by (auto simp: point_ok_def section_ok_def)
  have "request_fits r" using snd by (simp add: sound_def)
  note run = bucket_run [OF sh this]
  note t = shared_table [OF sh]
  have me: "me \<in> owners ts b" using pc by (simp add: in_holders)
  have agree: "\<forall>c < length (ht_locks t). mutex_agrees (ht_locks t ! c) (owners ts c)" using sh by (simp add: shared_def)
  then have held: "ht_locks t ! b" using mutex_alone [OF _ me] run(4) b by blast
  let ?l = "(ht_locks t)[b := False]"
  show ?thesis
  proof (rule stepped_locks [OF sh])
    show "micro me r (point (ts me)) s = Return (Locking e, s\<lparr>ht := Ht_live (t\<lparr>ht_locks := ?l\<rparr>)\<rparr>)"
      using pc held run(4) b e t(1) by (simp add: micro_def cmd_run)
    show "\<forall>c < length ?l. mutex_agrees (?l ! c) (owners (moved ts me (Locking e)) c)"
    proof (intro allI impI)
      fix c assume c: "c < length ?l"
      then have ag: "mutex_agrees (ht_locks t ! c) (owners ts c)" using agree by simp
      show "mutex_agrees (?l ! c) (owners (moved ts me (Locking e)) c)"
      proof (cases "c = b")
        case True
        with mutex_give [OF ag] me c show ?thesis by (simp add: moved_holders)
      next
        case False
        have "me \<notin> owners ts c" using pc False by (simp add: in_holders)
        with False ag show ?thesis by (simp add: moved_holders)
      qed
    qed
  qed (use pc m e in \<open>simp_all add: point_ok_def\<close>)
qed

end
