(* ===== verification/KV_Concurrent_Runs.thy ===== *)
theory KV_Concurrent_Runs
  imports KV_Concurrent_Steps
begin

text \<open>
  Schedules. \<open>config_inv\<close> holds of the store and of all threads, every schedule keeps it, no two threads
  have the same mutex, and no thread is at an item that another one writes.
\<close>

section \<open>The invariant of a configuration\<close>

definition thread_ok :: "origins \<Rightarrow> memory \<Rightarrow> hashtable_t \<Rightarrow> (nat \<Rightarrow> addr list) \<Rightarrow> thread \<Rightarrow> bool" where
  "thread_ok org s t bs th \<longleftrightarrow>
     (\<forall>r \<in> set (queue th). sound (org (slot t r)) r) \<and>
     (\<forall>x \<in> set (answers th). answer_ok (org (slot t (fst x))) (fst x) (snd x)) \<and>
     (case queue th of
        [] \<Rightarrow> point th = Start
      | r # rs \<Rightarrow> point_ok (org (slot t r)) s (set (bs (slot t r))) r (point th) \<and>
          section_ok t s (set (bs (slot t r))) r (point th))"

definition config_inv :: "origins \<Rightarrow> config \<Rightarrow> hashtable_t \<Rightarrow> (nat \<Rightarrow> addr list) \<Rightarrow> bool" where
  "config_inv org c t bs \<longleftrightarrow> shared org (fst c) t bs (snd c) \<and> (\<forall>u. thread_ok org (fst c) t bs (snd c u))"

lemma step_any:
  assumes sh: "shared org s t bs ts" and snd: "sound (org (slot t r)) r" and empty_value: "\<And>b k. org b k []"
    and ok: "point_ok (org (slot t r)) s (set (bs (slot t r))) r (point (ts me))"
    and sec: "section_ok t s (set (bs (slot t r))) r (point (ts me))"
    and na: "\<not> answered (point (ts me))"
  shows "stepped org s t bs ts me r"
proof (cases "point (ts me)")
  case Start
  have "req_method r = SET \<or> req_method r = GET" using snd by (auto simp: sound_def)
  with step_start_set [OF sh Start snd] step_start_get [OF sh Start snd] show ?thesis by blast
next
  case (Entering b)
  with step_entering [OF sh _ snd] ok sec show ?thesis by simp
next
  case (Entered b)
  with step_entered [OF sh _ snd] ok sec show ?thesis by simp
next
  case (Seeking b h p)
  with step_seeking [OF sh _ snd] ok sec show ?thesis by simp
next
  case (Adding b h)
  with step_adding [OF sh _ snd empty_value] ok sec show ?thesis by simp
next
  case (Deleting b a)
  with ok show ?thesis by (simp add: point_ok_def)
next
  case (Leaving b pc)
  with step_leaving [OF sh _ snd] ok sec show ?thesis by simp
next
  case (Locking e)
  with step_locking [OF sh] ok show ?thesis by simp
next
  case (Allocating e)
  with step_allocating [OF sh] ok show ?thesis by simp
next
  case (Filling e v)
  with step_filling [OF sh _ snd] ok show ?thesis by simp
next
  case (Sizing e)
  with step_sizing [OF sh _ snd] ok show ?thesis by simp
next
  case (Unlocking e)
  with step_unlocking [OF sh _ snd] ok show ?thesis by simp
next
  case (Walking p)
  with step_walking [OF sh _ snd] ok show ?thesis by simp
next
  case (Reading a)
  with step_reading [OF sh] ok show ?thesis by simp
next
  case (Copying a)
  with step_copying [OF sh] ok show ?thesis by simp
next
  case (Releasing a resp)
  with step_releasing [OF sh] ok show ?thesis by simp
next
  case (Answered resp)
  with na show ?thesis by simp
qed

text \<open>
  What another thread is at survives a step: the items it writes are not written by two, and the bucket
  whose mutex it has is not changed.
\<close>

lemma shared_mutex:
  assumes "shared org s t bs ts" and "b < length (ht_items t)"
    and "owns (point (ts u)) = Some b" and "owns (point (ts v)) = Some b"
  shows "u = v" and "ht_locks t ! b"
proof -
  have "b < length (ht_locks t)" using assms(2) shared_table(2) [OF assms(1)] by (simp add: table_ok_def shape_ok_def)
  then have m: "mutex_agrees (ht_locks t ! b) (owners ts b)" using assms(1) by (simp add: shared_def)
  have "u \<in> owners ts b" "v \<in> owners ts b" using assms(3,4) by (simp_all add: in_holders)
  with mutex_alone [OF m] show "u = v" "ht_locks t ! b" by auto
qed

lemma thread_ok_keeps:
  assumes ok: "thread_ok org s t bs (ts u)" and sh: "shared org s t bs ts" and ne: "u \<noteq> me"
    and cap: "ht_capacity t' = ht_capacity t"
    and k: "\<forall>b < length (ht_items t). keeps (set_option (writes_item (point (ts me)))) (set (bs b)) s (set (bs' b)) s'"
    and own: "\<forall>b < length (ht_items t). owns (point (ts me)) \<noteq> Some b \<longrightarrow> bs' b = bs b \<and> ht_items t' ! b = ht_items t ! b"
  shows "thread_ok org s' t' bs' (ts u)"
proof (cases "queue (ts u)")
  case Nil
  with ok cap show ?thesis by (simp add: thread_ok_def)
next
  case (Cons r rs)
  have "a \<notin> set_option (writes_item (point (ts me)))" if "writes_item (point (ts u)) = Some a" for a
  proof
    assume "a \<in> set_option (writes_item (point (ts me)))"
    then have me: "me \<in> writers ts a" "u \<in> writers ts a" using that by (simp_all add: in_holders)
    have "a \<in> touches (point (ts u))" using that by (simp add: touches_def)
    then have "a \<in> nodes (length (ht_items t)) bs" using sh by (auto simp: shared_def)
    then have "rw_agrees (lock_of s a) (writers ts a) (readers ts a)" using sh by (auto simp: shared_def nodes_def)
    from lk.writer_alone(1) [OF this me(1)] me(2) ne show False by simp
  qed
  moreover have kr: "keeps (set_option (writes_item (point (ts me)))) (set (bs (slot t r))) s (set (bs' (slot t r))) s'"
    using k slot_less [OF shared_table(2) [OF sh]] by blast
  moreover have "point_ok (org (slot t r)) s (set (bs (slot t r))) r (point (ts u))"
    using ok Cons by (simp add: thread_ok_def)
  ultimately have "point_ok (org (slot t r)) s' (set (bs' (slot t r))) r (point (ts u))"
    using point_ok_keeps by blast
  moreover have "section_ok t' s' (set (bs' (slot t r))) r (point (ts u))"
  proof (rule section_ok_keeps [OF kr _ cap])
    show "section_ok t s (set (bs (slot t r))) r (point (ts u))" using ok Cons by (simp add: thread_ok_def)
    assume "owns (point (ts u)) = Some (slot t r)"
    then have "owns (point (ts me)) \<noteq> Some (slot t r)" using shared_mutex [OF sh slot_less [OF shared_table(2) [OF sh]]] ne by blast
    with own slot_less [OF shared_table(2) [OF sh]]
    show "set (bs' (slot t r)) = set (bs (slot t r)) \<and> ht_items t' ! slot t r = ht_items t ! slot t r" by simp
  qed
  ultimately show ?thesis using ok cap Cons by (simp add: thread_ok_def)
qed

lemma advance_config:
  assumes inv: "config_inv org (s, ts) t bs" and empty_value: "\<And>b k. org b k []"
  shows "\<exists>s' ts' t' bs'. advance me (s, ts) = Return (s', ts') \<and> config_inv org (s', ts') t' bs' \<and>
    (\<forall>u. u \<noteq> me \<longrightarrow> ts' u = ts u) \<and> ht_capacity t' = ht_capacity t \<and>
    (\<forall>b < length (ht_items t). keeps (set_option (writes_item (point (ts me)))) (set (bs b)) s (set (bs' b)) s')"
proof -
  have sh: "shared org s t bs ts" and th: "\<And>u. thread_ok org s t bs (ts u)"
    using inv by (simp_all add: config_inv_def)
  show ?thesis
  proof (cases "queue (ts me)")
    case Nil
    then have "advance me (s, ts) = Return (s, ts)" by (rule advance_idle)
    with inv keeps_refl show ?thesis by blast
  next
    case (Cons r rs)
    have snd: "sound (org (slot t r)) r" and ok: "point_ok (org (slot t r)) s (set (bs (slot t r))) r (point (ts me))"
      and sec: "section_ok t s (set (bs (slot t r))) r (point (ts me))"
      using th [of me] Cons by (simp_all add: thread_ok_def)
    show ?thesis
    proof (cases "answered (point (ts me))")
      case True
      then obtain resp where a: "point (ts me) = Answered resp" by (cases "point (ts me)") simp_all
      let ?th = "\<lparr>queue = rs, point = Start, answers = answers (ts me) @ [(r, resp)]\<rparr>"
      have "thread_ok org s t bs ?th"
        using th [of me] Cons ok a by (auto simp: thread_ok_def point_ok_def split: list.splits)
      moreover have "writers (ts(me := ?th)) = writers ts" "readers (ts(me := ?th)) = readers ts"
        "owners (ts(me := ?th)) = owners ts"
        using a by (auto simp: writers_def readers_def owners_def fun_eq_iff)
      ultimately have "config_inv org (s, ts(me := ?th)) t bs"
        using sh th by (simp add: config_inv_def shared_def)
      moreover have "advance me (s, ts) = Return (s, ts(me := ?th))"
        by (rule advance_answer [where ts = ts and t = me, OF Cons a])
      moreover have "\<forall>u. u \<noteq> me \<longrightarrow> (ts(me := ?th)) u = ts u" by simp
      ultimately show ?thesis using keeps_refl by blast
    next
      case False
      from step_any [OF sh snd empty_value ok sec False] obtain pc s' t' bs' where
        m: "micro me r (point (ts me)) s = Return (pc, s')" and sh': "shared org s' t' bs' (moved ts me pc)"
        and cap: "ht_capacity t' = ht_capacity t"
        and ok': "point_ok (org (slot t r)) s' (set (bs' (slot t r))) r pc"
          "section_ok t' s' (set (bs' (slot t r))) r pc"
        and own: "\<forall>b < length (ht_items t). owns (point (ts me)) \<noteq> Some b \<longrightarrow>
          bs' b = bs b \<and> ht_items t' ! b = ht_items t ! b"
        and k: "\<forall>b < length (ht_items t). keeps (set_option (writes_item (point (ts me)))) (set (bs b)) s (set (bs' b)) s'"
        unfolding stepped_def by blast
      have "\<forall>resp. point (ts me) \<noteq> Answered resp" using False by auto
      then have adv: "advance me (s, ts) = Return (s', moved ts me pc)"
        using advance_work [where ts = ts and t = me, OF Cons] m by (simp add: moved_def)
      have "thread_ok org s' t' bs' (moved ts me pc u)" for u
        using thread_ok_keeps [OF th sh _ cap k own] th [of me] ok' Cons cap
        by (cases "u = me") (auto simp: moved_def thread_ok_def)
      then have "config_inv org (s', moved ts me pc) t' bs'" using sh' by (simp add: config_inv_def)
      moreover have "\<forall>u. u \<noteq> me \<longrightarrow> moved ts me pc u = ts u" by (simp add: moved_def)
      ultimately show ?thesis using adv k cap by blast
    qed
  qed
qed

lemma interleave_config:
  assumes "config_inv org c t bs" and "\<And>b k. org b k []"
  shows "\<exists>c' t' bs'. interleave us c = Return c' \<and> config_inv org c' t' bs' \<and> ht_capacity t' = ht_capacity t"
  using assms(1)
proof (induction us arbitrary: c t bs)
  case Nil
  then show ?case by auto
next
  case (Cons u us)
  obtain s ts where c: "c = (s, ts)" by (cases c)
  from advance_config [OF Cons.prems [unfolded c] assms(2), of u] obtain s' ts' t' bs'
    where "advance u (s, ts) = Return (s', ts')" "config_inv org (s', ts') t' bs'" "ht_capacity t' = ht_capacity t" by blast
  with Cons.IH [of "(s', ts')" t' bs'] c show ?case by simp
qed

lemma config_exclusive:
  assumes inv: "config_inv org c t bs" and w: "writes_item (point (snd c u)) = Some a" and ne: "v \<noteq> u"
  shows "writes_item (point (snd c v)) \<noteq> Some a" and "reads_item (point (snd c v)) \<noteq> Some a"
proof -
  have "a \<in> touches (point (snd c u))" using w by (simp add: touches_def)
  then have "a \<in> nodes (length (ht_items t)) bs" using inv by (auto simp: config_inv_def shared_def)
  then have l: "rw_agrees (lock_of (fst c) a) (writers (snd c) a) (readers (snd c) a)"
    using inv by (auto simp: config_inv_def shared_def nodes_def)
  have "u \<in> writers (snd c) a" using w by (simp add: in_holders)
  from lk.writer_alone [OF l this] ne show "writes_item (point (snd c v)) \<noteq> Some a"
    and "reads_item (point (snd c v)) \<noteq> Some a"
    by (auto simp: writers_def readers_def)
qed

lemma owns_slot:
  assumes "thread_ok org s t bs th" and "owns (point th) = Some b"
  shows "\<exists>r rs. queue th = r # rs \<and> b = slot t r \<and> sound (org (slot t r)) r"
proof (cases "queue th")
  case Nil
  with assms show ?thesis by (simp add: thread_ok_def)
next
  case (Cons r rs)
  with assms section_ok_slot [of t s "set (bs (slot t r))" r "point th" b] show ?thesis by (simp add: thread_ok_def)
qed

lemma config_mutex:
  assumes inv: "config_inv org c t bs" and o: "owns (point (snd c u)) = Some b" and ne: "v \<noteq> u"
  shows "owns (point (snd c v)) \<noteq> Some b"
proof -
  have sh: "shared org (fst c) t bs (snd c)" and "thread_ok org (fst c) t bs (snd c u)"
    using inv by (simp_all add: config_inv_def)
  with owns_slot o slot_less [OF shared_table(2) [OF sh]] have "b < length (ht_items t)" by blast
  with shared_mutex(1) [OF sh _ o] ne show ?thesis by blast
qed

section \<open>The start\<close>

text \<open>
  Where a value of an item with key \<open>k\<close> in bucket \<open>b\<close> may come from: it is the empty value of a new
  item, it was in the bucket at the start, or a SET of that bucket that matches the key carries it.
\<close>

definition origin ::
  "u32 \<Rightarrow> (nat \<Rightarrow> (byte list \<times> byte list) list) \<Rightarrow> (tid \<Rightarrow> request list) \<Rightarrow> origins" where
  "origin cap tab rs b k v \<longleftrightarrow> v = [] \<or> (k, v) \<in> set (tab b) \<or>
     (\<exists>u. \<exists>r \<in> set (rs u). req_method r = SET \<and> bucket_of cap (req_string r) = b \<and> key_matches r k \<and>
        v = req_value r)"

definition sets_and_gets :: "(tid \<Rightarrow> request list) \<Rightarrow> bool" where
  "sets_and_gets rs \<longleftrightarrow> (\<forall>u. \<forall>r \<in> set (rs u). request_fits r \<and> req_method r \<in> {SET, GET})"

lemma config_start:
  assumes rep: "represents s cap tab" and rs: "sets_and_gets rs"
  shows "\<exists>t bs. config_inv (origin cap tab rs) (s, \<lambda>u. idle (rs u)) t bs \<and> ht_capacity t = cap"
proof -
  from rep obtain t bs where op: "opened s t bs cap tab" by (auto simp: represents_opened)
  then have t: "ht s = Ht_live t" "ht_capacity t = cap" "table_ok s t bs" "quiet s bs"
    "\<forall>b < unat cap. \<not> ht_locks t ! b" and tab: "\<And>b. b < unat cap \<Longrightarrow> tab b = entries s bs b"
    by (simp_all add: opened_def)
  have len: "length (ht_items t) = unat cap" "length (ht_locks t) = unat cap"
    using t(2,3) by (auto simp: table_ok_def shape_ok_def)
  have none: "writers (\<lambda>u. idle (rs u)) a = {}" "readers (\<lambda>u. idle (rs u)) a = {}" "owners (\<lambda>u. idle (rs u)) b = {}" for a b
    by (simp_all add: writers_def readers_def owners_def idle_def)
  have "lock_of s a = Lock_free \<and> origin cap tab rs b (key_of s a) (value_of s a)"
    if b: "b < length (ht_items t)" "a \<in> set (bs b)" for a b
  proof -
    have "(key_of s a, value_of s a) \<in> set (tab b)" using b len tab by (simp add: entries_def)
    moreover have "lock_of s a = Lock_free" using t(1,2,4) b len by (simp add: quiet_def)
    ultimately show ?thesis by (simp add: origin_def)
  qed
  then have "shared (origin cap tab rs) s t bs (\<lambda>u. idle (rs u))"
    using t len none by (simp add: shared_def idle_def mutex_agrees_def)
  moreover have "sound (origin cap tab rs (slot t r)) r" if "r \<in> set (rs u)" for r u
    using rs that t(2) unfolding sound_def origin_def sets_and_gets_def by blast
  then have "thread_ok (origin cap tab rs) s t bs (idle (rs u))" for u
    by (simp add: thread_ok_def idle_def point_ok_def split: list.splits)
  ultimately show ?thesis using t(2) by (auto simp: config_inv_def)
qed

lemma origin_empty: "origin cap tab rs b k []"
  by (simp add: origin_def)

section \<open>Histories\<close>

text \<open>A thread answers its requests in order and each of them once.\<close>

lemma advance_history:
  "advance v c = Return c' \<Longrightarrow>
     map fst (answers (snd c' u)) @ queue (snd c' u) = map fst (answers (snd c u)) @ queue (snd c u)"
  by (cases c) (auto simp: advance_def Let_def obind_eq_Return split: list.splits pc.splits)

lemma interleave_history:
  "interleave us c = Return c' \<Longrightarrow>
     map fst (answers (snd c' u)) @ queue (snd c' u) = map fst (answers (snd c u)) @ queue (snd c u)"
proof (induction us arbitrary: c)
  case (Cons v us)
  then obtain c1 where "advance v c = Return c1" "interleave us c1 = Return c'" by (auto simp: obind_eq_Return)
  with Cons.IH advance_history show ?case by metis
qed simp

end
