(* ===== verification/KV_Concurrent_Progress.thy ===== *)
theory KV_Concurrent_Progress
  imports KV_Concurrent_Runs "HOL-Library.Multiset"
begin

text \<open>
  Progress. A step of a thread brings it nearer to the end of its work (\<open>work_left\<close>), unless it waits for
  a mutex, and the steps of the others do not take that away. A thread that sends GETs never waits, so it
  is enough that it is scheduled (locale \<open>fair_progress\<close>). A SET waits for a thread that has the mutex of its
  bucket and does not wait itself, so all requests are answered when all threads are scheduled (locale
  \<open>fair_system\<close>).
\<close>

section \<open>Contracts of progress\<close>

text \<open>
  A system whose components do not wait: what is left to do for \<open>u\<close> gets less by a step of \<open>u\<close> and is
  not changed by a step of another.
\<close>

locale fair_progress =
  fixes step :: "'i \<Rightarrow> 'c \<Rightarrow> 'c outcome"
    and work :: "'c \<Rightarrow> 'i \<Rightarrow> 'w \<Rightarrow> bool"
    and less :: "('w \<times> 'w) set"
    and finished :: "'c \<Rightarrow> 'i \<Rightarrow> bool"
  assumes wf_less: "wf less"
    and other_step: "work c u w \<Longrightarrow> v \<noteq> u \<Longrightarrow> \<exists>c'. step v c = Return c' \<and> work c' u w"
    and own_step: "work c u w \<Longrightarrow> \<not> finished c u \<Longrightarrow> \<exists>c' x. step u c = Return c' \<and> work c' u x \<and> (x, w) \<in> less"
begin

lemma wait_turn:
  assumes "work c u w" and "\<sigma> m = u" and "n \<le> m"
  shows "\<exists>k c'. n \<le> k \<and> \<sigma> k = u \<and> run_schedule step (map \<sigma> [n..<k]) c = Return c' \<and> work c' u w"
  using assms
proof (induction "m - n" arbitrary: n c)
  case 0
  then show ?case by (intro exI [of _ n] exI [of _ c]) simp
next
  case (Suc d)
  show ?case
  proof (cases "\<sigma> n = u")
    case True
    with Suc.prems show ?thesis by (intro exI [of _ n] exI [of _ c]) simp
  next
    case False
    with Suc.prems(1) other_step obtain c1 where c1: "step (\<sigma> n) c = Return c1" "work c1 u w" by blast
    have "d = m - Suc n" "Suc n \<le> m" using Suc.hyps(2) by simp_all
    from Suc.hyps(1) [OF this(1) c1(2) Suc.prems(2) this(2)] obtain k c' where
      k: "Suc n \<le> k" "\<sigma> k = u" "run_schedule step (map \<sigma> [Suc n..<k]) c1 = Return c'" "work c' u w" by blast
    then have "run_schedule step (map \<sigma> [n..<k]) c = Return c'" using c1(1) by (simp add: upt_conv_Cons)
    with k show ?thesis by (intro exI [of _ k]) auto
  qed
qed

lemma finishes:
  assumes "work c u w" and fair: "\<And>n. \<exists>m \<ge> n. \<sigma> m = u"
  shows "\<exists>k \<ge> n. \<exists>c'. run_schedule step (map \<sigma> [n..<k]) c = Return c' \<and> finished c' u"
  using wf_less assms(1)
proof (induction w arbitrary: c n rule: wf_induct_rule)
  case (less w)
  show ?case
  proof (cases "finished c u")
    case True
    then show ?thesis by (intro exI [of _ n]) simp
  next
    case False
    obtain m where "\<sigma> m = u" "n \<le> m" using fair by blast
    from wait_turn [where \<sigma> = \<sigma>, OF less.prems this] obtain k c1 where
      k: "n \<le> k" "\<sigma> k = u" "run_schedule step (map \<sigma> [n..<k]) c = Return c1" "work c1 u w" by blast
    show ?thesis
    proof (cases "finished c1 u")
      case True
      with k show ?thesis by blast
    next
      case False
      from own_step [OF k(4) False] obtain c2 x where
        c2: "step u c1 = Return c2" "work c2 u x" "(x, w) \<in> less" by blast
      from less.IH [OF c2(3,2), of "Suc k"] obtain l c' where
        l: "Suc k \<le> l" "run_schedule step (map \<sigma> [Suc k..<l]) c2 = Return c'" "finished c' u" by blast
      have "map \<sigma> [n..<l] = map \<sigma> [n..<k] @ u # map \<sigma> [Suc k..<l]"
      proof -
        have "[n..<l] = [n..<k] @ [k..<l]" using k(1) l(1) upt_add_eq_append [of n k "l - k"] by simp
        then show ?thesis using k(2) l(1) by (simp add: upt_conv_Cons)
      qed
      then have "run_schedule step (map \<sigma> [n..<l]) c = Return c'"
        using k(3) c2(1) l(2) by (simp add: run_schedule_append)
      with k(1) l(1,3) show ?thesis by (intro exI [of _ l]) auto
    qed
  qed
qed

end

text \<open>
  A system whose components may wait: a step makes the work of the component that takes it less or changes
  nothing, and unless the system is finished, there is a component whose step makes its work less.
\<close>

locale fair_system =
  fixes step :: "'i \<Rightarrow> 'c \<Rightarrow> 'c outcome"
    and work :: "'c \<Rightarrow> ('i \<Rightarrow> 'w) \<Rightarrow> bool"
    and less :: "('w \<times> 'w) set"
    and members :: "'i set"
    and finished :: "'c \<Rightarrow> bool"
  assumes wf_less: "wf less"
    and finite_members: "work c W \<Longrightarrow> finite members"
    and step_or_wait: "work c W \<Longrightarrow> step i c = Return c \<or>
      (\<exists>c' w. i \<in> members \<and> step i c = Return c' \<and> work c' (W(i := w)) \<and> (w, W i) \<in> less)"
    and some_step: "work c W \<Longrightarrow> \<not> finished c \<Longrightarrow>
      \<exists>i \<in> members. \<exists>c' w. step i c = Return c' \<and> work c' (W(i := w)) \<and> (w, W i) \<in> less"
begin

definition total :: "('i \<Rightarrow> 'w) \<Rightarrow> 'w multiset" where
  "total W = image_mset W (mset_set members)"

lemma total_less:
  assumes "finite members" and "i \<in> members" and "(w, W i) \<in> less"
  shows "(total (W(i := w)), total W) \<in> mult less"
proof -
  have ms: "mset_set members = add_mset i (mset_set (members - {i}))"
    using assms(1,2) by (rule mset_set.remove)
  have "image_mset (W(i := w)) (mset_set (members - {i})) = image_mset W (mset_set (members - {i}))"
    using assms(1) by (intro image_mset_cong) auto
  then have "total (W(i := w)) = image_mset W (mset_set (members - {i})) + {#w#}"
    and "total W = add_mset (W i) (image_mset W (mset_set (members - {i})))"
    by (simp_all add: total_def ms)
  with assms(3) have "(total (W(i := w)), total W) \<in> mult1 less" by (intro mult1I) auto
  then show ?thesis by (simp add: mult_def)
qed

lemma wait_turn:
  assumes "work c W" and "\<sigma> m = i" and "n \<le> m" and "i \<in> members"
    and "step i c = Return c1" and "work c1 (W(i := w))" and "(w, W i) \<in> less"
  shows "\<exists>k c' W'. n \<le> k \<and> run_schedule step (map \<sigma> [n..<k]) c = Return c' \<and> work c' W' \<and>
    (total W', total W) \<in> mult less"
  using assms(3)
proof (induction "m - n" arbitrary: n)
  case 0
  with assms(2) have "\<sigma> n = i" by simp
  then have "run_schedule step (map \<sigma> [n..<Suc n]) c = Return c1" using assms(5) by simp
  with assms(6) total_less [where W = W, OF finite_members [OF assms(1)] assms(4,7)] show ?case
    by (intro exI [of _ "Suc n"] exI [of _ c1] exI [of _ "W(i := w)"] conjI) (simp_all del: fun_upd_apply)
next
  case (Suc d)
  from step_or_wait [OF assms(1), of "\<sigma> n"] show ?case
  proof (elim disjE exE conjE)
    assume same: "step (\<sigma> n) c = Return c"
    have "d = m - Suc n" "Suc n \<le> m" using Suc.hyps(2) by simp_all
    from Suc.hyps(1) [OF this] obtain k c' W' where
      k: "Suc n \<le> k" "run_schedule step (map \<sigma> [Suc n..<k]) c = Return c'" "work c' W'"
        "(total W', total W) \<in> mult less" by blast
    then have "run_schedule step (map \<sigma> [n..<k]) c = Return c'" using same by (simp add: upt_conv_Cons)
    with k show ?thesis by (intro exI [of _ k] exI [of _ c'] exI [of _ W']) simp
  next
    fix c' x
    assume a: "\<sigma> n \<in> members" "step (\<sigma> n) c = Return c'" "work c' (W(\<sigma> n := x))" "(x, W (\<sigma> n)) \<in> less"
    from a(2) have "run_schedule step (map \<sigma> [n..<Suc n]) c = Return c'" by simp
    with a(3) total_less [where W = W, OF finite_members [OF assms(1)] a(1,4)] show ?thesis
      by (intro exI [of _ "Suc n"] exI [of _ c'] exI [of _ "W(\<sigma> n := x)"] conjI) (simp_all del: fun_upd_apply)
  qed
qed

lemma all_finish:
  assumes "work c W" and fair: "\<And>i n. i \<in> members \<Longrightarrow> \<exists>m \<ge> n. \<sigma> m = i"
  shows "\<exists>k \<ge> n. \<exists>c'. run_schedule step (map \<sigma> [n..<k]) c = Return c' \<and> finished c'"
  using assms(1)
proof (induction "total W" arbitrary: c W n rule: wf_induct_rule [OF wf_mult [OF wf_less]])
  case 1
  show ?case
  proof (cases "finished c")
    case True
    then show ?thesis by (intro exI [of _ n]) simp
  next
    case False
    from some_step [OF 1(2) this] obtain i c1 w where
      i: "i \<in> members" "step i c = Return c1" "work c1 (W(i := w))" "(w, W i) \<in> less" by blast
    from fair [OF i(1)] obtain m where "\<sigma> m = i" "n \<le> m" by blast
    from wait_turn [where \<sigma> = \<sigma>, OF 1(2) this i] obtain k c' W' where
      k: "n \<le> k" "run_schedule step (map \<sigma> [n..<k]) c = Return c'" "work c' W'"
        "(total W', total W) \<in> mult less" by blast
    from 1(1) [OF k(4,3), of k] obtain l c2 where
      l: "k \<le> l" "run_schedule step (map \<sigma> [k..<l]) c' = Return c2" "finished c2" by blast
    have "[n..<l] = [n..<k] @ [k..<l]" using k(1) l(1) upt_add_eq_append [of n k "l - k"] by simp
    with k(2) l(2) have "run_schedule step (map \<sigma> [n..<l]) c = Return c2" by (simp add: run_schedule_append)
    with k(1) l(1,3) show ?thesis by (intro exI [of _ l]) auto
  qed
qed

end

section \<open>The work of a thread\<close>

definition phase :: "pc \<Rightarrow> nat" where
  "phase pc = (case pc of Start \<Rightarrow> 14 | Entering b \<Rightarrow> 13 | Entered b \<Rightarrow> 12 | Seeking b h p \<Rightarrow> 11
     | Adding b h \<Rightarrow> 10 | Deleting b a \<Rightarrow> 9 | Leaving b pc \<Rightarrow> 8 | Locking e \<Rightarrow> 7 | Allocating e \<Rightarrow> 6
     | Filling e v \<Rightarrow> 5 | Sizing e \<Rightarrow> 4 | Unlocking e \<Rightarrow> 3 | Walking p \<Rightarrow> 5 | Reading a \<Rightarrow> 4 | Copying a \<Rightarrow> 3
     | Releasing a resp \<Rightarrow> 2 | Answered resp \<Rightarrow> 1)"

text \<open>The node a thread is at in its search.\<close>

definition cursor :: "pc \<Rightarrow> addr option" where
  "cursor pc = (case pc of Walking p \<Rightarrow> p | Seeking b h p \<Rightarrow> p | _ \<Rightarrow> None)"

text \<open>A thread waits when another one has the mutex it needs.\<close>

definition waits :: "config \<Rightarrow> tid \<Rightarrow> bool" where
  "waits c u \<longleftrightarrow> queue (snd c u) \<noteq> [] \<and>
     (case (point (snd c u), ht (fst c)) of (Entering b, Ht_live t) \<Rightarrow> ht_locks t ! b | _ \<Rightarrow> False)"

lemma micro_progress:
  assumes m: "micro me r pc s = Return (pc', s')" and "req_method r \<in> {SET, GET}" and "\<not> answered pc"
    and ok: "point_ok org s N r pc"
  shows "phase pc' < phase pc \<or>
    (\<exists>a. cursor pc = Some a \<and> cursor pc' = next_of s a \<and> phase pc' = phase pc \<and> phase pc \<in> {5, 11}) \<or>
    (\<exists>b. pc = Entering b \<and> pc' = pc \<and> s' = s \<and> mutex_lock b s = Blocked)"
proof (cases pc)
  case Start
  with assms(1,2) show ?thesis by (auto simp: micro_def cbind_eq_Return cret_def phase_def)
next
  case (Entering b)
  with m show ?thesis
    by (auto simp: micro_def await_def cseq_eq_Return cret_def phase_def split: outcome.splits)
next
  case (Seeking b h p)
  with m ok show ?thesis
    by (cases p) (auto simp: micro_def cbind_eq_Return visit_eq_Return cret_def phase_def sought_def point_ok_def
      cursor_def next_of_def deref_def split: option.splits if_splits)
next
  case (Walking p)
  with m show ?thesis
    by (cases p) (auto simp: micro_def cbind_eq_Return visit_eq_Return cret_def phase_def cursor_def
      next_of_def deref_def split: option.splits if_splits)
next
  case (Leaving b pc1)
  with m ok show ?thesis by (auto simp: micro_def cseq_eq_Return cret_def phase_def point_ok_def)
next
  case (Answered resp)
  with assms(3) show ?thesis by simp
qed (use m in \<open>auto simp: micro_def cbind_eq_Return cseq_eq_Return cret_def phase_def split: if_splits\<close>)

text \<open>The requests a thread still has, how far it is in the first, the nodes it still has to visit.\<close>

definition work_left :: "memory \<Rightarrow> addr set \<Rightarrow> thread \<Rightarrow> nat \<times> nat \<times> nat \<Rightarrow> bool" where
  "work_left s N th w \<longleftrightarrow>
     (\<exists>as. path s (cursor (point th)) as \<and> set as \<subseteq> N \<and> w = (length (queue th), phase (point th), length as))"

definition work_order :: "((nat \<times> nat \<times> nat) \<times> (nat \<times> nat \<times> nat)) set" where
  "work_order = less_than <*lex*> less_than <*lex*> less_than"

lemma wf_work_order: "wf work_order"
  by (auto simp: work_order_def)

text \<open>The bucket of the request a thread serves.\<close>

definition home :: "hashtable_t \<Rightarrow> (nat \<Rightarrow> addr list) \<Rightarrow> thread \<Rightarrow> addr set" where
  "home t bs th = set (bs (slot t (hd (queue th))))"

lemma cursor_simps [simp]:
  "cursor Start = None" "cursor (Walking p) = p" "cursor (Seeking b h p) = p" "cursor (Answered resp) = None"
  by (simp_all add: cursor_def)

lemma no_path: "cursor pc = None \<Longrightarrow> \<exists>as. path s (cursor pc) as \<and> set as \<subseteq> N"
  by (rule exI [of _ "[]"]) simp

lemma work_left_exists:
  assumes "thread_ok org s t bs th"
  shows "\<exists>w. work_left s (home t bs th) th w"
proof -
  have "\<exists>as. path s (cursor (point th)) as \<and> set as \<subseteq> home t bs th"
  proof (cases "queue th")
    case Nil
    with assms have "cursor (point th) = None" by (simp add: thread_ok_def)
    then show ?thesis by (rule no_path)
  next
    case (Cons r rs)
    with assms have "point_ok (org (slot t r)) s (home t bs th) r (point th)"
      "section_ok t s (home t bs th) r (point th)" by (simp_all add: thread_ok_def home_def)
    note ok = this
    show ?thesis
    proof (cases "cursor (point th)")
      case (Some a)
      then consider p where "point th = Walking p" | b h p where "point th = Seeking b h p"
        by (cases "point th") (simp_all add: cursor_def)
      then show ?thesis
      proof cases
        case 1
        with ok(1) show ?thesis by (simp add: point_ok_def)
      next
        case 2
        with ok(2) obtain as where "path s p as" "set as \<subseteq> home t bs th"
          by (simp only: section_ok_def pc.case) (elim conjE exE)
        with 2 show ?thesis by (intro exI [of _ as]) simp
      qed
    next
      case None
      then show ?thesis by (rule no_path)
    qed
  qed
  then show ?thesis by (auto simp: work_left_def)
qed

lemma work_left_keeps:
  assumes k: "keeps X N s N' s'" and "work_left s N th w"
  shows "work_left s' N' th w"
proof -
  from assms(2) obtain as where as: "path s (cursor (point th)) as" "set as \<subseteq> N"
    "w = (length (queue th), phase (point th), length as)" by (auto simp: work_left_def)
  have "set as \<subseteq> N'" using as(2) k by (auto simp: keeps_def)
  with path_keeps [OF k as(1,2)] as(3) show ?thesis by (auto simp: work_left_def)
qed

lemma work_left_queue: "work_left s N th (a, b, c) \<Longrightarrow> a = length (queue th) \<and> b = phase (point th)"
  by (auto simp: work_left_def)

lemma advance_less:
  assumes inv: "config_inv org (s, ts) t bs" and adv: "advance u (s, ts) = Return (s', ts')"
    and inv': "config_inv org (s', ts') t' bs'"
    and cap: "ht_capacity t' = ht_capacity t"
    and k: "\<forall>b < length (ht_items t). keeps X (set (bs b)) s (set (bs' b)) s'"
    and w: "work_left s (home t bs (ts u)) (ts u) w" and q: "queue (ts u) \<noteq> []"
  shows "s' = s \<and> ts' = ts \<and> waits (s, ts) u \<or>
    (\<exists>x. work_left s' (home t' bs' (ts' u)) (ts' u) x \<and> (x, w) \<in> work_order)"
proof -
  let ?N = "home t bs (ts u)" and ?N' = "home t' bs' (ts' u)"
  obtain r rs where Cons: "queue (ts u) = r # rs" using q by (cases "queue (ts u)") auto
  have "thread_ok org s' t' bs' (ts' u)" using inv' by (simp add: config_inv_def)
  then obtain x where x: "work_left s' ?N' (ts' u) x" using work_left_exists by blast
  obtain a b c where w3: "w = (a, b, c)" by (cases w)
  obtain a' b' c' where x3: "x = (a', b', c')" by (cases x)
  note wq = work_left_queue [OF w [unfolded w3]] and xq = work_left_queue [OF x [unfolded x3]]
  show ?thesis
  proof (cases "answered (point (ts u))")
    case True
    then obtain resp where "point (ts u) = Answered resp" by (cases "point (ts u)") simp_all
    from advance_answer [where ts = ts and t = u, OF Cons this] adv
    have "queue (ts' u) = rs" by auto
    with wq xq x w3 x3 Cons show ?thesis by (auto simp: work_order_def)
  next
    case False
    then have "\<forall>resp. point (ts u) \<noteq> Answered resp" by auto
    from advance_work [where ts = ts and t = u, OF Cons this] adv obtain pc where
      m: "micro u r (point (ts u)) s = Return (pc, s')" and ts': "ts' = ts(u := (ts u)\<lparr>point := pc\<rparr>)"
      by (auto simp: obind_eq_Return)
    have sh: "shared org s t bs ts" and th: "thread_ok org s t bs (ts u)"
      using inv by (simp_all add: config_inv_def)
    from th Cons have "sound (org (slot t r)) r" and ok: "point_ok (org (slot t r)) s (set (bs (slot t r))) r (point (ts u))"
      and sec: "section_ok t s (set (bs (slot t r))) r (point (ts u))" by (simp_all add: thread_ok_def)
    then have r: "req_method r \<in> {SET, GET}" "request_fits r" by (simp_all add: sound_def)
    from micro_progress [OF m r(1) False ok] show ?thesis
    proof (elim disjE exE conjE)
      assume "phase pc < phase (point (ts u))"
      with wq xq x w3 x3 ts' show ?thesis by (auto simp: work_order_def)
    next
      fix n assume n: "cursor (point (ts u)) = Some n" "cursor pc = next_of s n" "phase pc = phase (point (ts u))"
      with w obtain as where as: "path s (Some n) as" "set as \<subseteq> ?N"
        "w = (length (queue (ts u)), phase (point (ts u)), length as)" by (auto simp: work_left_def)
      then obtain as' where as': "as = n # as'" "path s (next_of s n) as'" by (cases as) auto
      have kn: "keeps X ?N s ?N' s'"
        using k slot_less [OF shared_table(2) [OF sh], of r] cap Cons ts' by (simp add: home_def)
      have "path s' (next_of s n) as'" "set as' \<subseteq> ?N'"
        using path_keeps [OF kn as'(2)] as(2) as'(1) kn by (auto simp: keeps_def)
      then have "work_left s' ?N' (ts' u) (length (queue (ts u)), phase pc, length as')"
        using n ts' by (auto simp: work_left_def)
      then show ?thesis using as(3) as'(1) n(3) by (auto simp: work_order_def)
    next
      fix c assume c: "point (ts u) = Entering c" "pc = point (ts u)" "s' = s" "mutex_lock c s = Blocked"
      have "c = slot t r" using sec c(1) by (simp add: section_ok_def)
      then have "ht_locks t ! c"
        using c(4) mutex_lock_run [OF shared_table(1) [OF sh]] bucket_run(4) [OF sh r(2)] by (auto split: if_splits)
      then have "waits (s, ts) u" using q c(1) shared_table(1) [OF sh] by (simp add: waits_def)
      moreover have "ts' = ts" using ts' c(2) by (simp add: fun_eq_iff)
      ultimately show ?thesis using c(3) by blast
    qed
  qed
qed

lemma advance_queue: "advance v c = Return c' \<Longrightarrow> set (queue (snd c' u)) \<subseteq> set (queue (snd c u))"
  by (cases c; cases "u = v") (auto simp: advance_def Let_def obind_eq_Return split: list.splits pc.splits)

lemma advance_work_left:
  assumes inv: "config_inv org (s, ts) t bs" and empty_value: "\<And>b k. org b k []"
  shows "\<exists>s' ts' t' bs'. advance v (s, ts) = Return (s', ts') \<and> config_inv org (s', ts') t' bs' \<and>
    (\<forall>u w. u \<noteq> v \<longrightarrow> work_left s (home t bs (ts u)) (ts u) w \<longrightarrow> work_left s' (home t' bs' (ts' u)) (ts' u) w) \<and>
    (\<forall>w. queue (ts v) \<noteq> [] \<longrightarrow> work_left s (home t bs (ts v)) (ts v) w \<longrightarrow>
       s' = s \<and> ts' = ts \<and> waits (s, ts) v \<or>
       (\<exists>x. work_left s' (home t' bs' (ts' v)) (ts' v) x \<and> (x, w) \<in> work_order))"
proof -
  from advance_config [OF inv empty_value, of v] obtain s' ts' t' bs' where
    a: "advance v (s, ts) = Return (s', ts')" "config_inv org (s', ts') t' bs'"
    and other: "\<forall>x. x \<noteq> v \<longrightarrow> ts' x = ts x" and cap: "ht_capacity t' = ht_capacity t"
    and k: "\<forall>b < length (ht_items t). keeps (set_option (writes_item (point (ts v)))) (set (bs b)) s (set (bs' b)) s'"
    by blast
  have ok: "table_ok s t bs" using inv by (simp add: config_inv_def shared_def)
  have "work_left s' (home t' bs' (ts' u)) (ts' u) w"
    if "u \<noteq> v" "work_left s (home t bs (ts u)) (ts u) w" for u w
  proof -
    have "keeps (set_option (writes_item (point (ts v)))) (home t bs (ts u)) s (home t' bs' (ts u)) s'"
      using k slot_less [OF ok] cap by (simp add: home_def)
    from work_left_keeps [OF this that(2)] other that(1) show ?thesis by simp
  qed
  with a advance_less [OF inv a cap k] show ?thesis by metis
qed

section \<open>GETs are wait-free\<close>

definition gets_work :: "origins \<Rightarrow> config \<Rightarrow> tid \<Rightarrow> nat \<times> nat \<times> nat \<Rightarrow> bool" where
  "gets_work org c u w \<longleftrightarrow> (\<forall>b k. org b k []) \<and> (\<forall>r \<in> set (queue (snd c u)). req_method r = GET) \<and>
     (\<exists>t bs. config_inv org c t bs \<and> work_left (fst c) (home t bs (snd c u)) (snd c u) w)"

lemma get_not_waits:
  assumes "config_inv org c t bs" and "\<forall>r \<in> set (queue (snd c u)). req_method r = GET"
  shows "\<not> waits c u"
proof
  assume w: "waits c u"
  then obtain b where b: "point (snd c u) = Entering b" "queue (snd c u) \<noteq> []"
    by (auto simp: waits_def split: pc.splits)
  then obtain r rs where "queue (snd c u) = r # rs" by (cases "queue (snd c u)") auto
  moreover have "thread_ok org (fst c) t bs (snd c u)" using assms(1) by (simp add: config_inv_def)
  ultimately show False using b(1) assms(2) by (simp add: thread_ok_def point_ok_def)
qed

interpretation threads: fair_progress advance "gets_work org" work_order "\<lambda>c u. queue (snd c u) = []" for org
proof
  show "wf work_order" by (rule wf_work_order)
next
  fix c u w v assume w: "gets_work org c u w" and ne: "v \<noteq> u"
  obtain s ts where c: "c = (s, ts)" by (cases c)
  from w obtain t bs where i: "\<And>b k. org b k []" "config_inv org (s, ts) t bs"
    "work_left s (home t bs (ts u)) (ts u) w" by (auto simp: gets_work_def c)
  from advance_work_left [OF i(2,1), of v] obtain s' ts' t' bs' where
    a: "advance v (s, ts) = Return (s', ts')" "config_inv org (s', ts') t' bs'"
    "work_left s' (home t' bs' (ts' u)) (ts' u) w" using i(3) ne by metis
  from advance_queue [OF a(1), of u] a w i(1) c
  show "\<exists>c'. advance v c = Return c' \<and> gets_work org c' u w" by (auto simp: gets_work_def)
next
  fix c u w assume w: "gets_work org c u w" and nf: "queue (snd c u) \<noteq> []"
  obtain s ts where c: "c = (s, ts)" by (cases c)
  from w obtain t bs where i: "\<And>b k. org b k []" "config_inv org (s, ts) t bs"
    "work_left s (home t bs (ts u)) (ts u) w" by (auto simp: gets_work_def c)
  have "\<not> waits (s, ts) u" "queue (ts u) \<noteq> []" using get_not_waits [OF i(2)] w nf c by (simp_all add: gets_work_def)
  with advance_work_left [OF i(2,1), of u] i(3) obtain s' ts' t' bs' x where
    a: "advance u (s, ts) = Return (s', ts')" "config_inv org (s', ts') t' bs'"
    "work_left s' (home t' bs' (ts' u)) (ts' u) x" "(x, w) \<in> work_order" by metis
  from advance_queue [OF a(1), of u] a w i(1) c
  have "advance u c = Return (s', ts') \<and> gets_work org (s', ts') u x" by (auto simp: gets_work_def)
  with a(4) show "\<exists>c' x. advance u c = Return c' \<and> gets_work org c' u x \<and> (x, w) \<in> work_order" by blast
qed

lemma config_gets_work:
  "config_inv org c t bs \<Longrightarrow> (\<And>b k. org b k []) \<Longrightarrow> \<forall>r \<in> set (queue (snd c u)). req_method r = GET \<Longrightarrow>
     \<exists>w. gets_work org c u w"
  using work_left_exists unfolding gets_work_def config_inv_def by blast

section \<open>SETs wait for threads that do not wait\<close>

definition system_work :: "origins \<Rightarrow> tid set \<Rightarrow> config \<Rightarrow> (tid \<Rightarrow> nat \<times> nat \<times> nat) \<Rightarrow> bool" where
  "system_work org I c W \<longleftrightarrow> (\<forall>b k. org b k []) \<and> finite I \<and> (\<forall>u. u \<notin> I \<longrightarrow> queue (snd c u) = []) \<and>
     (\<exists>t bs. config_inv org c t bs \<and> (\<forall>u. work_left (fst c) (home t bs (snd c u)) (snd c u) (W u)))"

lemma system_step:
  assumes w: "system_work org I c W" and q: "queue (snd c i) \<noteq> []"
  shows "advance i c = Return c \<and> waits c i \<or>
    (\<exists>c' x. i \<in> I \<and> advance i c = Return c' \<and> system_work org I c' (W(i := x)) \<and> (x, W i) \<in> work_order)"
proof -
  obtain s ts where c: "c = (s, ts)" by (cases c)
  from w obtain t bs where i: "\<And>b k. org b k []" "finite I" "\<And>u. u \<notin> I \<Longrightarrow> queue (ts u) = []"
    "config_inv org (s, ts) t bs" "\<And>u. work_left s (home t bs (ts u)) (ts u) (W u)"
    by (auto simp: system_work_def c)
  have I: "i \<in> I" using i(3) q c by auto
  from advance_work_left [OF i(4,1), of i] obtain s' ts' t' bs' where
    a: "advance i (s, ts) = Return (s', ts')" "config_inv org (s', ts') t' bs'"
    and other: "\<And>u w. u \<noteq> i \<Longrightarrow> work_left s (home t bs (ts u)) (ts u) w \<Longrightarrow> work_left s' (home t' bs' (ts' u)) (ts' u) w"
    and own: "\<And>w. queue (ts i) \<noteq> [] \<Longrightarrow> work_left s (home t bs (ts i)) (ts i) w \<Longrightarrow>
       s' = s \<and> ts' = ts \<and> waits (s, ts) i \<or>
       (\<exists>x. work_left s' (home t' bs' (ts' i)) (ts' i) x \<and> (x, w) \<in> work_order)" by blast
  from own [OF _ i(5)] q c consider "s' = s" "ts' = ts" "waits (s, ts) i"
    | x where "work_left s' (home t' bs' (ts' i)) (ts' i) x" "(x, W i) \<in> work_order" by auto
  then show ?thesis
  proof cases
    case 1
    with a(1) c show ?thesis by simp
  next
    case 2
    have "queue (ts' u) = []" if "u \<notin> I" for u using advance_queue [OF a(1), of u] i(3) [OF that] by simp
    then have "system_work org I (s', ts') (W(i := x))"
      unfolding system_work_def using a(2) i(1,2) 2(1) other [OF _ i(5)]
      by (intro conjI exI [of _ t'] exI [of _ bs']) simp_all
    with a(1) 2(2) I c show ?thesis by blast
  qed
qed

lemma waits_for:
  assumes inv: "config_inv org c t bs" and "waits c u"
  shows "\<exists>v. queue (snd c v) \<noteq> [] \<and> \<not> waits c v"
proof -
  have sh: "shared org (fst c) t bs (snd c)" and th: "\<And>u. thread_ok org (fst c) t bs (snd c u)"
    using inv by (simp_all add: config_inv_def)
  from assms(2) obtain b where b: "point (snd c u) = Entering b" "queue (snd c u) \<noteq> []" "ht_locks t ! b"
    using shared_table(1) [OF sh] by (auto simp: waits_def split: pc.splits)
  then obtain r rs where "queue (snd c u) = r # rs" by (cases "queue (snd c u)") auto
  with th [of u] b(1) have "b = slot t r" by (simp add: thread_ok_def section_ok_def)
  then have "b < length (ht_locks t)"
    using slot_less shared_table(2) [OF sh] by (fastforce simp: table_ok_def shape_ok_def)
  then have "mutex_agrees (ht_locks t ! b) (owners (snd c) b)" using sh by (simp add: shared_def)
  with b(3) obtain v where "owners (snd c) b = {v}" by (auto simp: mutex_agrees_def)
  then have v: "owns (point (snd c v)) = Some b" using in_holders(3) [of v "snd c" b] by simp
  with owns_slot [OF th] have "queue (snd c v) \<noteq> []" by fastforce
  moreover have "\<not> waits c v" using v by (auto simp: waits_def split: pc.splits)
  ultimately show ?thesis by blast
qed

interpretation system: fair_system advance "system_work org I" work_order I "\<lambda>c. \<forall>u. queue (snd c u) = []" for org I
proof
  show "wf work_order" by (rule wf_work_order)
next
  show "finite I" if "system_work org I c W" for c W using that by (simp add: system_work_def)
next
  fix c W i assume w: "system_work org I c W"
  show "advance i c = Return c \<or>
    (\<exists>c' w. i \<in> I \<and> advance i c = Return c' \<and> system_work org I c' (W(i := w)) \<and> (w, W i) \<in> work_order)"
  proof (cases "queue (snd c i) = []")
    case True
    then have "advance i c = Return c" using advance_idle [of "snd c" i "fst c"] by simp
    then show ?thesis ..
  next
    case False
    with system_step [OF w] show ?thesis by blast
  qed
next
  fix c W assume w: "system_work org I c W" and "\<not> (\<forall>u. queue (snd c u) = [])"
  then obtain u where u: "queue (snd c u) \<noteq> []" by blast
  from w obtain t bs where inv: "config_inv org c t bs" by (auto simp: system_work_def)
  from waits_for [OF inv, of u] u obtain v where "queue (snd c v) \<noteq> []" "\<not> waits c v" by blast
  with system_step [OF w, of v]
  show "\<exists>i \<in> I. \<exists>c' x. advance i c = Return c' \<and> system_work org I c' (W(i := x)) \<and> (x, W i) \<in> work_order"
    by blast
qed

lemma config_system_work:
  assumes "config_inv org c t bs" and "\<And>b k. org b k []" and "finite I" and "\<And>u. u \<notin> I \<Longrightarrow> queue (snd c u) = []"
  shows "\<exists>W. system_work org I c W"
proof -
  have "\<forall>u. \<exists>w. work_left (fst c) (home t bs (snd c u)) (snd c u) w"
    using work_left_exists assms(1) unfolding config_inv_def by blast
  then obtain W where "\<And>u. work_left (fst c) (home t bs (snd c u)) (snd c u) (W u)" by metis
  with assms have "system_work org I c W" by (auto simp: system_work_def)
  then show ?thesis by (rule exI [of _ W])
qed

end
