(* ===== verification/KV_Concurrent_Properties.thy ===== *)
theory KV_Concurrent_Properties
  imports KV_Concurrent_Progress
begin

text \<open>
  The properties of the store under concurrent requests: SETs and GETs are safe, exclusive and free of
  deadlocks under every schedule, and GETs are wait-free; a DEL next to a
  GET or a SET is not safe, and a GET next to the first SET of a key may see a value that nobody set.
\<close>

text \<open>Two clients of the table \<open>sample\<close>: one sets its key, one gets it, then sets it.\<close>

definition two_clients :: "tid \<Rightarrow> request list" where
  "two_clients u =
     (if u = 0 then [plain_request SET (bytes ''a'') (bytes ''w'')]
      else if u = 1 then [plain_request GET (bytes ''a'') [], plain_request SET (bytes ''a'') (bytes ''x'')]
      else [])"

lemma two_clients_ok: "sets_and_gets two_clients"
proof -
  have "request_ok (plain_request m (bytes ''a'') v)" if "v \<in> {bytes ''w'', bytes ''x'', []}" for m v
    using that by (intro plain_request_ok) (auto simp: bytes_def KEY_SIZE_def MSG_SIZE_def)
  then show ?thesis by (auto simp: sets_and_gets_def two_clients_def request_ok_def split: if_splits)
qed

text \<open>A client that gets the key, and one whose request is for the same key.\<close>

definition race_with :: "request_method \<Rightarrow> tid \<Rightarrow> request list" where
  "race_with m u =
     (if u = 0 then [plain_request GET (bytes ''a'') []]
      else if u = 1 then [plain_request m (bytes ''a'') (bytes ''w'')] else [])"

lemma race_fits: "request_fits (plain_request m (bytes ''a'') [])" "request_fits (plain_request m (bytes ''a'') (bytes ''w''))"
  using plain_request_ok [of "bytes ''a''" "[]" m] plain_request_ok [of "bytes ''a''" "bytes ''w''" m]
  by (simp_all add: request_ok_def bytes_def KEY_SIZE_def MSG_SIZE_def)

lemma race_ok: "m \<in> {SET, GET} \<Longrightarrow> sets_and_gets (race_with m)"
  using race_fits by (auto simp: sets_and_gets_def race_with_def split: if_splits)

lemma race_key: "req_string (plain_request m (bytes ''a'') v) = bytes ''a''" "req_prefix (plain_request m (bytes ''a'') v) = 1"
  by (simp_all add: bytes_def KEY_SIZE_def)

section \<open>SETs and GETs\<close>

lemma concurrent_requests_safe_run:
  assumes "represents s cap tab" and "sets_and_gets rs"
  shows "\<exists>c t bs. interleave schedule (s, \<lambda>u. idle (rs u)) = Return c \<and> config_inv (origin cap tab rs) c t bs \<and>
    ht_capacity t = cap"
proof -
  from config_start [OF assms] obtain t bs where
    "config_inv (origin cap tab rs) (s, \<lambda>u. idle (rs u)) t bs" "ht_capacity t = cap" by blast
  with interleave_config [where us = schedule, OF this(1) origin_empty] show ?thesis by metis
qed

text \<open>
  C8: whatever the schedule, worker threads that serve SETs and GETs, which fit their buffers, from a table
  nobody uses never reach undefined behaviour and never loop; while one of them writes an item no other thread writes or
  reads it, no two of them are inside \<open>get_key_entry\<close> of the same bucket, and they never deadlock: when one
  waits for a mutex, another one that has requests left does not wait.
\<close>

theorem concurrent_requests_safe:
  assumes "represents s cap tab" and "sets_and_gets rs"
  shows "\<exists>c. interleave schedule (s, \<lambda>u. idle (rs u)) = Return c \<and>
    (\<forall>u v a. writes_item (point (snd c u)) = Some a \<longrightarrow> v \<noteq> u \<longrightarrow>
       writes_item (point (snd c v)) \<noteq> Some a \<and> reads_item (point (snd c v)) \<noteq> Some a) \<and>
    (\<forall>u v b. owns (point (snd c u)) = Some b \<longrightarrow> v \<noteq> u \<longrightarrow> owns (point (snd c v)) \<noteq> Some b) \<and>
    (\<forall>u. waits c u \<longrightarrow> (\<exists>v. queue (snd c v) \<noteq> [] \<and> \<not> waits c v))"
proof -
  from concurrent_requests_safe_run [OF assms] obtain c t' bs' where
    c: "interleave schedule (s, \<lambda>u. idle (rs u)) = Return c" "config_inv (origin cap tab rs) c t' bs'" by blast
  with config_exclusive [OF c(2)] config_mutex [OF c(2)] waits_for [OF c(2)] show ?thesis by blast
qed

theorem concurrent_requests_safe_witness:
  "\<exists>c. interleave [0, 1, 0, 1, 0, 1, 1, 0, 0] (sample Lock_free, \<lambda>u. idle (two_clients u)) = Return c"
  using concurrent_requests_safe [OF sample_represents two_clients_ok] by blast

text \<open>Two clients take turns.\<close>

lemma turns: "\<exists>m \<ge> n. m mod 2 = (u :: tid)" if "u < 2"
  using that by (intro exI [of _ "2 * n + u"]) simp

text \<open>
  C12: a thread that sends GETs is wait-free: when it is scheduled again and again it answers all of them,
  in order, whatever the other threads do with their SETs and GETs (all fit their buffers) and even when they stop with a mutex or a lock held.
\<close>

theorem gets_are_wait_free:
  assumes "represents s cap tab" and "sets_and_gets rs" and "\<And>r. r \<in> set (rs u) \<Longrightarrow> req_method r = GET"
    and "\<And>n. \<exists>m \<ge> n. \<sigma> m = u"
  shows "\<exists>n c. interleave (map \<sigma> [0..<n]) (s, \<lambda>u. idle (rs u)) = Return c \<and> queue (snd c u) = [] \<and>
    map fst (answers (snd c u)) = rs u"
proof -
  from config_start [OF assms(1,2)] obtain t bs where
    "config_inv (origin cap tab rs) (s, \<lambda>u. idle (rs u)) t bs" by blast
  from config_gets_work [OF this origin_empty, of u] assms(3) obtain w where
    "gets_work (origin cap tab rs) (s, \<lambda>u. idle (rs u)) u w" by (auto simp: idle_def)
  from threads.finishes [where \<sigma> = \<sigma> and n = 0, OF this assms(4)] obtain n c where
    c: "interleave (map \<sigma> [0..<n]) (s, \<lambda>u. idle (rs u)) = Return c" "queue (snd c u) = []"
    by (auto simp: interleave_def)
  with interleave_history [OF c(1), of u] have "map fst (answers (snd c u)) = rs u" by (simp add: idle_def)
  with c show ?thesis by blast
qed

theorem gets_are_wait_free_witness:
  "\<exists>n c. interleave (map (\<lambda>m. m mod 2) [0..<n]) (sample Lock_free, \<lambda>u. idle (race_with SET u)) = Return c \<and>
    queue (snd c 0) = [] \<and> map fst (answers (snd c 0)) = race_with SET 0"
proof (rule gets_are_wait_free [OF sample_represents race_ok])
  show "\<exists>m \<ge> n. m mod 2 = (0 :: tid)" for n by (rule turns) simp
qed (simp_all add: race_with_def)

text \<open>
  C13: when every client that has requests is scheduled again and again, the threads answer all their requests, SETs
  and GETs that fit their buffers, each thread its own in order, although SETs wait for the mutex of their bucket.
\<close>

theorem fair_requests_answered:
  assumes "represents s cap tab" and "sets_and_gets rs" and "finite {u. rs u \<noteq> []}"
    and "\<And>u n. rs u \<noteq> [] \<Longrightarrow> \<exists>m \<ge> n. \<sigma> m = u"
  shows "\<exists>n c. interleave (map \<sigma> [0..<n]) (s, \<lambda>u. idle (rs u)) = Return c \<and>
    (\<forall>u. queue (snd c u) = [] \<and> map fst (answers (snd c u)) = rs u)"
proof -
  let ?c = "(s, \<lambda>u. idle (rs u))"
  from config_start [OF assms(1,2)] obtain t bs where inv: "config_inv (origin cap tab rs) ?c t bs" by blast
  have "queue (snd ?c u) = []" if "u \<notin> {u. rs u \<noteq> []}" for u using that by (simp add: idle_def)
  from config_system_work [OF inv origin_empty assms(3) this] obtain W where
    "system_work (origin cap tab rs) {u. rs u \<noteq> []} ?c W" by blast
  from system.all_finish [where \<sigma> = \<sigma> and n = 0, OF this] assms(4) obtain n c where
    c: "interleave (map \<sigma> [0..<n]) ?c = Return c" "\<forall>u. queue (snd c u) = []"
    by (auto simp: interleave_def)
  with interleave_history [OF c(1)] have "map fst (answers (snd c u)) = rs u" for u by (simp add: idle_def)
  with c show ?thesis by blast
qed

theorem fair_requests_answered_witness:
  "\<exists>n c. interleave (map (\<lambda>m. m mod 2) [0..<n]) (sample Lock_free, \<lambda>u. idle (two_clients u)) = Return c \<and>
    (\<forall>u. queue (snd c u) = [] \<and> map fst (answers (snd c u)) = two_clients u)"
proof (rule fair_requests_answered [OF sample_represents two_clients_ok])
  show "finite {u. two_clients u \<noteq> []}" by (rule finite_subset [of _ "{..<2}"]) (auto simp: two_clients_def)
  show "\<exists>m \<ge> n. m mod 2 = u" if "two_clients u \<noteq> []" for u n
    using that by (intro turns) (simp add: two_clients_def split: if_splits)
qed

text \<open>
  C22: without other threads the steps of a request are the request: whatever \<open>serve_request\<close> answers
  and leaves in memory, a thread that runs alone answers and leaves.
\<close>

theorem alone_is_serve_request:
  assumes "serve_request me (True, True, True) r zero_response s = Return (resp, s')"
  shows "\<exists>n. interleave (replicate n me) (s, ts(me := idle [r])) =
    Return (s', ts(me := \<lparr>queue = [], point = Start, answers = [(r, resp)]\<rparr>))"
proof -
  from serve_alone [OF assms] obtain k where "alone me r k (Start, s) = Return (Answered resp, s')" ..
  from interleave_alone [where th = "idle [r]" and ts = ts and rs = "[]", OF this] obtain n where
    n: "interleave (replicate n me) (s, ts(me := (idle [r])\<lparr>point := Start\<rparr>)) =
      Return (s', ts(me := (idle [r])\<lparr>point := Answered resp\<rparr>))" by (auto simp: idle_def)
  have "interleave (replicate n me @ [me]) (s, ts(me := idle [r])) =
      Return (s', ts(me := \<lparr>queue = [], point = Start, answers = [(r, resp)]\<rparr>))"
    using n by (simp add: interleave_append idle_def advance_def)
  then show ?thesis by (metis replicate_append_same replicate_Suc)
qed

theorem alone_is_serve_request_witness:
  "\<exists>n s'. interleave (replicate n 3)
     (sample Lock_free, (\<lambda>u. idle [])(3 := idle [plain_request GET (bytes ''a'') []])) =
    Return (s', (\<lambda>u. idle [])(3 := \<lparr>queue = [], point = Start,
      answers = [(plain_request GET (bytes ''a'') [], got_response (bytes ''v'') zero_response)]\<rparr>))"
proof -
  have "request_fits (plain_request GET (bytes ''a'') [])"
    using plain_request_ok [of "bytes ''a''" "[]" GET]
    by (simp add: request_ok_def bytes_def KEY_SIZE_def MSG_SIZE_def)
  from get_request_represents [OF sample_represents this zero_response_wf, of 3]
  have "serve_request 3 (True, True, True) (plain_request GET (bytes ''a'') []) zero_response (sample Lock_free) =
      Return (got_response (bytes ''v'') zero_response, sample Lock_free)"
    by (simp add: serve_request_def bucket_get_def key_match_def bytes_def KEY_SIZE_def)
  from alone_is_serve_request [OF this, of "\<lambda>u. idle []"] show ?thesis by blast
qed

section \<open>What goes wrong\<close>

lemma alone_in:
  assumes "\<exists>k. alone u r k (Start, s) = Return (pc, s')" and "queue (ts u) = r # rs" and "point (ts u) = Start"
  shows "\<exists>n. interleave (replicate n u) (s, ts) = Return (s', moved ts u pc)"
proof -
  from assms(1) obtain k where "alone u r k (Start, s) = Return (pc, s')" ..
  from interleave_alone [where ts = ts, OF this assms(2)] obtain n where
    "interleave (replicate n u) (s, ts(u := (ts u)\<lparr>point := Start\<rparr>)) = Return (s', moved ts u pc)"
    by (auto simp: moved_def)
  moreover have "ts(u := (ts u)\<lparr>point := Start\<rparr>) = ts" using assms(3) by (auto simp: fun_eq_iff)
  ultimately show ?thesis by auto
qed

lemma request_reaches_item:
  assumes op: "opened s t bs cap tab" and fits: "request_fits r" and m: "req_method r = GET \<or> req_method r = SET"
    and a: "find (matches s (req_prefix r) (req_string r)) (bs (bucket_of cap (req_string r))) = Some a"
  shows "\<exists>k. alone me r k (Start, s) = Return (if req_method r = GET then Reading a else Locking a, s)"
  using m
proof
  assume m: "req_method r = GET"
  have t: "ht s = Ht_live t" "ht_capacity t = cap" "table_ok s t bs" using op by (simp_all add: opened_def)
  have "search (req_key r) (req_key_len r) s = Return (Some a, s)"
    using search_run [OF t(1,3) request_fits_cstr [OF fits]] t(2) a by simp
  then obtain b' t' where "get_bucket (req_key r) s = Return (b', s)" "the_ht s = Return (t', s)"
    "b' < length (ht_items t')"
    "search_loop (Suc (fresh s)) s (req_key r) (req_prefix r) (ht_items t' ! b') = Return (Some a)"
    by (rule search_parts)
  note parts = this
  from walk_alone [OF parts(4), of me] have "\<exists>k. alone me r k (Walking (ht_items t' ! b'), s) = Return (Reading a, s)"
    by simp
  moreover have "micro me r Start s = Return (Walking (ht_items t' ! b'), s)"
    using m parts by (simp add: micro_def cbind_run clift_run cret_run)
  ultimately show ?thesis using alone_step m by simp
next
  assume m: "req_method r = SET"
  have t: "ht s = Ht_live t" "ht_capacity t = cap" "table_ok s t bs" using op by (simp_all add: opened_def)
  have "get_key_entry (req_key r) (req_key_len r) s = Return (a, s)"
    using get_key_entry_found [OF t(1,3) _ request_fits_cstr [OF fits]] opened_index(3) [OF op] t(2) a by simp
  from key_entry_alone [OF m this] m show ?thesis by simp
qed

text \<open>
  C23: a DEL next to a GET or a SET of the same key is unsafe: \<open>get_request\<close> takes the item from \<open>search\<close>
  with no lock on the bucket, \<open>set_request\<close> gives the mutex of the bucket back before it locks the item,
  and if \<open>remove_item\<close> runs before they take the item's lock, they use freed memory.
\<close>

theorem get_next_to_delete_is_use_after_free:
  assumes rep: "represents s cap tab" and fits: "request_fits r" "request_fits d"
    and methods: "req_method r = GET \<or> req_method r = SET" "req_method d = DEL"
    and same: "req_string d = req_string r" "req_prefix d = req_prefix r"
    and there: "bucket_get (req_prefix r) (req_string r) (tab (bucket_of cap (req_string r))) \<noteq> None"
    and ne: "u \<noteq> v" and work: "rs u = [r]" "rs v = [d]"
  shows "\<exists>schedule. interleave schedule (s, \<lambda>u. idle (rs u)) = Undefined Use_after_free"
proof -
  let ?q = "req_string r" and ?n = "req_prefix r" and ?b = "bucket_of cap (req_string r)"
  let ?ts = "\<lambda>u. idle (rs u)"
  from rep obtain t bs where op: "opened s t bs cap tab" by (auto simp: represents_opened)
  note b = opened_index [OF op, of ?q]
  have t: "ht s = Ht_live t" "ht_capacity t = cap" "table_ok s t bs" "tab ?b = entries s bs ?b"
    using op b(2) by (simp_all add: opened_def)
  from there t(4) obtain a where a: "find (matches s ?n ?q) (bs ?b) = Some a"
    by (auto simp: bucket_get_def find_entries)
  then have "a \<in> set (bs ?b)" using find_split by fastforce
  with opened_lock [OF op] obtain it where it: "cells s a = Some it" "item_rwlock it = Lock_free" by blast
  let ?s = "removed ?b t it a s"
  have "remove_item v (req_key d) (req_key_len d) s = Return (0, ?s)"
    using remove_item_found [OF t(1,3) _ request_fits_cstr [OF fits(2)] _ it] a b(3) t(2) same by simp
  then have "del_request v d zero_response s = Return (zero_response\<lparr>resp_code := OK\<rparr>, ?s)"
    by (simp add: del_request_def cbind_run cret_run)
  note del = del_alone [OF methods(2) this]
  define pc where "pc = (if req_method r = GET then Reading a else Locking a)"
  have pc: "\<exists>k. alone u r k (Start, s) = Return (pc, s)" "pc = Reading a \<or> pc = Locking a"
    using request_reaches_item [OF op fits(1) methods(1) a, of u] by (simp_all add: pc_def)
  from alone_in [where ts = ?ts and rs = "[]", OF pc(1)] work(1) obtain n where
    n: "interleave (replicate n u) (s, ?ts) = Return (s, moved ?ts u pc)" by (auto simp: idle_def)
  have "queue (moved ?ts u pc v) = d # []" "point (moved ?ts u pc v) = Start"
    using ne work(2) by (simp_all add: moved_def idle_def)
  from alone_in [where ts = "moved ?ts u pc", OF del this] obtain m ts' where
    m: "interleave (replicate m v) (s, moved ?ts u pc) = Return (?s, ts')" "ts' u = moved ?ts u pc u"
    using ne by (auto simp: moved_def)
  have "micro u r pc ?s = Undefined Use_after_free"
    using pc(2) by (auto simp: micro_def rwlock_tryrdlock_def rwlock_trywrlock_def item_def deref_def
      unlink_cells_def Let_def cbind_def)
  moreover have "advance u (?s, ts') = obind (micro u r pc ?s) (\<lambda>(pc', s). Return (s, ts'(u := (ts' u)\<lparr>point := pc'\<rparr>)))"
    using advance_work [where ts = ts' and t = u and r = r and rs = "[]" and s = ?s] m(2) pc(2) work(1)
    by (auto simp: moved_def idle_def)
  ultimately have "interleave (replicate n u @ replicate m v @ [u]) (s, ?ts) = Undefined Use_after_free"
    using n m(1) by (simp add: interleave_append)
  then show ?thesis ..
qed

theorem get_next_to_delete_is_use_after_free_witness:
  "\<exists>schedule. interleave schedule (sample Lock_free, \<lambda>u. idle (race_with DEL u)) = Undefined Use_after_free"
proof (rule get_next_to_delete_is_use_after_free [OF sample_represents race_fits(1) race_fits(2)])
  show "race_with DEL 0 = [plain_request GET (bytes ''a'') []]"
    and "race_with DEL 1 = [plain_request DEL (bytes ''a'') (bytes ''w'')]" by (simp_all add: race_with_def)
qed (simp_all only: race_key plain_request_simps, simp_all add: bucket_get_def key_match_def)

text \<open>
  C24: a GET next to the first SET of a key can be answered \<open>OK\<close> with the empty value although no
  client ever set it: \<open>get_key_entry\<close> puts the item into the table before \<open>set_request\<close> has locked it.
\<close>

theorem get_next_to_first_set_is_empty:
  assumes rep: "represents s cap tab" and fits: "request_fits r" "request_fits w"
    and methods: "req_method r = GET" "req_method w = SET"
    and same: "req_string w = req_string r" "req_prefix w = req_prefix r"
    and new: "bucket_get (req_prefix r) (req_string r) (tab (bucket_of cap (req_string r))) = None"
    and ne: "u \<noteq> v" and work: "rs u = [r]" "rs v = [w]"
  shows "\<exists>schedule c. interleave schedule (s, \<lambda>u. idle (rs u)) = Return c \<and>
    answers (snd c u) = [(r, got_response [] zero_response)]"
proof -
  let ?q = "req_string r" and ?n = "req_prefix r" and ?b = "bucket_of cap (req_string r)"
  let ?ts = "\<lambda>u. idle (rs u)"
  from rep obtain t bs where op: "opened s t bs cap tab" by (auto simp: represents_opened)
  note b = opened_index [OF op, of ?q]
  have t: "ht s = Ht_live t" "ht_capacity t = cap" "table_ok s t bs" "tab ?b = entries s bs ?b"
    using op b(2) by (simp_all add: opened_def)
  have none: "find (matches s ?n ?q) (bs ?b) = None"
    using new t(4) by (simp add: bucket_get_def find_entries)
  let ?s = "inserted ?b t (req_key w) ?n s"
  note q = request_fits_cstr [OF fits(2)] and len = fits_lengths [OF fits(2)]
  have "get_key_entry (req_key w) (req_key_len w) s = Return (fresh s, ?s)"
    using get_key_entry_new [OF t(1,3) _ q len(1,2)] none b(3) t(2) same by simp
  from key_entry_alone [OF methods(2) this] have "\<exists>k. alone v w k (Start, s) = Return (Locking (fresh s), ?s)" .
  let ?t1 = "moved ?ts v (Locking (fresh s))"
  from alone_in [where ts = ?ts and rs = "[]", OF \<open>\<exists>k. alone v w k _ = _\<close>] work(2) obtain l where
    first: "interleave (replicate l v) (s, ?ts) = Return (?s, ?t1)" by (auto simp: idle_def)
  have "represents ?s cap (tab(?b := (take ?n ?q, []) # tab ?b))"
    using inserted_opened [OF op q, of ?n] same unfolding represents_opened by auto
  from get_request_represents [OF this fits(1) zero_response_wf, of u]
  have "serve_request u (True, True, True) r zero_response ?s = Return (got_response [] zero_response, ?s)"
    using methods(1) by (simp add: serve_request_def bucket_get_def key_match_def)
  from serve_alone [OF this] have "\<exists>k. alone u r k (Start, ?s) = Return (Answered (got_response [] zero_response), ?s)" .
  moreover have "queue (?t1 u) = r # []" "point (?t1 u) = Start" using ne work(1) by (simp_all add: moved_def idle_def)
  ultimately obtain n where
    "interleave (replicate n u) (?s, ?t1) = Return (?s, moved ?t1 u (Answered (got_response [] zero_response)))"
    using alone_in [where ts = ?t1] by blast
  then have "interleave (replicate l v @ replicate n u @ [u]) (s, ?ts) = Return (?s,
      ?t1(u := \<lparr>queue = [], point = Start, answers = [(r, got_response [] zero_response)]\<rparr>))"
    using first work(1) ne by (simp only: interleave_append obind.simps) (simp add: advance_def moved_def idle_def)
  then show ?thesis by fastforce
qed

theorem get_next_to_first_set_is_empty_witness:
  "\<exists>schedule c. interleave schedule (start_memory, \<lambda>u. idle (race_with SET u)) = Return c \<and>
    answers (snd c 0) = [(plain_request GET (bytes ''a'') [], got_response [] zero_response)]"
proof (rule get_next_to_first_set_is_empty [OF start_represents race_fits(1) race_fits(2)])
  show "race_with SET 0 = [plain_request GET (bytes ''a'') []]"
    and "race_with SET 1 = [plain_request SET (bytes ''a'') (bytes ''w'')]" by (simp_all add: race_with_def)
qed (simp_all only: race_key plain_request_simps, simp_all add: bucket_get_def)

text \<open>
  C25: a RST next to a SET is unsafe: \<open>init_hashtable\<close> replaces the table without its mutexes, so a SET that
  is inside \<open>get_key_entry\<close> at that moment unlocks a mutex of the new table that nobody has locked.
\<close>

theorem reset_next_to_set_is_undefined:
  assumes rep: "represents s table_size tab" and fits: "request_fits r"
    and methods: "req_method r = SET" "req_method d = RST"
    and ne: "u \<noteq> v" and work: "rs u = [r]" "rs v = [d]"
  shows "\<exists>schedule. interleave schedule (s, \<lambda>u. idle (rs u)) = Undefined Unlock_not_held"
proof -
  let ?ts = "\<lambda>u. idle (rs u)" and ?b = "bucket_of table_size (req_string r)"
  from rep obtain t bs where op: "opened s t bs table_size tab" by (auto simp: represents_opened)
  have t: "ht s = Ht_live t" "ht_capacity t = table_size" "ht_capacity t \<noteq> 0"
    using op by (auto simp: opened_def table_ok_def shape_ok_def)
  from get_key_entry_represents [OF rep request_fits_cstr [OF fits], of "req_key_len r"] fits_lengths [OF fits]
  obtain e s' where "get_key_entry (req_key r) (req_key_len r) s = Return (e, s')" by blast
  from key_entry_leaves [OF methods(1) this, of u] obtain b s1 where
    b: "\<exists>k. alone u r k (Start, s) = Return (Leaving b (Locking e), s1)" "get_bucket (req_key r) s = Return (b, s)"
      "mutex_unlock b s1 = Return ((), s')" by blast
  have "b < 1024"
    using b(2) get_bucket_run [OF request_fits_cstr [OF fits] t(1,3)] t(2) opened_index(2) [OF op, of "req_string r"]
    by (simp add: HT_CAPACITY_def)
  from alone_in [where ts = ?ts and rs = "[]", OF b(1)] work(1) obtain n where
    n: "interleave (replicate n u) (s, ?ts) = Return (s1, moved ?ts u (Leaving b (Locking e)))" by (auto simp: idle_def)
  let ?ts1 = "moved ?ts u (Leaving b (Locking e))"
  from b(3) obtain t1 where "ht s1 = Ht_live t1"
    by (auto simp: mutex_unlock_def cbind_eq_Return the_ht_def split: ht_pointer.splits)
  then obtain resp t2 where reset: "micro v d Start s1 = Return (Answered resp, s1\<lparr>ht := Ht_live t2\<rparr>)"
    and t2: "ht_locks t2 = replicate 1024 False"
    using methods(2) by (auto simp: micro_def serve_request_def init_hashtable_def cmd_run HT_CAPACITY_def)
  let ?s2 = "s1\<lparr>ht := Ht_live t2\<rparr>"
  have "micro u r (Leaving b (Locking e)) ?s2 = Undefined Unlock_not_held"
    using t2 \<open>b < 1024\<close> by (simp add: micro_def mutex_unlock_def the_ht_def array_get_def cmd_run)
  then have "interleave [v, u] (s1, ?ts1) = Undefined Unlock_not_held"
    using reset work ne by (simp add: advance_def moved_def idle_def)
  with n have "interleave (replicate n u @ [v, u]) (s, ?ts) = Undefined Unlock_not_held"
    by (simp add: interleave_append)
  then show ?thesis ..
qed

theorem reset_next_to_set_is_undefined_witness:
  "\<exists>schedule. interleave schedule (start_memory, \<lambda>u. idle (if u = 0 then [plain_request SET (bytes ''a'') (bytes ''w'')]
     else if u = 1 then [plain_request RST [] []] else [])) = Undefined Unlock_not_held"
  by (rule reset_next_to_set_is_undefined [OF start_represents race_fits(2), where u = 0 and v = 1]) simp_all

end
