(* ===== verification/KV_Concurrent_Atomic.thy ===== *)
theory KV_Concurrent_Atomic
  imports KV_Concurrent_Properties
begin

text \<open>
  Concurrent SETs and GETs act atomically. \<open>stored\<close> reads the contents of the table out of a
  configuration, an item that a thread is writing counting as written already: its lock keeps the others
  from seeing anything else. Under this view every step of a thread leaves the contents alone, except
  for the two moments at which a SET acts, the insertion of an item and the locking of it; and what a
  GET copies is in the contents at that moment.
\<close>

section \<open>The contents of a configuration\<close>

fun walk :: "memory \<Rightarrow> nat \<Rightarrow> addr option \<Rightarrow> addr list" where
  "walk s 0 p = []"
| "walk s (Suc n) None = []"
| "walk s (Suc n) (Some a) = a # walk s n (next_of s a)"

definition shown :: "config \<Rightarrow> addr \<Rightarrow> byte list" where
  "shown c a =
     (case lock_of (fst c) a of
        Write_held u \<Rightarrow> req_value (hd (queue (snd c u)))
      | _ \<Rightarrow> value_of (fst c) a)"

definition stored :: "config \<Rightarrow> nat \<Rightarrow> (byte list \<times> byte list) list" where
  "stored c b =
     (case ht (fst c) of
        Ht_live t \<Rightarrow> map (\<lambda>a. (key_of (fst c) a, shown c a)) (walk (fst c) (fresh (fst c)) (ht_items t ! b))
      | _ \<Rightarrow> [])"

lemma path_walk: "path s p as \<Longrightarrow> length as \<le> n \<Longrightarrow> walk s n p = as"
proof (induction as arbitrary: p n)
  case Nil
  then show ?case by (cases n) simp_all
next
  case (Cons a as)
  then show ?case by (cases n) simp_all
qed

lemma config_table:
  assumes "config_inv org c t bs"
  shows "ht (fst c) = Ht_live t" "table_ok (fst c) t bs" "shared org (fst c) t bs (snd c)"
  using assms by (simp_all add: config_inv_def shared_def)

lemma config_thread:
  assumes "config_inv org c t bs" and "queue (snd c u) = r # rs"
  shows "sound (org (slot t r)) r" "point_ok (org (slot t r)) (fst c) (set (bs (slot t r))) r (point (snd c u))"
    "section_ok t (fst c) (set (bs (slot t r))) r (point (snd c u))"
proof -
  have "thread_ok org (fst c) t bs (snd c u)" using assms(1) by (simp add: config_inv_def)
  with assms(2) show "sound (org (slot t r)) r"
    "point_ok (org (slot t r)) (fst c) (set (bs (slot t r))) r (point (snd c u))"
    "section_ok t (fst c) (set (bs (slot t r))) r (point (snd c u))" by (simp_all add: thread_ok_def)
qed

lemma stored_items:
  assumes inv: "config_inv org c t bs" and b: "b < length (ht_items t)"
  shows "stored c b = map (\<lambda>a. (key_of (fst c) a, shown c a)) (bs b)"
proof -
  note t = config_table [OF inv]
  have "path (fst c) (ht_items t ! b) (bs b)" by (rule chain_path [OF table_ok_bucket(1) [OF t(2) b]])
  from path_walk [OF this bucket_length [OF t(2) b]] t(1) show ?thesis by (simp add: stored_def)
qed

lemma shown_writers:
  assumes inv: "config_inv org c t bs" and b: "b < length (ht_items t)" "a \<in> set (bs b)"
  shows "writers (snd c) a = {} \<Longrightarrow> shown c a = value_of (fst c) a"
    and "u \<in> writers (snd c) a \<Longrightarrow> shown c a = req_value (hd (queue (snd c u)))"
proof -
  have "rw_agrees (lock_of (fst c) a) (writers (snd c) a) (readers (snd c) a)"
    using config_table(3) [OF inv] b by (simp add: shared_def)
  then show "writers (snd c) a = {} \<Longrightarrow> shown c a = value_of (fst c) a"
    and "u \<in> writers (snd c) a \<Longrightarrow> shown c a = req_value (hd (queue (snd c u)))"
    by (cases "lock_of (fst c) a"; auto simp: shown_def)+
qed

lemma stored_start:
  assumes "represents s cap tab" and "sets_and_gets rs" and "b < unat cap"
  shows "stored (s, \<lambda>u. idle (rs u)) b = tab b"
proof -
  from assms(1) obtain t bs where op: "opened s t bs cap tab" by (auto simp: represents_opened)
  then have t: "ht s = Ht_live t" "ht_capacity t = cap" "table_ok s t bs" "quiet s bs" "tab b = entries s bs b"
    using assms(3) by (simp_all add: opened_def)
  have b: "b < length (ht_items t)" using opened_length [OF op] assms(3) by simp
  have "path s (ht_items t ! b) (bs b)" by (rule chain_path [OF table_ok_bucket(1) [OF t(3) b]])
  from path_walk [OF this bucket_length [OF t(3) b]] t(1)
  have "stored (s, \<lambda>u. idle (rs u)) b = map (\<lambda>a. (key_of s a, shown (s, \<lambda>u. idle (rs u)) a)) (bs b)"
    by (simp add: stored_def)
  moreover have "shown (s, \<lambda>u. idle (rs u)) a = value_of s a" if "a \<in> set (bs b)" for a
    using t(1,2,4) that assms(3) by (simp add: shown_def quiet_def)
  ultimately show ?thesis using t(5) by (simp add: entries_def)
qed

section \<open>What a step changes\<close>

lemma micro_items:
  assumes m: "micro me r pc s = Return (pc', s')" and r: "req_method r \<in> {SET, GET}"
    and pc: "\<forall>b h. pc \<noteq> Adding b h" "\<forall>b a. pc \<noteq> Deleting b a" and t: "ht s = Ht_live t" "ht s' = Ht_live t'"
  shows "ht_items t' = ht_items t"
proof (cases pc)
  case Start
  with m r t show ?thesis
    by (auto simp: micro_def cbind_eq_Return cret_def clift_def obind_eq_Return dest!: get_bucket_state the_ht_state)
next
  case (Entering b)
  with m t show ?thesis
    by (auto simp: micro_def await_def cseq_eq_Return cret_def mutex_lock_eq_Return split: outcome.splits)
next
  case (Entered b)
  with m t show ?thesis
    by (auto simp: micro_def cbind_eq_Return cret_def clift_def obind_eq_Return dest!: get_bucket_state the_ht_state)
next
  case (Seeking b h p)
  with m t show ?thesis
    by (cases p) (auto simp: micro_def cbind_eq_Return cret_def visit_eq_Return)
next
  case (Leaving b q)
  with m t show ?thesis
    by (auto simp: micro_def cseq_eq_Return cret_def mutex_unlock_def cbind_eq_Return the_ht_def upd_ht_def cput_def
      clift_def obind_eq_Return split: if_splits)
next
  case (Walking p)
  with m t show ?thesis
    by (cases p) (auto simp: micro_def cbind_eq_Return cret_def visit_eq_Return)
qed (use m pc t in \<open>auto simp: micro_def cbind_eq_Return cseq_eq_Return cret_def rwlock_trywrlock_def
  rwlock_tryrdlock_def rwlock_unlock_def item_def upd_item_def malloc_buf_def write_buf_def copy_value_def clift_def
  obind_eq_Return Let_def case_prod_beta split: if_splits option.splits\<close>)

text \<open>The buckets stay as they are in every step that does not add an item.\<close>

lemma buckets_kept:
  assumes inv: "config_inv org (s, ts) t bs" and inv': "config_inv org (s', ts') t' bs'"
    and items: "ht_items t' = ht_items t" and b: "b < length (ht_items t)"
    and k: "keeps X (set (bs b)) s N' s'"
  shows "bs' b = bs b"
proof -
  note t = config_table [OF inv] and t' = config_table [OF inv']
  have "path s (ht_items t ! b) (bs b)" using chain_path [OF table_ok_bucket(1) [OF t(2) b]] by simp
  from path_keeps [OF k this] have "path s' (ht_items t ! b) (bs b)" by simp
  moreover have "path s' (ht_items t ! b) (bs' b)"
    using chain_path [OF table_ok_bucket(1) [OF t'(2)], of b] items b by simp
  ultimately show ?thesis by (rule path_unique [symmetric])
qed

lemma micro_writes:
  assumes m: "micro me r pc s = Return (pc', s')" and r: "req_method r \<in> {SET, GET}"
    and ok: "point_ok org s N r pc"
  shows "writes_item pc' = Some a \<longleftrightarrow>
    pc = Locking a \<and> pc' = Allocating a \<or> writes_item pc = Some a \<and> pc \<noteq> Unlocking a"
proof (cases pc)
  case Start
  with m r show ?thesis by (auto simp: micro_def cbind_eq_Return cret_def)
next
  case (Entering b)
  with m show ?thesis by (auto simp: micro_def await_def cseq_eq_Return cret_def split: outcome.splits)
next
  case (Seeking b h p)
  with m show ?thesis
    by (cases p) (auto simp: micro_def cbind_eq_Return cret_def sought_def split: if_splits)
next
  case (Leaving b q)
  with m ok show ?thesis by (auto simp: micro_def cseq_eq_Return cret_def point_ok_def)
next
  case (Walking p)
  with m show ?thesis
    by (cases p) (auto simp: micro_def cbind_eq_Return cret_def split: if_splits)
qed (use m in \<open>auto simp: micro_def cbind_eq_Return cseq_eq_Return cret_def split: if_splits\<close>)

lemma unlocking_value:
  assumes "micro me r (Unlocking a) s = Return (pc', s')"
  shows "value_of s' a = value_of s a"
proof -
  from assms obtain it l where it: "cells s a = Some it" "s' = s\<lparr>cells := (cells s)(a \<mapsto> it\<lparr>item_rwlock := l\<rparr>)\<rparr>"
    by (auto simp: micro_def cseq_eq_Return cret_def rwlock_unlock_def cbind_eq_Return item_def deref_def
        obind_eq_Return clift_def upd_item_def split: option.splits)
  have "item_view s' a = item_view s a"
    by (rule item_view_frame) (use it in \<open>simp_all add: item_content_def\<close>)
  then show ?thesis by (rule item_view_value)
qed

lemma shown_step:
  assumes inv: "config_inv org (s, ts) t bs" and inv': "config_inv org (s', moved ts me pc) t' bs'"
    and m: "micro me r (point (ts me)) s = Return (pc, s')" and q: "queue (ts me) = r # rs"
    and b: "b < length (ht_items t)" "a \<in> set (bs b)" "bs' b = bs b" "b < length (ht_items t')"
    and k: "keeps (set_option (writes_item (point (ts me)))) (set (bs b)) s (set (bs' b)) s'"
  shows "shown (s', moved ts me pc) a =
    (if point (ts me) = Locking a \<and> pc = Allocating a then req_value r else shown (s, ts) a)"
proof -
  note before = shown_writers [OF inv b(1,2), unfolded fst_conv snd_conv]
  have "a \<in> set (bs' b)" using b by simp
  note after = shown_writers [OF inv' b(4) this, unfolded fst_conv snd_conv]
  have queue: "queue (moved ts me pc u) = queue (ts u)" for u by (simp add: moved_def)
  have "sound (org (slot t r)) r" and ok: "point_ok (org (slot t r)) s (set (bs (slot t r))) r (point (ts me))"
    using config_thread [OF inv, of me r rs] q by simp_all
  then have "req_method r \<in> {SET, GET}" by (simp add: sound_def)
  note w = micro_writes [OF m this ok, of a] and W = moved_holders(1) [of ts me pc a]
  have ag: "rw_agrees (lock_of s a) (writers ts a) (readers ts a)"
    using config_table(3) [OF inv] b by (simp add: shared_def)
  consider (new) "point (ts me) = Locking a" "pc = Allocating a"
    | (on) "writes_item (point (ts me)) = Some a" "writes_item pc = Some a"
    | (off) "point (ts me) = Unlocking a" "writes_item pc \<noteq> Some a"
    | (other) "writes_item (point (ts me)) \<noteq> Some a" "writes_item pc \<noteq> Some a"
    using w by (cases "point (ts me)") (auto split: if_splits)
  then show ?thesis
  proof cases
    case new
    then have "me \<in> writers (moved ts me pc) a" using W by simp
    from after(2) [OF this] show ?thesis using new q queue by simp
  next
    case on
    then have "me \<in> writers (moved ts me pc) a" "me \<in> writers ts a" using W by (simp_all add: in_holders)
    from after(2) [OF this(1)] before(2) [OF this(2)] on(1) show ?thesis using queue by auto
  next
    case off
    then have me: "me \<in> writers ts a" by (simp add: in_holders)
    from lk.writer_alone(1) [OF ag me] off(2) W have "writers (moved ts me pc) a = {}" by simp
    from after(1) [OF this] unlocking_value [of me r a s pc s'] m off(1)
    have "shown (s', moved ts me pc) a = value_of s a" by simp
    moreover have "value_of s a = req_value r" using ok off(1) by (simp add: point_ok_def)
    moreover have "shown (s, ts) a = req_value r" using before(2) [OF me] q by simp
    ultimately show ?thesis using off(1) by simp
  next
    case other
    then have same: "writers (moved ts me pc) a = writers ts a" using W by (auto simp: in_holders)
    have "item_view s' a = item_view s a" using k b(2) other(1) by (auto simp: keeps_def)
    then have v: "value_of s' a = value_of s a" by (rule item_view_value)
    have "shown (s', moved ts me pc) a = shown (s, ts) a"
    proof (cases "writers ts a = {}")
      case True
      with same after(1) before(1) v show ?thesis by simp
    next
      case False
      then obtain u where "u \<in> writers ts a" by blast
      with after(2) [of u] before(2) [of u] same queue show ?thesis by simp
    qed
    with other show ?thesis by auto
  qed
qed

lemma shown_unchanged:
  assumes inv: "config_inv org (s, ts) t bs" and inv': "config_inv org (s', ts') t' bs'"
    and b: "b < length (ht_items t)" "a \<in> set (bs b)" and b': "b < length (ht_items t')" "a \<in> set (bs' b)"
    and same: "writers ts' a = writers ts a" "value_of s' a = value_of s a"
      "\<And>u. u \<in> writers ts a \<Longrightarrow> queue (ts' u) = queue (ts u)"
  shows "shown (s', ts') a = shown (s, ts) a"
proof (cases "writers ts a = {}")
  case True
  with shown_writers(1) [OF inv b] shown_writers(1) [OF inv' b'] same show ?thesis by simp
next
  case False
  then obtain u where "u \<in> writers ts a" by blast
  with shown_writers(2) [OF inv b, of u] shown_writers(2) [OF inv' b', of u] same show ?thesis by simp
qed

text \<open>A step that does not add an item: only the locking of an item writes, its new value at once.\<close>

lemma later_stored:
  assumes inv: "config_inv org (s, ts) t bs" and inv': "config_inv org (s', moved ts me pc) t' bs'"
    and m: "micro me r (point (ts me)) s = Return (pc, s')" and q: "queue (ts me) = r # rs"
    and na: "\<forall>b h. point (ts me) \<noteq> Adding b h" and d: "d < length (ht_items t)"
    and k: "keeps (set_option (writes_item (point (ts me)))) (set (bs d)) s (set (bs' d)) s'"
  shows "stored (s', moved ts me pc) d = map (\<lambda>a. (key_of s a,
    if point (ts me) = Locking a \<and> pc = Allocating a then req_value r else shown (s, ts) a)) (bs d)"
proof -
  have "sound (org (slot t r)) r" "point_ok (org (slot t r)) s (set (bs (slot t r))) r (point (ts me))"
    using config_thread [OF inv, of me r rs] q by simp_all
  then have "req_method r \<in> {SET, GET}" "\<forall>b a. point (ts me) \<noteq> Deleting b a"
    by (auto simp: sound_def point_ok_def)
  note items = micro_items [OF m this(1) na this(2) config_table(1) [OF inv, unfolded fst_conv]
    config_table(1) [OF inv', unfolded fst_conv]]
  have eq: "bs' d = bs d" using buckets_kept [OF inv inv' items d k] .
  have "key_of s' a = key_of s a" if "a \<in> set (bs d)" for a using k that by (simp add: keeps_def)
  moreover note shown_step [OF inv inv' m q d _ eq _ k]
  ultimately show ?thesis using stored_items [OF inv'] eq items d by simp
qed

text \<open>The step of a SET that adds an item.\<close>

lemma adding_stored:
  assumes inv: "config_inv org (s, ts) t bs" and inv': "config_inv org (s', moved ts me pc) t' bs'"
    and m: "micro me r (Adding b h) s = Return (pc, s')" and q: "queue (ts me) = r # rs"
    and pc: "point (ts me) = Adding b h" and d: "d < length (ht_items t)"
    and k: "\<forall>b < length (ht_items t). keeps {} (set (bs b)) s (set (bs' b)) s'"
  shows "stored (s', moved ts me pc) d =
    (if d = slot t r then (take (req_prefix r) (req_string r), []) # stored (s, ts) d else stored (s, ts) d)"
    and "\<not> list_ex (\<lambda>kv. key_matches r (fst kv)) (stored (s, ts) (slot t r))"
    and "\<exists>e. pc = Leaving b (Locking e)"
proof -
  let ?b = "slot t r" and ?q = "req_string r" and ?n = "req_prefix r" and ?ts = "moved ts me pc"
  note t = config_table [OF inv, unfolded fst_conv] and t' = config_table [OF inv', unfolded fst_conv]
  have "sound (org ?b) r" and sec: "section_ok t s (set (bs ?b)) r (Adding b h)"
    using config_thread [OF inv, of me r rs] q pc by simp_all
  then have fits: "request_fits r" and b: "b = ?b" "h = ht_items t ! b"
    and none: "\<forall>a \<in> set (bs ?b). \<not> key_matches r (key_of s a)"
    by (simp_all add: sound_def section_ok_def)
  note q = request_fits_cstr [OF fits] and len = fits_lengths [OF fits]
  have bl: "?b < length (ht_items t)" using slot_less [OF t(2)] .
  from none stored_items [OF inv bl] show "\<not> list_ex (\<lambda>kv. key_matches r (fst kv)) (stored (s, ts) ?b)"
    by (auto simp: list_ex_iff)
  have bf: "below_fresh s" using t(2) by (simp add: table_ok_def)
  have run: "s' = inserted ?b t (req_key r) ?n s" "pc = Leaving b (Locking (fresh s))"
    using m b new_entry_run [OF t(1) bl table_ok_bucket(1) [OF t(2) bl] bf] len(1,2)
    by (simp_all add: micro_def cmd_run)
  from run(2) show "\<exists>e. pc = Leaving b (Locking e)" by blast
  have W: "writers ?ts a = writers ts a" for a using holders_elsewhere(1) [of a ts me] pc run(2) by simp
  have queue: "queue (?ts u) = queue (ts u)" for u by (simp add: moved_def)
  have old: "key_of s' a = key_of s a \<and> shown (s', ?ts) a = shown (s, ts) a"
    if "a \<in> set (bs d)" "d < length (ht_items t')" for a
  proof -
    have v: "a \<in> set (bs' d)" "key_of s' a = key_of s a" "item_view s' a = item_view s a"
      using k d that(1) by (auto simp: keeps_def)
    from shown_unchanged [OF inv inv' d that(1) that(2) v(1) W item_view_value [OF v(3)] queue] v(2)
    show ?thesis by simp
  qed
  let ?bs = "bs(?b := fresh s # bs ?b)"
  have eq: "t' = t\<lparr>ht_items := (ht_items t)[?b := Some (fresh s)]\<rparr>" using t'(1) run(1) by simp
  then have d': "d < length (ht_items t')" using d by simp
  have "table_ok s' t' ?bs" unfolding run(1) eq by (rule inserted_table_ok) (use t bl len in simp_all)
  from chain_path [OF table_ok_bucket(1) [OF this d']] have "path s' (ht_items t' ! d) (?bs d)" .
  moreover have "path s' (ht_items t' ! d) (bs' d)"
    by (rule chain_path [OF table_ok_bucket(1) [OF t'(2) d']])
  ultimately have bs': "bs' d = ?bs d" by (rule path_unique [symmetric])
  have new: "key_of s' (fresh s) = take ?n ?q" "value_of s' (fresh s) = []"
    using inserted_new_item(2,3) [of t ?b s "req_key r" ?n] head_of_chain [OF table_ok_bucket(1) [OF t(2) bl]]
      table_ok_bucket(4) [OF t(2) bl] stored_key_cstr [OF q, of ?n] run(1) by (auto simp: stored_key_def)
  have "fresh s \<notin> nodes (length (ht_items t)) bs" using table_ok_below [OF t(2)] by blast
  then have "writers ts (fresh s) = {}" using t(3) by (auto simp: shared_def writers_def touches_def)
  then have "shown (s', ?ts) (fresh s) = []" if "d = ?b"
    using shown_writers(1) [OF inv' d', of "fresh s"] bs' that new(2) W by simp
  then show "stored (s', ?ts) d = (if d = ?b then (take ?n ?q, []) # stored (s, ts) d else stored (s, ts) d)"
    using stored_items [OF inv d] stored_items [OF inv' d'] bs' old d' new(1) by (cases "d = ?b") simp_all
qed

text \<open>A step that changes neither the memory nor a writer.\<close>

lemma same_memory_stored:
  assumes inv: "config_inv org (s, ts) t bs" and inv': "config_inv org (s, ts') t' bs'"
    and d: "d < length (ht_items t)" and W: "\<And>a. writers ts' a = writers ts a"
    and queue: "\<And>a u. u \<in> writers ts a \<Longrightarrow> queue (ts' u) = queue (ts u)"
  shows "stored (s, ts') d = stored (s, ts) d"
proof -
  have t: "t' = t" using config_table(1) [OF inv] config_table(1) [OF inv'] by simp
  then have eq: "bs' d = bs d" using buckets_kept [OF inv inv' _ d keeps_refl] by simp
  have "shown (s, ts') a = shown (s, ts) a" if "a \<in> set (bs d)" for a
    using shown_unchanged [OF inv inv' d that _ _ W _ queue] t eq d that by simp
  then show ?thesis using stored_items [OF inv d] stored_items [OF inv'] d t eq by simp
qed

section \<open>The action of a step\<close>

text \<open>
  What a step of \<open>r\<close> from one point to another does to the contents of the bucket of \<open>r\<close>, and what a
  GET that copies a value found there.
\<close>

definition acts ::
  "request \<Rightarrow> pc \<Rightarrow> pc \<Rightarrow> (byte list \<times> byte list) list \<Rightarrow> (byte list \<times> byte list) list \<Rightarrow> bool" where
  "acts r p p' xs ys \<longleftrightarrow>
     (case (p, p') of
        (Adding b h, Leaving b' pc) \<Rightarrow>
          \<not> list_ex (\<lambda>kv. key_matches r (fst kv)) xs \<and> ys = (take (req_prefix r) (req_string r), []) # xs
      | (Locking e, Allocating e') \<Rightarrow>
          \<exists>us k v vs. xs = us @ (k, v) # vs \<and> key_matches r k \<and> ys = us @ (k, req_value r) # vs
      | (Copying a, Releasing a' resp) \<Rightarrow>
          ys = xs \<and> (\<exists>(k, v) \<in> set xs. key_matches r k \<and> resp = got_response v zero_response)
      | _ \<Rightarrow> ys = xs)"

lemma acts_same:
  "\<forall>b h. p \<noteq> Adding b h \<Longrightarrow> \<forall>a. p \<noteq> Locking a \<Longrightarrow> \<forall>a. p \<noteq> Copying a \<Longrightarrow> acts r p p' xs xs"
  by (cases p) (simp_all add: acts_def)

lemma map_at:
  assumes "distinct as" and "e \<in> set as"
  obtains us vs where "as = us @ e # vs"
    "\<And>f y. map (\<lambda>a. if a = e then y else f a) as = map f us @ y # map f vs"
proof -
  from split_list [OF assms(2)] obtain us vs where as: "as = us @ e # vs" by blast
  with assms(1) have "map (\<lambda>a. if a = e then y else f a) as = map f us @ y # map f vs" for f :: "'a \<Rightarrow> 'b" and y
    by auto
  with as that show ?thesis by blast
qed

lemma target_item:
  assumes inv: "config_inv org c t bs" and "target (fst c) (set (bs (slot t r))) r a"
  shows "(key_of (fst c) a, shown c a) \<in> set (stored c (slot t r))" and "key_matches r (key_of (fst c) a)"
    and "a \<in> set (bs (slot t r))" and "item_ok (fst c) a"
  using assms(2) stored_items [OF inv slot_less [OF config_table(2) [OF inv]]]
    table_ok_bucket(3) [OF config_table(2) [OF inv] slot_less [OF config_table(2) [OF inv]]]
  by (auto simp: target_def)

lemma locking_acts:
  assumes inv: "config_inv org (s, ts) t bs" and "target s (set (bs (slot t r))) r e"
    and st: "\<And>d. d < length (ht_items t) \<Longrightarrow> ys d = map (\<lambda>a. (key_of s a, if a = e then req_value r else shown (s, ts) a)) (bs d)"
    and d: "d < length (ht_items t)"
  shows "acts r (Locking e) (Allocating e) (stored (s, ts) (slot t r)) (ys (slot t r))"
    and "d \<noteq> slot t r \<Longrightarrow> ys d = stored (s, ts) d"
proof -
  let ?b = "slot t r"
  note t = config_table(2) [OF inv, unfolded fst_conv] and e = target_item [OF inv, unfolded fst_conv, OF assms(2)]
  have b: "?b < length (ht_items t)" using slot_less [OF t] .
  show "ys d = stored (s, ts) d" if "d \<noteq> ?b"
  proof -
    have "e \<notin> set (bs d)" using table_ok_apart(1) [OF t d b that] e(3) by blast
    then have "map (\<lambda>a. (key_of s a, if a = e then req_value r else shown (s, ts) a)) (bs d) = stored (s, ts) d"
      using stored_items [OF inv d] by auto
    then show ?thesis using st [OF d] by simp
  qed
  let ?f = "\<lambda>a. (key_of s a, shown (s, ts) a)"
  from map_at [OF table_ok_bucket(2) [OF t b] e(3)] obtain us vs where
    us: "bs ?b = us @ e # vs" "map (\<lambda>a. if a = e then (key_of s e, req_value r) else ?f a) (bs ?b) =
      map ?f us @ (key_of s e, req_value r) # map ?f vs" by metis
  have "ys ?b = map (\<lambda>a. if a = e then (key_of s e, req_value r) else ?f a) (bs ?b)"
    using st [OF b] by auto
  then have "ys ?b = map ?f us @ (key_of s e, req_value r) # map ?f vs" by (simp only: us(2))
  moreover have "stored (s, ts) ?b = map ?f us @ (key_of s e, shown (s, ts) e) # map ?f vs"
    using stored_items [OF inv b] us(1) by simp
  ultimately have "\<exists>us k v vs. stored (s, ts) ?b = us @ (k, v) # vs \<and> key_matches r k \<and>
      ys ?b = us @ (k, req_value r) # vs" using e(2) unfolding fst_conv by blast
  then show "acts r (Locking e) (Allocating e) (stored (s, ts) ?b) (ys ?b)" by (simp add: acts_def)
qed

lemma copying_acts:
  assumes inv: "config_inv org (s, ts) t bs" and pc: "point (ts me) = Copying a"
    and tg: "target s (set (bs (slot t r))) r a" and m: "micro me r (Copying a) s = Return (pc, s')"
  shows "acts r (Copying a) pc (stored (s, ts) (slot t r)) (stored (s, ts) (slot t r))"
proof -
  note e = target_item [OF inv, unfolded fst_conv, OF tg]
  from config_table(3) [OF inv] tg obtain it where it: "cells s a = Some it"
    "rw_agrees (item_rwlock it) (writers ts a) (readers ts a)"
    unfolding fst_conv snd_conv by (metis shared_node)
  have "me \<in> readers ts a" using pc by (simp add: in_holders)
  then have W: "writers ts a = {}" using lk.one_writer [OF it(2)] by blast
  have v: "shown (s, ts) a = value_of s a"
    using shown_writers(1) [OF inv slot_less [OF config_table(2) [OF inv]] e(3)] W by simp
  have len: "length (resp_msg zero_response) = MSG_SIZE" using zero_response_wf by (simp add: response_wf_def)
  have "micro me r (Copying a) s = Return (Releasing a (got_response (value_of s a) zero_response), s)"
    using it(1) copy_value_run [OF it(1) e(4) len] by (simp add: micro_def cmd_run got_response_def)
  with m have "pc = Releasing a (got_response (value_of s a) zero_response)" by auto
  with e(1,2) v show ?thesis by (auto simp: acts_def)
qed

lemma step_acts:
  assumes inv: "config_inv org (s, ts) t bs" and inv': "config_inv org (s', moved ts me pc) t' bs'"
    and m: "micro me r (point (ts me)) s = Return (pc, s')" and q: "queue (ts me) = r # rs"
    and k: "\<forall>b < length (ht_items t). keeps (set_option (writes_item (point (ts me)))) (set (bs b)) s (set (bs' b)) s'"
    and d: "d < length (ht_items t)"
  shows "acts r (point (ts me)) pc (stored (s, ts) (slot t r)) (stored (s', moved ts me pc) (slot t r))"
    and "d \<noteq> slot t r \<Longrightarrow> stored (s', moved ts me pc) d = stored (s, ts) d"
proof -
  let ?b = "slot t r"
  let ?A = "acts r (point (ts me)) pc (stored (s, ts) ?b) (stored (s', moved ts me pc) ?b) \<and>
    (d \<noteq> ?b \<longrightarrow> stored (s', moved ts me pc) d = stored (s, ts) d)"
  have b: "?b < length (ht_items t)" using slot_less [OF config_table(2) [OF inv]] .
  have snd: "sound (org ?b) r" and ok: "point_ok (org ?b) s (set (bs ?b)) r (point (ts me))"
    using config_thread [OF inv, of me r rs] q by simp_all
  note later = later_stored [OF inv inv' m q]
  have quiet: ?A if "\<forall>b h. point (ts me) \<noteq> Adding b h" "\<forall>a. point (ts me) = Locking a \<longrightarrow> pc \<noteq> Allocating a"
    "acts r (point (ts me)) pc (stored (s, ts) ?b) (stored (s, ts) ?b)"
  proof -
    have "stored (s', moved ts me pc) c = stored (s, ts) c" if "c < length (ht_items t)" for c
      using later [OF \<open>\<forall>b h. point (ts me) \<noteq> Adding b h\<close> that] k that stored_items [OF inv that]
        \<open>\<forall>a. point (ts me) = Locking a \<longrightarrow> pc \<noteq> Allocating a\<close> by auto
    with b d \<open>acts r (point (ts me)) pc (stored (s, ts) ?b) (stored (s, ts) ?b)\<close> show ?thesis by simp
  qed
  have ?A
  proof (cases "point (ts me)")
    case (Adding c h)
    with k have "\<forall>b < length (ht_items t). keeps {} (set (bs b)) s (set (bs' b)) s'" by simp
    note st = adding_stored [OF inv inv' m [unfolded Adding] q Adding _ this]
    from st(3) [OF d] obtain e where "pc = Leaving c (Locking e)" ..
    with st(1) [OF b] st(1) [OF d] st(2) [OF d] Adding show ?thesis by (simp add: acts_def)
  next
    case (Locking e)
    then consider "pc = Allocating e" | "\<exists>resp. pc = Answered resp"
      using m by (auto simp: micro_def cbind_eq_Return cret_def split: if_splits)
    then show ?thesis
    proof cases
      case 1
      have "target s (set (bs ?b)) r e" using ok Locking by (simp add: point_ok_def)
      from locking_acts [OF inv this _ d, of "stored (s', moved ts me pc)"] later k Locking 1
      show ?thesis by auto
    next
      case 2
      with Locking show ?thesis by (intro quiet) (auto simp: acts_def)
    qed
  next
    case (Copying a)
    have "target s (set (bs ?b)) r a" using ok Copying by (simp add: point_ok_def)
    from copying_acts [OF inv Copying this] m Copying show ?thesis by (intro quiet) simp_all
  qed (intro quiet; simp add: acts_same)+
  then show "acts r (point (ts me)) pc (stored (s, ts) ?b) (stored (s', moved ts me pc) ?b)"
    and "d \<noteq> ?b \<Longrightarrow> stored (s', moved ts me pc) d = stored (s, ts) d" by blast+
qed

section \<open>Every step is atomic\<close>

lemma advance_acts:
  assumes inv: "config_inv org (s, ts) t bs" and empty_value: "\<And>b k. org b k []" and q: "queue (ts u) = r # rs"
  obtains s' ts' where "advance u (s, ts) = Return (s', ts')"
    and "acts r (point (ts u)) (point (ts' u)) (stored (s, ts) (slot t r)) (stored (s', ts') (slot t r))"
    and "\<And>d. d < length (ht_items t) \<Longrightarrow> d \<noteq> slot t r \<Longrightarrow> stored (s', ts') d = stored (s, ts) d"
proof -
  from advance_config [OF inv empty_value, of u] obtain s' ts' t' bs' where
    c': "advance u (s, ts) = Return (s', ts')" "config_inv org (s', ts') t' bs'"
    and k: "\<forall>b < length (ht_items t). keeps (set_option (writes_item (point (ts u)))) (set (bs b)) s (set (bs' b)) s'"
    by metis
  have b: "slot t r < length (ht_items t)" using slot_less [OF config_table(2) [OF inv]] .
  show thesis
  proof (cases "answered (point (ts u))")
    case True
    then obtain resp where a: "point (ts u) = Answered resp" by (cases "point (ts u)") simp_all
    let ?ts = "ts(u := \<lparr>queue = rs, point = Start, answers = answers (ts u) @ [(r, resp)]\<rparr>)"
    have "advance u (s, ts) = Return (s, ?ts)" by (rule advance_answer [where ts = ts and t = u, OF q a])
    with c' have eq: "s' = s" "ts' = ?ts" by simp_all
    have W: "writers ?ts a = writers ts a" for a using a by (auto simp: writers_def)
    have "queue (?ts v) = queue (ts v)" if "v \<in> writers ts a" for v a
      using that a by (auto simp: writers_def)
    with W same_memory_stored [OF inv c'(2) [unfolded eq]] eq
    have "stored (s', ts') d = stored (s, ts) d" if "d < length (ht_items t)" for d using that by blast
    with that c'(1) b a eq show thesis by (simp add: acts_same)
  next
    case False
    then have "\<forall>resp. point (ts u) \<noteq> Answered resp" by auto
    with c'(1) advance_work [where ts = ts and t = u, OF q] obtain pc where
      m: "micro u r (point (ts u)) s = Return (pc, s')" and ts': "ts' = moved ts u pc"
      by (auto simp: obind_eq_Return moved_def)
    note act = step_acts [OF inv c'(2) [unfolded ts'] m q k]
    have "point (ts' u) = pc" using ts' by (simp add: moved_def)
    with that c'(1) act(1) [OF b] act(2) ts' show thesis by simp
  qed
qed

text \<open>
  C10: SETs and GETs that fit their buffers act atomically, whatever the schedule. The contents of the table are at first what
  the abstract table says, and from then on a step of a request \<open>r\<close> does one of these: a SET adds an item
  with the empty value to its bucket, in which no key matches at that moment; a SET that gets the lock of an item puts
  its value into that item, whose key matches; a GET copies a value that is in the bucket at that moment
  under a matching key; every other step leaves the contents as they are. No step changes another bucket.
\<close>

theorem concurrent_steps_are_atomic:
  assumes "represents s cap tab" and "sets_and_gets rs"
    and "interleave schedule (s, \<lambda>u. idle (rs u)) = Return c" and "queue (snd c u) = r # q"
  shows "(\<forall>d < unat cap. stored (s, \<lambda>u. idle (rs u)) d = tab d) \<and>
    (\<exists>c'. advance u c = Return c' \<and>
      acts r (point (snd c u)) (point (snd c' u))
        (stored c (bucket_of cap (req_string r))) (stored c' (bucket_of cap (req_string r))) \<and>
      (\<forall>d < unat cap. d \<noteq> bucket_of cap (req_string r) \<longrightarrow> stored c' d = stored c d))"
proof -
  obtain s1 ts where c: "c = (s1, ts)" by (cases c)
  from concurrent_requests_safe_run [OF assms(1,2)] assms(3) c obtain t bs where
    inv: "config_inv (origin cap tab rs) (s1, ts) t bs" "ht_capacity t = cap" by (metis outcome.inject(1))
  have len: "length (ht_items t) = unat cap"
    using config_table(2) [OF inv(1)] inv(2) by (auto simp: table_ok_def shape_ok_def)
  have "queue (ts u) = r # q" using assms(4) c by simp
  from advance_acts [OF inv(1) origin_empty this] obtain s' ts' where
    "advance u (s1, ts) = Return (s', ts')"
    "acts r (point (ts u)) (point (ts' u)) (stored (s1, ts) (slot t r)) (stored (s', ts') (slot t r))"
    "\<And>d. d < length (ht_items t) \<Longrightarrow> d \<noteq> slot t r \<Longrightarrow> stored (s', ts') d = stored (s1, ts) d" by blast
  then have "\<exists>c'. advance u c = Return c' \<and>
      acts r (point (snd c u)) (point (snd c' u))
        (stored c (bucket_of cap (req_string r))) (stored c' (bucket_of cap (req_string r))) \<and>
      (\<forall>d < unat cap. d \<noteq> bucket_of cap (req_string r) \<longrightarrow> stored c' d = stored c d)"
    using c inv(2) len by auto
  with stored_start [OF assms(1,2)] show ?thesis by blast
qed

theorem concurrent_steps_are_atomic_witness:
  "\<exists>n c c'. interleave (replicate n 0) (sample Lock_free, \<lambda>u. idle (two_clients u)) = Return c \<and>
    advance 0 c = Return c' \<and> stored c 0 = [(bytes ''a'', bytes ''v'')] \<and> stored c' 0 = [(bytes ''a'', bytes ''w'')]"
proof -
  let ?s = "sample Lock_free" and ?ts = "\<lambda>u. idle (two_clients u)"
  let ?r = "plain_request SET (bytes ''a'') (bytes ''w'')"
  have b: "bucket_of 1 k = 0" for k using bucket_of_less [of 1 k] by simp
  from sample_represents obtain t bs where op: "opened ?s t bs 1 (\<lambda>_. [(bytes ''a'', bytes ''v'')])"
    by (auto simp: represents_opened)
  then have "entries ?s bs 0 = [(bytes ''a'', bytes ''v'')]" by (auto simp: opened_def)
  then obtain x where x: "bs 0 = [x]" "key_of ?s x = bytes ''a''" by (auto simp: entries_def)
  then have "find (matches ?s (req_prefix ?r) (req_string ?r)) (bs (bucket_of 1 (req_string ?r))) = Some x"
    by (simp add: b matches_def bytes_def KEY_SIZE_def)
  from request_reaches_item [OF op race_fits(2) _ this, of 0]
  have "\<exists>k. alone 0 ?r k (Start, ?s) = Return (Locking x, ?s)" by simp
  from alone_in [where ts = ?ts and rs = "[]", OF this] obtain n where
    n: "interleave (replicate n 0) (?s, ?ts) = Return (?s, moved ?ts 0 (Locking x))"
    by (auto simp: idle_def two_clients_def)
  let ?c = "(?s, moved ?ts 0 (Locking x))"
  have q: "queue (snd ?c 0) = ?r # []" by (simp add: moved_def idle_def two_clients_def)
  from concurrent_steps_are_atomic [OF sample_represents two_clients_ok n q] obtain c' where
    c': "advance 0 ?c = Return c'" "acts ?r (Locking x) (point (snd c' 0)) (stored ?c 0) (stored c' 0)"
    by (auto simp: b moved_def)
  from opened_lock [OF op, of x] x(1) b obtain it where "cells ?s x = Some it" "item_rwlock it = Lock_free" by auto
  then have "micro 0 ?r (Locking x) ?s = Return (Allocating x, ?s\<lparr>cells := (cells ?s)(x \<mapsto> it\<lparr>item_rwlock := Write_held 0\<rparr>)\<rparr>)"
    by (simp add: micro_def cmd_run)
  with c'(1) q have p: "point (snd c' 0) = Allocating x"
    using advance_work [where ts = "snd ?c" and t = 0 and r = ?r and rs = "[]" and s = ?s]
    by (auto simp: moved_def)
  from config_start [OF sample_represents two_clients_ok] obtain t0 bs0 where
    inv0: "config_inv (origin 1 (\<lambda>_. [(bytes ''a'', bytes ''v'')]) two_clients) (?s, ?ts) t0 bs0" by blast
  from concurrent_requests_safe_run [OF sample_represents two_clients_ok, of "replicate n 0"] n obtain t1 bs1 where
    inv1: "config_inv (origin 1 (\<lambda>_. [(bytes ''a'', bytes ''v'')]) two_clients) ?c t1 bs1" by auto
  have "0 < length (ht_items t0)" using slot_less [OF config_table(2) [OF inv0]] by fastforce
  moreover have "writers (moved ?ts 0 (Locking x)) a = writers ?ts a" for a
    using holders_elsewhere(1) [of a ?ts 0 "Locking x"] by (simp add: idle_def)
  moreover have "queue (moved ?ts 0 (Locking x) u) = queue (?ts u)" for u by (simp add: moved_def)
  ultimately have "stored ?c 0 = stored (?s, ?ts) 0" using same_memory_stored [OF inv0 inv1] by blast
  then have "stored ?c 0 = [(bytes ''a'', bytes ''v'')]"
    using stored_start [OF sample_represents two_clients_ok, of 0] by simp
  moreover have "req_value ?r = bytes ''w''" by (rule plain_request_simps(4)) (simp add: bytes_def MSG_SIZE_def)
  with c'(2) p calculation have "stored c' 0 = [(bytes ''a'', bytes ''w'')]"
    by (auto simp: acts_def Cons_eq_append_conv)
  ultimately show ?thesis using n c'(1) by blast
qed

section \<open>A GET that finds nothing\<close>

text \<open>
  \<open>scan s r N pc\<close>: a GET that began when its bucket was \<open>N\<close> has not met a matching key in it, except
  perhaps among the items it is still to visit. \<open>looking\<close> says so of a thread until it has answered.
\<close>

definition scan :: "memory \<Rightarrow> request \<Rightarrow> addr set \<Rightarrow> pc \<Rightarrow> bool" where
  "scan s r N pc =
     (case pc of
        Walking p \<Rightarrow> \<exists>as. path s p as \<and> set as \<subseteq> N \<and> (\<forall>a \<in> N - set as. \<not> key_matches r (key_of s a))
      | Reading a \<Rightarrow> True
      | Copying a \<Rightarrow> True
      | Releasing a resp \<Rightarrow> True
      | Answered resp \<Rightarrow> True
      | _ \<Rightarrow> False)"

lemma scan_keeps:
  assumes k: "keeps X M s M' s'" and N: "N \<subseteq> M" and "scan s r N pc"
  shows "scan s' r N pc"
proof (cases pc)
  case (Walking p)
  with assms(3) obtain as where as: "path s p as" "set as \<subseteq> N" "\<forall>a \<in> N - set as. \<not> key_matches r (key_of s a)"
    by (auto simp: scan_def)
  have "path s' p as" using path_keeps [OF k as(1)] as(2) N by blast
  moreover have "\<forall>a \<in> N. key_of s' a = key_of s a" using k N by (auto simp: keeps_def)
  ultimately show ?thesis using as(2,3) Walking by (auto simp: scan_def)
qed (use assms(3) in \<open>simp_all add: scan_def\<close>)

lemma scan_step:
  assumes ok: "table_ok s t bs" and N: "N \<subseteq> set (bs (slot t r))" and fits: "request_fits r"
    and sc: "scan s r N pc" and m: "micro me r pc s = Return (pc', s')"
  shows "scan s' r N pc'"
proof (cases pc)
  case (Walking p)
  with sc obtain as where as: "path s p as" "set as \<subseteq> N" "\<forall>a \<in> N - set as. \<not> key_matches r (key_of s a)"
    by (auto simp: scan_def)
  show ?thesis
  proof (cases p)
    case None
    with m Walking show ?thesis by (auto simp: micro_def cret_def scan_def)
  next
    case (Some a)
    with as obtain as' where a: "as = a # as'" "a \<in> N" "path s (next_of s a) as'" by (cases as) auto
    have "a \<in> nodes (length (ht_items t)) bs"
      using nodes_bucket [where bs = bs, OF slot_less [OF ok]] a(2) N by blast
    from visit_node [OF ok this fits] m Walking Some
    have "pc' = (if key_matches r (key_of s a) then Reading a else Walking (next_of s a))" "s' = s"
      by (auto simp: micro_def cmd_run)
    then show ?thesis using a as(2,3) by (auto simp: scan_def)
  qed
qed (use sc m in \<open>auto simp: scan_def micro_def cbind_eq_Return cseq_eq_Return cret_def\<close>)

definition looking :: "config \<Rightarrow> tid \<Rightarrow> request \<Rightarrow> request list \<Rightarrow> addr set \<Rightarrow> bool" where
  "looking c u r q N \<longleftrightarrow>
     (if queue (snd c u) = r # q then scan (fst c) r N (point (snd c u)) else length (queue (snd c u)) \<le> length q)"

lemma looking_shorter: "length (queue (snd c u)) \<le> length q \<Longrightarrow> looking c u r q N"
  by (auto simp: looking_def)

lemma advance_looking:
  assumes inv: "config_inv org (s, ts) t bs" and empty_value: "\<And>b k. org b k []" and fits: "request_fits r"
    and N: "N \<subseteq> set (bs (slot t r))" and l: "looking (s, ts) u r q N"
  shows "\<exists>s' ts' t' bs'. advance v (s, ts) = Return (s', ts') \<and> config_inv org (s', ts') t' bs' \<and>
    ht_capacity t' = ht_capacity t \<and> N \<subseteq> set (bs' (slot t r)) \<and> looking (s', ts') u r q N \<and>
    (\<forall>a \<in> N. key_of s' a = key_of s a)"
proof -
  note t = config_table(2) [OF inv, unfolded fst_conv]
  from advance_config [OF inv empty_value, of v] obtain s' ts' t' bs' where
    c': "advance v (s, ts) = Return (s', ts')" "config_inv org (s', ts') t' bs'" "ht_capacity t' = ht_capacity t"
    and other: "\<forall>u. u \<noteq> v \<longrightarrow> ts' u = ts u"
    and k: "\<forall>b < length (ht_items t). keeps (set_option (writes_item (point (ts v)))) (set (bs b)) s (set (bs' b)) s'"
    by metis
  have kr: "keeps (set_option (writes_item (point (ts v)))) (set (bs (slot t r))) s (set (bs' (slot t r))) s'"
    using k slot_less [OF t] by blast
  have "N \<subseteq> set (bs' (slot t r))" "\<forall>a \<in> N. key_of s' a = key_of s a" using kr N by (auto simp: keeps_def)
  moreover have "looking (s', ts') u r q N"
  proof (cases "v = u \<and> queue (ts u) \<noteq> []")
    case False
    then have "ts' u = ts u" using other c'(1) advance_idle [of ts u s] by (cases "v = u") auto
    with l scan_keeps [OF kr N, of r "point (ts u)"] show ?thesis by (auto simp: looking_def)
  next
    case True
    then obtain x xs where q: "queue (ts u) = x # xs" by (cases "queue (ts u)") auto
    show ?thesis
    proof (cases "answered (point (ts u))")
      case True
      then obtain resp where "point (ts u) = Answered resp" by (cases "point (ts u)") simp_all
      from advance_answer [where ts = ts and t = u, OF q this, of s] c'(1) \<open>v = u \<and> queue (ts u) \<noteq> []\<close>
      have "queue (ts' u) = xs" by auto
      moreover have "length xs \<le> length q" using l q by (auto simp: looking_def split: if_splits)
      ultimately show ?thesis by (intro looking_shorter) simp
    next
      case False
      then have "\<forall>resp. point (ts u) \<noteq> Answered resp" by auto
      from advance_work [where ts = ts and t = u, OF q this] c'(1) True obtain pc where
        m: "micro u x (point (ts u)) s = Return (pc, s')" "queue (ts' u) = queue (ts u)" "point (ts' u) = pc"
        by (auto simp: obind_eq_Return)
      show ?thesis
      proof (cases "queue (ts u) = r # q")
        case True
        with l q m scan_step [OF t N fits, of "point (ts u)" u pc s'] show ?thesis by (simp add: looking_def)
      next
        case False
        with l m(2) show ?thesis by (intro looking_shorter) (simp add: looking_def)
      qed
    qed
  qed
  ultimately show ?thesis using c' by blast
qed

lemma interleave_looking:
  assumes empty_value: "\<And>b k. org b k []" and fits: "request_fits r"
    and "config_inv org c t bs" "N \<subseteq> set (bs (slot t r))" "looking c u r q N"
    and "interleave us c = Return c'"
  shows "looking c' u r q N \<and> (\<forall>a \<in> N. key_of (fst c') a = key_of (fst c) a)"
  using assms(3-)
proof (induction us arbitrary: c t bs)
  case (Cons v us)
  obtain s ts where c: "c = (s, ts)" by (cases c)
  from advance_looking [OF Cons.prems(1) [unfolded c] empty_value fits Cons.prems(2,3) [unfolded c], of v]
  obtain s' ts' t' bs' where a: "advance v (s, ts) = Return (s', ts')" "config_inv org (s', ts') t' bs'"
    "N \<subseteq> set (bs' (slot t' r))" "looking (s', ts') u r q N" "\<forall>a \<in> N. key_of s' a = key_of s a" by metis
  from Cons.IH [OF a(2-4)] Cons.prems(4) a(1,5) c show ?case by simp
qed simp

lemma walked_past_bucket:
  assumes "represents s cap tab" and "sets_and_gets rs"
    and "interleave before (s, \<lambda>u. idle (rs u)) = Return c"
    and "queue (snd c u) = r # q" and "point (snd c u) = Start" and "req_method r = GET"
    and "interleave (u # after) c = Return c'"
    and "queue (snd c' u) = r # q" and "point (snd c' u) = Walking None"
  shows "\<not> list_ex (\<lambda>kv. key_matches r (fst kv)) (stored c (bucket_of cap (req_string r)))"
proof -
  obtain s1 ts where c: "c = (s1, ts)" by (cases c)
  from concurrent_requests_safe_run [OF assms(1,2)] assms(3) c obtain t bs where
    inv: "config_inv (origin cap tab rs) (s1, ts) t bs" "ht_capacity t = cap" by (metis outcome.inject(1))
  note t = config_table [OF inv(1), unfolded fst_conv snd_conv]
  have b: "slot t r < length (ht_items t)" using slot_less [OF t(2)] .
  have "sound (origin cap tab rs (slot t r)) r"
    using config_thread(1) [OF inv(1), of u r q] assms(4) c by simp
  then have r: "request_fits r" "req_method r = GET" using assms(6) by (simp_all add: sound_def)
  note run = start_get_run [OF t(3) r]
  let ?N = "set (bs (slot t r))" and ?ts = "moved ts u (Walking (ht_items t ! slot t r))"
  have adv: "advance u c = Return (s1, ?ts)"
    using advance_work [where ts = ts and t = u, of r q s1] run(1) c assms(4,5) by (simp add: moved_def)
  from advance_config [OF inv(1) origin_empty, of u] adv c obtain t' bs' where
    inv': "config_inv (origin cap tab rs) (s1, ?ts) t' bs'" by auto
  have t': "t' = t" using t(1) config_table(1) [OF inv'] by simp
  then have eq: "t' = t" "bs' (slot t r) = bs (slot t r)" using buckets_kept [OF inv(1) inv' _ b keeps_refl] by simp_all
  have "looking (s1, ?ts) u r q ?N" using run(2) assms(4) c by (auto simp: looking_def moved_def scan_def)
  from interleave_looking [OF origin_empty r(1) inv' _ this] eq assms(7) adv
  have "looking c' u r q ?N" "\<forall>a \<in> ?N. key_of (fst c') a = key_of s1 a" by auto
  moreover have "as = []" if "path (fst c') None as" for as using that by (cases as) simp_all
  ultimately have "\<forall>a \<in> ?N. \<not> key_matches r (key_of s1 a)"
    using assms(8,9) by (fastforce simp: looking_def scan_def)
  then show ?thesis using stored_items [OF inv(1) b] inv(2) c by (auto simp: list_ex_iff)
qed

text \<open>
  C11: among threads that send SETs and GETs only, which fit their buffers, when a GET reaches the end of its bucket and is about to answer \<open>KEY_ERROR\<close>, no key it matches was
  in the bucket at its first step, whatever the other threads inserted and wrote in between.
\<close>

theorem missed_key_was_absent:
  assumes "represents s cap tab" and "sets_and_gets rs"
    and "interleave before (s, \<lambda>u. idle (rs u)) = Return c"
    and "queue (snd c u) = r # q" and "point (snd c u) = Start" and "req_method r = GET"
    and "interleave (u # after) c = Return c'"
    and "queue (snd c' u) = r # q" and "point (snd c' u) = Walking None"
  shows "\<not> list_ex (\<lambda>kv. key_matches r (fst kv)) (stored c (bucket_of cap (req_string r)))"
  by (rule walked_past_bucket [OF assms])

lemma first_look:
  assumes "represents s cap tab" and "sets_and_gets rs" and "rs u = r # q" and "req_method r = GET"
    and "tab (bucket_of cap (req_string r)) = []"
  shows "advance u (s, \<lambda>u. idle (rs u)) = Return (s, moved (\<lambda>u. idle (rs u)) u (Walking None))"
proof -
  let ?c = "(s, \<lambda>u. idle (rs u))"
  from config_start [OF assms(1,2)] obtain t bs where
    inv: "config_inv (origin cap tab rs) ?c t bs" "ht_capacity t = cap" by blast
  note t = config_table [OF inv(1), unfolded fst_conv snd_conv]
  have b: "slot t r < length (ht_items t)" using slot_less [OF t(2)] .
  moreover have "length (ht_items t) = unat cap" using t(2) inv(2) by (auto simp: table_ok_def shape_ok_def)
  ultimately have "bs (slot t r) = []"
    using stored_start [OF assms(1,2), of "slot t r"] stored_items [OF inv(1) b] assms(5) inv(2) by simp
  moreover have "r \<in> set (rs u)" using assms(3) by simp
  then have "request_fits r" using assms(2) unfolding sets_and_gets_def by blast
  note run = start_get_run [OF t(3) this assms(4)]
  ultimately have "micro u r Start s = Return (Walking None, s)" using run by simp
  with assms(3) show ?thesis
    using advance_work [where ts = "\<lambda>u. idle (rs u)" and t = u and r = r and rs = q and s = s]
    by (simp add: idle_def moved_def)
qed

theorem missed_key_was_absent_witness:
  "\<not> list_ex (\<lambda>kv. key_matches (plain_request GET (bytes ''a'') []) (fst kv))
     (stored (start_memory, \<lambda>u. idle (race_with SET u)) (bucket_of table_size (bytes ''a'')))"
proof -
  let ?r = "plain_request GET (bytes ''a'') []" and ?ts = "\<lambda>u. idle (race_with SET u)"
  have rs: "race_with SET 0 = [?r]" by (simp add: race_with_def)
  have ok: "sets_and_gets (race_with SET)"
    using race_fits by (auto simp: sets_and_gets_def race_with_def split: if_splits)
  have look: "advance 0 (start_memory, ?ts) = Return (start_memory, moved ?ts 0 (Walking None))"
    by (rule first_look [OF start_represents ok rs]) simp_all
  from concurrent_requests_safe_run [OF start_represents ok, of "[0]"] look obtain t bs where
    "config_inv (origin table_size (\<lambda>_. []) (race_with SET)) (start_memory, moved ?ts 0 (Walking None)) t bs" by auto
  from advance_config [OF this origin_empty, of 1] obtain s' ts' where
    c': "advance 1 (start_memory, moved ?ts 0 (Walking None)) = Return (s', ts')"
      "ts' 0 = moved ?ts 0 (Walking None) 0" by (metis zero_neq_one)
  have "interleave [0, 1] (start_memory, ?ts) = Return (s', ts')" using look c'(1) by simp
  from missed_key_was_absent [OF start_represents ok interleave_simps(1) _ _ _ this, of ?r "[]"] c'(2) rs
  show ?thesis by (simp add: idle_def moved_def race_key)
qed

end
