(* ===== verification/KV_Concurrent_Answers.thy ===== *)
theory KV_Concurrent_Answers
  imports KV_Concurrent_Atomic
begin

text \<open>
  What concurrent SETs and GETs are answered. An \<open>OK\<close> carries one whole value of a matching key; and every
  \<open>KEY_ERROR\<close> has a reason in the run: the request met an item of its key whose lock another thread held,
  or it is a GET whose bucket held no such key when it began.
\<close>

section \<open>The reasons for a refusal\<close>

text \<open>
  Thread \<open>u\<close> is about to try the lock of an item its request matches, and thread \<open>v\<close> has that lock: as
  a writer of the item when \<open>u\<close> reads, as a writer or a reader when \<open>u\<close> writes.
\<close>

definition locked_out :: "config \<Rightarrow> tid \<Rightarrow> request \<Rightarrow> bool" where
  "locked_out c u r \<longleftrightarrow>
     (\<exists>a v. v \<noteq> u \<and> key_matches r (key_of (fst c) a) \<and>
        (point (snd c u) = Reading a \<and> writes_item (point (snd c v)) = Some a \<or>
         point (snd c u) = Locking a \<and> a \<in> touches (point (snd c v))))"

text \<open>Thread \<open>u\<close> is about to begin a GET, and the contents of its bucket have no key it matches.\<close>

definition nothing_there :: "u32 \<Rightarrow> config \<Rightarrow> tid \<Rightarrow> request \<Rightarrow> bool" where
  "nothing_there cap c u r \<longleftrightarrow>
     req_method r = GET \<and> point (snd c u) = Start \<and>
     \<not> list_ex (\<lambda>kv. key_matches r (fst kv)) (stored c (bucket_of cap (req_string r)))"

definition refused :: "u32 \<Rightarrow> config \<Rightarrow> tid \<Rightarrow> request \<Rightarrow> bool" where
  "refused cap c u r \<longleftrightarrow> locked_out c u r \<or> nothing_there cap c u r"

text \<open>
  The schedule \<open>us\<close> has a moment at which thread \<open>u\<close> makes a step, having \<open>q\<close> left to answer, from a
  configuration with property \<open>P\<close>.
\<close>

definition moment :: "config \<Rightarrow> tid list \<Rightarrow> tid \<Rightarrow> request list \<Rightarrow> (config \<Rightarrow> bool) \<Rightarrow> bool" where
  "moment start us u q P \<longleftrightarrow>
     (\<exists>before after c. us = before @ u # after \<and> interleave before start = Return c \<and>
        queue (snd c u) = q \<and> P c)"

lemma moment_later: "moment start us u q P \<Longrightarrow> moment start (us @ vs) u q P"
  unfolding moment_def by (metis append_assoc append_Cons)

lemma moment_now:
  "interleave us start = Return c \<Longrightarrow> queue (snd c u) = q \<Longrightarrow> P c \<Longrightarrow> moment start (us @ [u]) u q P"
  unfolding moment_def by blast

section \<open>Which steps refuse\<close>

lemma try_results:
  "rwlock_trywrlock me a s = Return (x, s') \<Longrightarrow> x = fst (rw_trywrlock me (lock_of s a))"
  "rwlock_tryrdlock me a s = Return (y, s'') \<Longrightarrow> y = fst (rw_tryrdlock me (lock_of s a))"
  by (auto simp: rwlock_trywrlock_def rwlock_tryrdlock_def item_def lock_of_def cbind_eq_Return cseq_eq_Return
      cret_def Let_def case_prod_beta deref_def split: option.splits)

text \<open>A response with \<open>OK\<close>, and the points at which a step can end in a refusal.\<close>

lemma ok_is_no_refusal: "resp_code resp = OK \<Longrightarrow> resp \<noteq> key_error" "got_response v zero_response \<noteq> key_error"
  "zero_response\<lparr>resp_code := OK\<rparr> \<noteq> key_error"
  by (auto simp: got_response_def dest: arg_cong [of _ _ resp_code])

definition ok_held :: "pc \<Rightarrow> bool" where
  "ok_held pc \<longleftrightarrow> (case pc of Releasing a resp \<Rightarrow> resp_code resp = OK | _ \<Rightarrow> True)"

lemma micro_ok_held:
  assumes "micro me r pc s = Return (pc', s')" and "point_ok org s N r pc" and "req_method r \<in> {SET, GET}"
  shows "ok_held pc'"
proof (cases pc)
  case (Leaving b p)
  with assms show ?thesis by (auto simp: micro_def cseq_eq_Return cret_def point_ok_def ok_held_def)
next
  case (Seeking b h p)
  with assms show ?thesis
    by (cases p) (auto simp: micro_def cbind_eq_Return cret_def sought_def ok_held_def split: if_splits prod.splits)
next
  case (Walking p)
  with assms show ?thesis
    by (cases p) (auto simp: micro_def cbind_eq_Return cret_def ok_held_def split: if_splits prod.splits)
next
  case (Entering b)
  with assms show ?thesis
    by (auto simp: micro_def await_def cseq_eq_Return cret_def ok_held_def split: outcome.splits)
qed (use assms in \<open>auto simp: micro_def cbind_eq_Return cseq_eq_Return cret_def point_ok_def ok_held_def\<close>)

lemma micro_refusal:
  assumes m: "micro me r pc s = Return (Answered key_error, s')" and ok: "point_ok org s N r pc"
    and r: "req_method r \<in> {SET, GET}" and held: "ok_held pc" and "\<not> answered pc"
  shows "pc = Walking None \<or> (\<exists>a. pc = Reading a \<and> fst (rw_tryrdlock me (lock_of s a)) \<noteq> 0) \<or>
    (\<exists>a. pc = Locking a \<and> fst (rw_trywrlock me (lock_of s a)) \<noteq> 0)"
proof (cases pc)
  case (Leaving b p)
  with assms show ?thesis by (auto simp: micro_def cseq_eq_Return cret_def point_ok_def)
next
  case (Seeking b h p)
  with assms show ?thesis
    by (cases p) (auto simp: micro_def cbind_eq_Return cret_def sought_def point_ok_def split: if_splits prod.splits)
next
  case (Walking p)
  with assms show ?thesis
    by (cases p) (auto simp: micro_def cbind_eq_Return cret_def split: if_splits prod.splits)
next
  case (Entering b)
  with assms show ?thesis
    by (auto simp: micro_def await_def cseq_eq_Return cret_def split: outcome.splits)
next
  case (Reading a)
  with m show ?thesis
    by (auto simp: micro_def cbind_eq_Return cret_def split: if_splits dest: try_results)
next
  case (Locking a)
  with m show ?thesis
    by (auto simp: micro_def cbind_eq_Return cret_def split: if_splits dest: try_results)
next
  case (Releasing a resp)
  with m held ok_is_no_refusal show ?thesis
    by (auto simp: micro_def cseq_eq_Return cret_def ok_held_def)
next
  case (Unlocking a)
  with m ok_is_no_refusal show ?thesis by (auto simp: micro_def cseq_eq_Return cret_def)
qed (use assms in \<open>auto simp: micro_def cbind_eq_Return cseq_eq_Return cret_def point_ok_def\<close>)

lemma busy_locked_out:
  assumes inv: "config_inv org c t bs" and q: "queue (snd c u) = r # q"
  shows "point (snd c u) = Reading a \<Longrightarrow> fst (rw_tryrdlock u (lock_of (fst c) a)) \<noteq> 0 \<Longrightarrow> locked_out c u r"
    and "point (snd c u) = Locking a \<Longrightarrow> fst (rw_trywrlock u (lock_of (fst c) a)) \<noteq> 0 \<Longrightarrow> locked_out c u r"
proof -
  have agrees: "rw_agrees (lock_of (fst c) a) (writers (snd c) a) (readers (snd c) a) \<and> key_matches r (key_of (fst c) a)"
    if "point (snd c u) = Reading a \<or> point (snd c u) = Locking a"
  proof -
    have "target (fst c) (set (bs (slot t r))) r a"
      using config_thread(2) [OF inv q] that by (auto simp: point_ok_def)
    then show ?thesis
      using config_table(3) [OF inv] slot_less [OF config_table(2) [OF inv], of r]
      by (auto simp: shared_def target_def)
  qed
  show "locked_out c u r" if p: "point (snd c u) = Reading a" "fst (rw_tryrdlock u (lock_of (fst c) a)) \<noteq> 0"
  proof -
    obtain v where "lock_of (fst c) a = Write_held v"
      using p(2) by (cases "lock_of (fst c) a") simp_all
    then have "v \<in> writers (snd c) a" using agrees p(1) by simp
    then have "writes_item (point (snd c v)) = Some a" "v \<noteq> u"
      using p(1) by (auto simp: in_holders writes_item_def)
    with agrees p(1) show ?thesis unfolding locked_out_def by blast
  qed
  show "locked_out c u r" if p: "point (snd c u) = Locking a" "fst (rw_trywrlock u (lock_of (fst c) a)) \<noteq> 0"
  proof -
    have "lock_of (fst c) a \<noteq> Lock_free" using p(2) by auto
    then have "writers (snd c) a \<noteq> {} \<or> readers (snd c) a \<noteq> {}"
      using agrees p(1) by (cases "lock_of (fst c) a") auto
    then obtain v where "v \<in> writers (snd c) a \<or> v \<in> readers (snd c) a" by blast
    then have "a \<in> touches (point (snd c v))" "v \<noteq> u"
      using p(1) by (auto simp: in_holders touches_def writes_item_def reads_item_def)
    with agrees p(1) show ?thesis unfolding locked_out_def by blast
  qed
qed

section \<open>Every refusal is explained\<close>

definition explained ::
  "u32 \<Rightarrow> (tid \<Rightarrow> request list) \<Rightarrow> config \<Rightarrow> tid list \<Rightarrow> config \<Rightarrow> tid \<Rightarrow> bool" where
  "explained cap rs start us c u \<longleftrightarrow>
     (\<forall>i < length (answers (snd c u)). snd (answers (snd c u) ! i) = key_error \<longrightarrow>
        moment start us u (drop i (rs u)) (\<lambda>c0. refused cap c0 u (rs u ! i))) \<and>
     (\<forall>r q. queue (snd c u) = r # q \<longrightarrow>
        (point (snd c u) = Answered key_error \<longrightarrow> moment start us u (r # q) (\<lambda>c0. refused cap c0 u r)) \<and>
        (req_method r = GET \<and> point (snd c u) \<noteq> Start \<longrightarrow>
           moment start us u (r # q) (\<lambda>c0. point (snd c0 u) = Start))) \<and>
     ok_held (point (snd c u))"

lemma explained_later:
  "explained cap rs start us c u \<Longrightarrow> snd c' u = snd c u \<Longrightarrow> explained cap rs start (us @ vs) c' u"
  unfolding explained_def using moment_later [of start us u _ _ vs] by simp

lemma explained_step:
  assumes rep: "represents s cap tab" and ok: "sets_and_gets rs" and ex: "explained cap rs (s, \<lambda>u. idle (rs u)) us c u"
    and run: "interleave us (s, \<lambda>u. idle (rs u)) = Return c" and adv: "advance v c = Return c'"
  shows "explained cap rs (s, \<lambda>u. idle (rs u)) (us @ [v]) c' u"
proof -
  let ?start = "(s, \<lambda>u. idle (rs u))"
  obtain m ts where c: "c = (m, ts)" by (cases c)
  from concurrent_requests_safe_run [OF rep ok] run c obtain t bs where
    inv: "config_inv (origin cap tab rs) (m, ts) t bs" "ht_capacity t = cap" by (metis outcome.inject(1))
  have others: "snd c' w = snd c w" if "w \<noteq> v" for w
    using advance_config [OF inv(1) origin_empty, of v] adv c that by auto
  show ?thesis
  proof (cases "u = v \<and> queue (ts v) \<noteq> []")
    case False
    then have "snd c' u = snd c u" using others adv c advance_idle [of ts v m] by (cases "u = v") auto
    with explained_later [OF ex] show ?thesis by blast
  next
    case True
    then obtain r q where q: "queue (ts v) = r # q" and uv: "u = v" by (cases "queue (ts v)") auto
    have hist: "map fst (answers (ts v)) @ r # q = rs v"
      using interleave_history [OF run, of v] q c by (simp add: idle_def)
    show ?thesis
    proof (cases "answered (point (ts v))")
      case True
      then obtain resp where p: "point (ts v) = Answered resp" by (cases "point (ts v)") simp_all
      have c': "snd c' v = \<lparr>queue = q, point = Start, answers = answers (ts v) @ [(r, resp)]\<rparr>"
        using advance_answer [where ts = ts and t = v, OF q p, of m] adv c by auto
      let ?n = "length (answers (ts v))"
      have last: "drop ?n (rs v) = r # q" "rs v ! ?n = r"
        by (simp_all add: nth_append flip: hist)
      have later: "explained cap rs ?start (us @ [v]) c v" using explained_later [OF ex refl] uv by simp
      show ?thesis
        unfolding explained_def uv
      proof (intro conjI allI impI)
        fix i assume i: "i < length (answers (snd c' v))" "snd (answers (snd c' v) ! i) = key_error"
        show "moment ?start (us @ [v]) v (drop i (rs v)) (\<lambda>c0. refused cap c0 v (rs v ! i))"
        proof (cases "i = ?n")
          case True
          then have "point (ts v) = Answered key_error" using i(2) c' p by simp
          with later q c last True show ?thesis by (simp add: explained_def)
        next
          case False
          then have "i < ?n" "snd (answers (ts v) ! i) = key_error" using i c' by (simp_all add: nth_append)
          with later c show ?thesis by (simp add: explained_def)
        qed
      qed (simp_all add: c' ok_held_def)
    next
      case False
      then have "\<forall>resp. point (ts v) \<noteq> Answered resp" by auto
      from advance_work [where ts = ts and t = v, OF q this] adv c obtain pc m' where
        w: "micro v r (point (ts v)) m = Return (pc, m')" and c': "c' = (m', ts(v := (ts v)\<lparr>point := pc\<rparr>))"
        by (auto simp: obind_eq_Return)
      have pt: "point_ok (origin cap tab rs (slot t r)) m (set (bs (slot t r))) r (point (ts v))"
        and r: "req_method r \<in> {SET, GET}"
        using config_thread [OF inv(1), of v r q] q by (simp_all add: sound_def)
      have held: "ok_held (point (ts v))" using ex c uv by (simp add: explained_def)
      have later: "explained cap rs ?start (us @ [v]) c v" using explained_later [OF ex refl] uv by simp
      have walk: "moment ?start us v (r # q) (\<lambda>c0. point (snd c0 v) = Start)"
        if "req_method r = GET" "point (ts v) \<noteq> Start"
        using ex c uv q that by (simp add: explained_def)
      have refusal: "moment ?start (us @ [v]) v (r # q) (\<lambda>c0. refused cap c0 v r)" if a: "pc = Answered key_error"
      proof -
        from micro_refusal [OF w [unfolded a] pt r held False]
        consider "point (ts v) = Walking None" | "locked_out c v r"
          using busy_locked_out [OF inv(1), of v r q] q c by auto
        then show ?thesis
        proof cases
          case 1
          then have g: "req_method r = GET" using pt by (simp add: point_ok_def)
          with walk 1 obtain before after c0 where b: "us = before @ v # after" "interleave before ?start = Return c0"
            "queue (snd c0 v) = r # q" "point (snd c0 v) = Start" by (auto simp: moment_def)
          have "interleave (v # after) c0 = Return c"
            using run b(1,2) by (simp only: interleave_append obind.simps)
          from walked_past_bucket [OF rep ok b(2-4) g this] q c 1
          have "refused cap c0 v r" using b(4) g by (simp add: refused_def nothing_there_def)
          with b(1-3) have "moment ?start us v (r # q) (\<lambda>c0. refused cap c0 v r)" unfolding moment_def by blast
          then show ?thesis by (rule moment_later)
        next
          case 2
          then show ?thesis
            using moment_now [OF run, of v "r # q"] q c by (simp add: refused_def)
        qed
      qed
      have begun: "moment ?start (us @ [v]) v (r # q) (\<lambda>c0. point (snd c0 v) = Start)" if "req_method r = GET"
      proof (cases "point (ts v) = Start")
        case True
        with moment_now [OF run, of v "r # q"] q c show ?thesis by simp
      next
        case False
        with walk that show ?thesis by (blast intro: moment_later)
      qed
      have "ok_held pc" by (rule micro_ok_held [OF w pt r])
      with later refusal begun q c show ?thesis
        unfolding uv by (simp add: explained_def c')
    qed
  qed
qed

lemma run_explained:
  assumes "represents s cap tab" and "sets_and_gets rs"
  shows "interleave us (s, \<lambda>u. idle (rs u)) = Return c \<Longrightarrow> explained cap rs (s, \<lambda>u. idle (rs u)) us c u"
proof (induction us arbitrary: c rule: rev_induct)
  case Nil
  then show ?case by (auto simp: explained_def idle_def ok_held_def)
next
  case (snoc v us)
  then obtain c1 where c1: "interleave us (s, \<lambda>u. idle (rs u)) = Return c1" "advance v c1 = Return c"
    by (auto simp: interleave_append obind_eq_Return)
  from explained_step [OF assms snoc.IH [OF c1(1)] c1] show ?case .
qed

text \<open>
  C9: for threads that send SETs and GETs that fit their buffers, whatever the schedule, the \<open>i\<close>-th answer of a thread is to its \<open>i\<close>-th request, and it is right. A SET
  that is answered \<open>OK\<close> is answered just that; a GET that is answered \<open>OK\<close> gets one whole value, namely
  the value of some SET of the same bucket for a key the request matches, a value the bucket held for such
  a key at the start, or the empty value of an item whose first SET has not written it yet. And there is
  no \<open>KEY_ERROR\<close> without a reason: at some moment of the run at which the thread had this request to serve,
  either it was about to try the lock of an item of its key while another thread held that lock, or the
  request is a GET that was about to begin and the bucket held no key it matches.
\<close>

theorem concurrent_answers_whole:
  assumes "represents s cap tab" and "sets_and_gets rs"
    and "interleave schedule (s, \<lambda>u. idle (rs u)) = Return c"
    and "i < length (answers (snd c u))" and "answers (snd c u) ! i = (r, resp)"
  shows "r = rs u ! i \<and>
    (req_method r = SET \<and> resp = zero_response\<lparr>resp_code := OK\<rparr> \<or>
     req_method r = GET \<and> (\<exists>k v. key_matches r k \<and> origin cap tab rs (bucket_of cap (req_string r)) k v \<and>
        resp = got_response v zero_response) \<or>
     resp = key_error \<and> (\<exists>before after c0. schedule = before @ u # after \<and>
        interleave before (s, \<lambda>u. idle (rs u)) = Return c0 \<and> queue (snd c0 u) = drop i (rs u) \<and>
        (locked_out c0 u r \<or> nothing_there cap c0 u r)))"
proof -
  from concurrent_requests_safe_run [OF assms(1,2)] assms(3) obtain t bs where
    "config_inv (origin cap tab rs) c t bs" "ht_capacity t = cap" by (metis outcome.inject(1))
  moreover have "(r, resp) \<in> set (answers (snd c u))" using assms(4,5) by (metis nth_mem)
  ultimately have "answer_ok (origin cap tab rs (bucket_of cap (req_string r))) r resp"
    by (fastforce simp: config_inv_def thread_ok_def)
  moreover have "map fst (answers (snd c u)) @ queue (snd c u) = rs u"
    using interleave_history [OF assms(3), of u] by (simp add: idle_def)
  with assms(4,5) have r: "r = rs u ! i" by (metis fst_conv length_map nth_append nth_map)
  moreover have "moment (s, \<lambda>u. idle (rs u)) schedule u (drop i (rs u)) (\<lambda>c0. refused cap c0 u r)"
    if "resp = key_error"
    using run_explained [OF assms(1-3), of u] assms(4,5) that r by (simp add: explained_def)
  ultimately show ?thesis unfolding answer_ok_def moment_def refused_def by blast
qed

text \<open>The witness: a GET of the empty table, which is refused.\<close>

theorem concurrent_answers_whole_witness:
  "\<exists>c. interleave [0, 0, 0] (start_memory, \<lambda>u. idle (race_with SET u)) = Return c \<and>
     answers (snd c 0) = [(plain_request GET (bytes ''a'') [], key_error)] \<and>
     (\<exists>before after c0. [0, 0, 0] = before @ 0 # after \<and>
        interleave before (start_memory, \<lambda>u. idle (race_with SET u)) = Return c0 \<and>
        queue (snd c0 0) = race_with SET 0 \<and>
        (locked_out c0 0 (plain_request GET (bytes ''a'') []) \<or>
         nothing_there table_size c0 0 (plain_request GET (bytes ''a'') [])))"
proof -
  let ?r = "plain_request GET (bytes ''a'') []" and ?ts = "\<lambda>u. idle (race_with SET u)"
  let ?e = "moved (moved ?ts 0 (Walking None)) 0 (Answered key_error)"
  let ?c = "(start_memory, ?e(0 := \<lparr>queue = [], point = Start, answers = [(?r, key_error)]\<rparr>))"
  have rs: "race_with SET 0 = [?r]" by (simp add: race_with_def)
  have ok: "sets_and_gets (race_with SET)" by (rule race_ok) simp
  have look: "advance 0 (start_memory, ?ts) = Return (start_memory, moved ?ts 0 (Walking None))"
    by (rule first_look [OF start_represents ok rs]) simp_all
  have "advance 0 (start_memory, moved ?ts 0 (Walking None)) = Return (start_memory, ?e)"
    using rs by (simp add: advance_def moved_def idle_def micro_def cret_def)
  moreover have "advance 0 (start_memory, ?e) = Return ?c"
    using rs by (simp add: advance_def moved_def idle_def)
  ultimately have run: "interleave [0, 0, 0] (start_memory, ?ts) = Return ?c" using look by simp
  have "zero_response\<lparr>resp_code := OK\<rparr> \<noteq> key_error" "\<And>v. got_response v zero_response \<noteq> key_error"
    using ok_is_no_refusal by auto
  moreover have "queue (snd c0 0) = drop 0 (race_with SET 0) \<Longrightarrow> queue (snd c0 0) = race_with SET 0" for c0 :: config
    by simp
  ultimately have "\<exists>before after c0. [0, 0, 0] = before @ 0 # after \<and>
      interleave before (start_memory, ?ts) = Return c0 \<and> queue (snd c0 0) = race_with SET 0 \<and>
      (locked_out c0 0 ?r \<or> nothing_there table_size c0 0 ?r)"
    using concurrent_answers_whole [OF start_represents ok run, of 0 0 ?r key_error] rs
    by simp metis
  with run show ?thesis by (intro exI [of _ ?c]) simp
qed

end
