(* ===== verification/Benchmark_Concurrent.thy ===== *)
theory Benchmark_Concurrent
  imports Benchmark_Requests KV_Concurrent_Properties
begin

text \<open>
  The benchmark against the concurrent server: the clients of theory \<open>Benchmark_Requests\<close>, their
  worker threads interleaved step by step as in theory \<open>KV_Concurrent\<close>.
\<close>

lemma empty_store_buckets:
  assumes "stores s Map.empty"
  obtains tab where "represents s table_size tab" "\<And>q. tab (bucket_of table_size q) = []"
proof -
  from assms obtain tab where tab: "represents s table_size tab" "tab_map tab Map.empty"
    by (auto simp: stores_def)
  have "tab (key_bucket q) = []" for q
  proof (rule ccontr)
    assume "tab (key_bucket q) \<noteq> []"
    then obtain k v where kv: "(k, v) \<in> set (tab (key_bucket q))" by (cases "tab (key_bucket q)") auto
    then have "k \<in> fst ` set (tab (key_bucket q))" by force
    moreover from this have "key_bucket k = key_bucket q"
      using tab(2) key_bucket_less [of q] unfolding tab_map_def by blast
    ultimately have "map_of (tab (key_bucket k)) k \<noteq> None" by (simp add: map_of_eq_None_iff)
    with tab(2) show False by (simp add: tab_map_def)
  qed
  with that tab(1) show thesis by (simp add: key_bucket_def)
qed

text \<open>A stored key that a SET and a GET of one bucket both match belongs to both of them.\<close>

lemma benchmark_match:
  assumes set: "made SET nr' c' w" "0 \<le> c'" "c' < 1000" and get: "made GET nr c r" "- 1 \<le> c" "c < 1000"
    and bucket: "bucket_of table_size (req_string w) = bucket_of table_size (req_string r)"
    and k: "key_matches w k" "key_matches r k"
  shows "req_value w = benchmark_message nr c"
proof -
  let ?kw = "benchmark_key nr' c'" and ?kr = "benchmark_key nr c"
  have w: "req_string w = ?kw" "req_prefix w = length ?kw" "req_value w = benchmark_message nr' c'"
    and r: "req_string r = ?kr" "req_prefix r = length ?kr"
    using set(1) get(1) by (auto simp: made_def request_ok_def)
  have tk: "take (length ?kw) k = ?kw" "take (length ?kr) k = ?kr"
    using k w r by (simp_all add: key_matches_def)
  have b: "key_bucket ?kw = key_bucket ?kr" using bucket w r by (simp add: key_bucket_def)
  have "?kw = ?kr"
  proof (cases "length ?kr \<le> length ?kw")
    case True
    have "take (length ?kr) ?kw = take (length ?kr) (take (length ?kw) k)" using tk(1) by simp
    also have "\<dots> = ?kr" using True tk(2) by (simp add: min_absorb1)
    finally show ?thesis using benchmark_keys_apart [of c' nr' nr c] set b by simp
  next
    case False
    have "take (length ?kw) ?kr = take (length ?kw) (take (length ?kr) k)" using tk(2) by simp
    also have "\<dots> = ?kw" using False tk(1) by (simp add: min_absorb1)
    finally show ?thesis using benchmark_keys_apart [of c nr nr' c'] get b by simp
  qed
  from benchmark_key_message [OF this] w(3) show ?thesis by simp
qed

lemma benchmark_sets_and_gets:
  assumes "\<forall>u. \<forall>r \<in> set (rs u). benchmark_request r"
  shows "sets_and_gets rs"
proof -
  have "request_fits r \<and> req_method r \<in> {SET, GET}" if "benchmark_request r" for r
    using that by (auto simp: benchmark_request_def made_def request_ok_def)
  with assms show ?thesis unfolding sets_and_gets_def by blast
qed

text \<open>
  C29: from the start of the server and whatever the schedule of its threads, a GET of the benchmark is
  answered \<open>KEY_ERROR\<close>, or \<open>OK\<close> with the message the benchmark stores under its key or with the empty
  value: no value is torn and none is that of another key, as long as no client counts to a thousand.
\<close>

theorem benchmark_concurrent:
  assumes "\<forall>u. \<forall>r \<in> set (rs u). benchmark_request r"
  shows "\<exists>s c. init_hashtable (True, True, True) HT_CAPACITY (empty_memory j) = Return (0, s) \<and>
    interleave schedule (s, \<lambda>u. idle (rs u)) = Return c \<and>
    (\<forall>u nr count g resp. (g, resp) \<in> set (answers (snd c u)) \<and> made GET nr count g \<and> - 1 \<le> count \<and> count < 1000 \<longrightarrow>
       resp \<in> {zero_response\<lparr>resp_code := KEY_ERROR\<rparr>, got_response [] zero_response,
               got_response (benchmark_message nr count) zero_response})"
proof -
  note sg = benchmark_sets_and_gets [OF assms]
  from init_hashtable_stores [OF empty_memory_start] obtain s where
    s: "init_hashtable (True, True, True) HT_CAPACITY (empty_memory j) = Return (0, s)" "stores s Map.empty" by blast
  from empty_store_buckets [OF s(2)] obtain tab where
    tab: "represents s table_size tab" "\<And>q. tab (bucket_of table_size q) = []" by blast
  from concurrent_requests_safe_run [OF tab(1) sg] obtain c t bs where
    c: "interleave schedule (s, \<lambda>u. idle (rs u)) = Return c" "config_inv (origin table_size tab rs) c t bs"
      "ht_capacity t = table_size" by blast
  have "resp \<in> {zero_response\<lparr>resp_code := KEY_ERROR\<rparr>, got_response [] zero_response,
               got_response (benchmark_message nr count) zero_response}"
    if a: "(g, resp) \<in> set (answers (snd c u))" "made GET nr count g" "- 1 \<le> count" "count < 1000" for u nr count g resp
  proof -
    have "thread_ok (origin table_size tab rs) (fst c) t bs (snd c u)" using c(2) by (simp add: config_inv_def)
    then have "answer_ok (origin table_size tab rs (bucket_of table_size (req_string g))) g resp"
      using a(1) c(3) by (force simp: thread_ok_def)
    moreover have "req_method g = GET" using a(2) by (simp add: made_def)
    ultimately consider "resp = zero_response\<lparr>resp_code := KEY_ERROR\<rparr>" | k v where "key_matches g k"
      "origin table_size tab rs (bucket_of table_size (req_string g)) k v" "resp = got_response v zero_response"
      by (auto simp: answer_ok_def)
    then show ?thesis
    proof cases
      case 1
      then show ?thesis by simp
    next
      case 2
      from 2(2) consider "v = []" | w u' where "w \<in> set (rs u')" "req_method w = SET"
        "bucket_of table_size (req_string w) = bucket_of table_size (req_string g)" "key_matches w k" "v = req_value w"
        using tab(2) by (auto simp: origin_def)
      then show ?thesis
      proof cases
        case 1
        with 2(3) show ?thesis by simp
      next
        case w: 2
        have "benchmark_request w" using assms w(1) by blast
        with w(2) obtain nr' c' where "made SET nr' c' w" "0 \<le> c'" "c' < 1000"
          unfolding benchmark_request_def made_def by auto
        from benchmark_match [OF this a(2-4) w(3,4) 2(1)] w(5) 2(3) show ?thesis by simp
      qed
    qed
  qed
  with s(1) c(1) show ?thesis by blast
qed

theorem benchmark_concurrent_witness:
  "\<exists>r q s c. set_into 3 99 zero_request = Return r \<and> get_into 3 99 r = Return q \<and>
     init_hashtable (True, True, True) HT_CAPACITY (empty_memory (\<lambda>_ _. 7)) = Return (0, s) \<and>
     interleave [0, 1, 0, 1, 0, 1, 1, 1, 0, 0]
       (s, \<lambda>u. idle ((\<lambda>u. if u = 0 then [r, q] else if u = 1 then [q] else []) u)) = Return c"
proof -
  obtain r where r: "set_into 3 99 zero_request = Return r" "request_wf r" "made SET 3 99 r"
    using set_into_run [of zero_request 3 99] by auto
  obtain q where q: "get_into 3 99 r = Return q" "made GET 3 99 q"
    using get_into_run [OF r(2), of 3 99] by auto
  have "\<exists>nr count. made SET nr count r \<and> 0 \<le> count \<and> count < 1000"
    using r(3) by (intro exI [of _ 3] exI [of _ 99]) simp
  moreover have "\<exists>nr count. made GET nr count q \<and> - 1 \<le> count \<and> count < 1000"
    using q(2) by (intro exI [of _ 3] exI [of _ 99]) simp
  ultimately have "\<forall>u. \<forall>x \<in> set ((\<lambda>u. if u = 0 then [r, q] else if u = 1 then [q] else []) (u :: tid)).
      benchmark_request x" by (simp add: benchmark_request_def)
  from benchmark_concurrent [OF this] r(1) q(1) show ?thesis by blast
qed

end
