(* ===== verification/Printing.thy ===== *)
theory Printing
  imports Common
begin

text \<open>
  What the functions of \<^verbatim>\<open>src/common.c\<close> that only print write to the terminal, the printing macros of
  \<^verbatim>\<open>src/common.h\<close>, the two functions \<open>usage\<close>, and \<open>allocate_request\<close>, which prints when it fails.
  A text that is printed is the list of its characters, or undefined where \<open>%s\<close> reads past an array.
  The macros read their arguments only when their flag is set.
\<close>

section \<open>Conversions of \<open>printf\<close>\<close>

definition put :: "string \<Rightarrow> byte list outcome" where
  "put cs = Return (bytes cs)"

definition newline :: "byte list outcome" where
  "newline = Return [10]"

definition put_s :: "byte list \<Rightarrow> byte list outcome" where
  "put_s buf = obind (strlen buf) (\<lambda>n. Return (take n buf))"

definition put_d :: "int \<Rightarrow> byte list outcome" where
  "put_d i = Return (decimal i)"

definition put_zu :: "size_t \<Rightarrow> byte list outcome" where
  "put_zu n = Return (decimal_nat (unat n))"

fun together :: "byte list outcome list \<Rightarrow> byte list outcome" where
  "together [] = Return []"
| "together (x # xs) = obind x (\<lambda>a. obind (together xs) (\<lambda>b. Return (a @ b)))"

lemma put_simps [simp]:
  "put cs = Return (bytes cs)" "newline = Return [10]" "put_d i = Return (decimal i)"
  "put_zu n = Return (decimal_nat (unat n))"
  by (simp_all add: put_def newline_def put_d_def put_zu_def)

lemma put_s_cstr: "cstr k buf \<Longrightarrow> put_s buf = Return k"
  by (simp add: put_s_def strlen_cstr cstr_take)

lemma strlen_unterminated: "0 \<notin> set buf \<Longrightarrow> strlen buf = Undefined Out_of_bounds"
  by (induction buf) auto

lemma put_s_eq: "put_s buf = (if 0 \<in> set buf then Return (cstr_of buf) else Undefined Out_of_bounds)"
  using put_s_cstr [OF cstr_cstr_of] by (simp add: put_s_def strlen_unterminated)

section \<open>The macros\<close>

text \<open>The number of the thread, the name of the file and the line, which stand before every message.\<close>

record place =
  place_tid :: int
  place_file :: string
  place_line :: int

definition pr_message :: "int \<Rightarrow> place \<Rightarrow> byte list outcome \<Rightarrow> byte list outcome" where
  "pr_message flag p text =
     (if flag = 0 then Return []
      else together [put ''{'', put_d (place_tid p), put ''} ['', put (place_file p), put '':'', put_d (place_line p), put ''] '',
        text])"

definition error :: "int \<Rightarrow> place \<Rightarrow> byte list outcome \<Rightarrow> byte list outcome" where
  "error verbose p text = pr_message verbose p (together [text, newline])"

definition pr_info :: "int \<Rightarrow> place \<Rightarrow> byte list outcome \<Rightarrow> byte list outcome" where
  "pr_info verbose p text = pr_message verbose p text"

definition pr_debug :: "int \<Rightarrow> place \<Rightarrow> byte list outcome \<Rightarrow> byte list outcome" where
  "pr_debug debug p text = pr_message debug p text"

section \<open>Functions\<close>

text \<open>The argument \<open>malloc\<close> is what the allocation gives: \<open>NULL\<close>, or a structure with any contents.\<close>

definition allocate_request ::
  "int \<Rightarrow> place \<Rightarrow> request option \<Rightarrow> (request option \<times> byte list) outcome" where
  "allocate_request debug p malloc =
     (case malloc of
        None \<Rightarrow> obind (pr_debug debug p (put ''error in memory allocation'')) (\<lambda>out. Return (None, out))
      | Some r \<Rightarrow> Return (Some r, []))"

definition print_request :: "int \<Rightarrow> place \<Rightarrow> request \<Rightarrow> byte list outcome" where
  "print_request verbose p request =
     pr_info verbose p (together
       [put ''Request:'', newline,
        put ''Method: '', put_s (method_to_str (req_method request)), newline,
        put ''Key: '', put_s (req_key request), newline,
        put ''Key_len: '', put_zu (req_key_len request), newline,
        put ''Message_len: '', put_zu (req_msg_len request), newline,
        put ''Connection_closed: '', put_d (req_connection_close request), newline,
        put ''Msg: '', put_s (req_msg request), newline])"

definition print_response :: "int \<Rightarrow> place \<Rightarrow> response \<Rightarrow> byte list outcome" where
  "print_response verbose p response =
     pr_info verbose p (together
       [put ''Response:'', newline,
        put ''Code: '', put_s (code_msg (code_value (resp_code response))), newline,
        put ''Msg: '', put_s (resp_msg response), newline,
        put ''Msg_len: '', put_zu (resp_msg_len response), newline])"

text \<open>\<open>usage\<close> of the server and of the benchmark.\<close>

definition server_usage :: "byte list \<Rightarrow> byte list outcome" where
  "server_usage prog = together
     [put ''Usage '', put_s prog, put '' [--help -h] [--verbose -v] [--debug -d] '',
      put ''[--port -p] [--rdma -r]'', newline,
      put ''--help -h'', newline, Return [9], put '' Print help message'', newline,
      put ''--verbose -v'', newline, Return [9], put '' Print info messages'', newline,
      put ''--debug -d'', newline, Return [9], put '' Print debug info'', newline,
      put ''--port -p'', newline, Return [9], put '' Port to bind on. Default: 35304'', newline,
      put ''--rdma -r'', newline, Return [9], put '' Use RDMA. Choose rc, uc, or ud.'', newline,
      put ''--blocking -b'', newline, Return [9],
      put '' Use completion events for RDMA. This will cause threads to block until new completion event is generated.'',
      newline]"

definition benchmark_usage :: "byte list outcome" where
  "benchmark_usage = together
     [put ''Usage:'', newline,
      put ''RDMA KV Store Benchmark: [-a <server_addr>] [-p <server_port>] [-n <number of clients>] [-r <rc,uc,ud>] '',
      put ''[-d] [-v] [-o <number of operations per client>] [-b] [--no-save]'', newline,
      put ''(default uses 1 client and server with IP 127.0.0.1, using tcp, and port is '', put_d (int PORT), put '')'',
      newline]"

section \<open>When printing is defined\<close>

lemma together_append:
  "together (xs @ ys) = obind (together xs) (\<lambda>a. obind (together ys) (\<lambda>b. Return (a @ b)))"
  by (induction xs) (simp_all add: obind_assoc)

lemma together_defined: "(\<exists>out. together xs = Return out) \<longleftrightarrow> (\<forall>x \<in> set xs. \<exists>a. x = Return a)"
  by (induction xs) (auto simp: obind_eq_Return)

lemma pr_message_quiet [simp]: "pr_message 0 p text = Return []"
  by (simp add: pr_message_def)

lemma pr_message_defined: "(\<exists>out. pr_message flag p text = Return out) \<longleftrightarrow> flag = 0 \<or> (\<exists>a. text = Return a)"
  unfolding pr_message_def using together_defined by (auto simp: obind_eq_Return)

lemma put_s_defined: "(\<exists>out. put_s buf = Return out) \<longleftrightarrow> 0 \<in> set buf"
  by (simp add: put_s_eq)

lemma names_terminated: "0 \<in> set (method_to_str m)" "0 \<in> set (code_msg (code_value c))"
  by (cases m; simp add: conversion_defs) (cases c; simp add: conversion_defs)

text \<open>
  With the flag \<open>verbose\<close>, \<open>print_request\<close> and \<open>print_response\<close> read past the message when it has no
  terminating zero, as a value of 256 characters has none, although the length of the message is known.
\<close>

lemma print_request_defined:
  "(\<exists>out. print_request verbose p r = Return out) \<longleftrightarrow>
     verbose = 0 \<or> 0 \<in> set (req_key r) \<and> 0 \<in> set (req_msg r)"
  unfolding print_request_def pr_info_def pr_message_defined together_defined
  by (simp add: put_s_defined names_terminated)

lemma print_response_defined:
  "(\<exists>out. print_response verbose p r = Return out) \<longleftrightarrow> verbose = 0 \<or> 0 \<in> set (resp_msg r)"
  unfolding print_response_def pr_info_def pr_message_defined together_defined
  using names_terminated(2) by (simp add: put_s_defined del: code_msg.simps)

lemma full_value_is_not_printed:
  assumes "0 \<notin> set v" and "length v = MSG_SIZE" and "verbose \<noteq> 0"
  shows "\<nexists>out. print_response verbose p (zero_response\<lparr>resp_msg := v, resp_msg_len := of_nat MSG_SIZE\<rparr>) = Return out"
  using assms unfolding print_response_defined by simp

end
