(* ===== verification/Throughput.thy ===== *)
theory Throughput
  imports Benchmark Complex_Main
begin

text \<open>
  The throughputs \<^verbatim>\<open>src/benchmarking/benchmark.c\<close> prints. A \<open>double\<close> is the real number it stands for, and
  the argument \<open>rnd\<close> rounds the exact result of an operation to a \<open>double\<close>; no operation here overflows.
  The theorems hold for every rounding with a bounded relative error, which for \<open>double\<close> is \<open>2 ^ - 53\<close>.
\<close>

definition time_in_sec :: "(real \<Rightarrow> real) \<Rightarrow> int \<times> int \<Rightarrow> real" where
  "time_in_sec rnd time = rnd (rnd (of_int (fst time)) + rnd (rnd (of_int (snd time)) / 1000000))"

definition time_in_msec :: "(real \<Rightarrow> real) \<Rightarrow> int \<times> int \<Rightarrow> real" where
  "time_in_msec rnd time =
     rnd (rnd (rnd (of_int (fst time)) * 1000) + rnd (rnd (of_int (snd time)) / 1000))"

definition process_ops_sec ::
  "(real \<Rightarrow> real) \<Rightarrow> timeval option option \<Rightarrow> timeval option option \<Rightarrow> 32 word \<Rightarrow> real outcome" where
  "process_ops_sec rnd start end num_ops_in_time_frame =
     obind (time_taken start end) (\<lambda>time.
     let time_taken_sec = time_in_sec rnd time
     in Return (if time_taken_sec > 0 then rnd (of_nat (unat num_ops_in_time_frame) / time_taken_sec) else 0))"

text \<open>
  Whether it is defined depends on the two times only, which \<^const>\<open>data_processing\<close> and
  \<^const>\<open>benchmark_main\<close> read in the same way.
\<close>

lemma process_ops_sec_defined:
  "(\<exists>x. process_ops_sec rnd start end n = Return x) \<longleftrightarrow> (\<exists>t. time_taken start end = Return t)"
  by (cases "time_taken start end") (auto simp: process_ops_sec_def Let_def)

definition rounds :: "real \<Rightarrow> (real \<Rightarrow> real) \<Rightarrow> bool" where
  "rounds \<epsilon> rnd \<longleftrightarrow> (\<forall>x. \<bar>rnd x - x\<bar> \<le> \<epsilon> * \<bar>x\<bar>)"

text \<open>\<open>near k \<epsilon> x y\<close>: \<open>y\<close> comes from the positive number \<open>x\<close> by \<open>k\<close> roundings.\<close>

definition near :: "nat \<Rightarrow> real \<Rightarrow> real \<Rightarrow> real \<Rightarrow> bool" where
  "near k \<epsilon> x y \<longleftrightarrow> (1 - \<epsilon>) ^ k * x \<le> y \<and> y \<le> (1 + \<epsilon>) ^ k * x"

lemma near_self: "near 0 \<epsilon> x x"
  by (simp add: near_def)

lemma near_rnd:
  assumes "rounds \<epsilon> rnd" and "0 \<le> \<epsilon>" "\<epsilon> < 1" and "near k \<epsilon> x y" and "0 \<le> x"
  shows "near (Suc k) \<epsilon> x (rnd y)"
proof -
  have y: "(1 - \<epsilon>) ^ k * x \<le> y" "y \<le> (1 + \<epsilon>) ^ k * x" using assms(4) by (simp_all add: near_def)
  moreover have "0 \<le> (1 - \<epsilon>) ^ k * x" using assms(3,5) by simp
  ultimately have "0 \<le> y" by linarith
  with assms(1) have "\<bar>rnd y - y\<bar> \<le> \<epsilon> * y" by (metis rounds_def abs_of_nonneg)
  then have "(1 - \<epsilon>) * y \<le> rnd y" "rnd y \<le> (1 + \<epsilon>) * y" by (auto simp: algebra_simps abs_le_iff)
  moreover have "(1 - \<epsilon>) * ((1 - \<epsilon>) ^ k * x) \<le> (1 - \<epsilon>) * y" using y(1) assms(3) by (intro mult_left_mono) auto
  moreover have "(1 + \<epsilon>) * y \<le> (1 + \<epsilon>) * ((1 + \<epsilon>) ^ k * x)" using y(2) assms(2) by (intro mult_left_mono) auto
  ultimately show ?thesis by (simp add: near_def mult.assoc)
qed

lemma near_add: "near k \<epsilon> a x \<Longrightarrow> near k \<epsilon> b y \<Longrightarrow> near k \<epsilon> (a + b) (x + y)"
  by (simp add: near_def distrib_left)

lemma near_scale: "near k \<epsilon> a x \<Longrightarrow> 0 < c \<Longrightarrow> near k \<epsilon> (a / c) (x / c)"
  by (simp add: near_def divide_right_mono)

lemma near_more:
  assumes "near k \<epsilon> x y" and "0 \<le> \<epsilon>" "\<epsilon> < 1" and "0 \<le> x" and "k \<le> l"
  shows "near l \<epsilon> x y"
proof -
  have "(1 - \<epsilon>) ^ l \<le> (1 - \<epsilon>) ^ k" using assms(2,3,5) by (intro power_decreasing) auto
  then have "(1 - \<epsilon>) ^ l * x \<le> (1 - \<epsilon>) ^ k * x" using assms(4) by (rule mult_right_mono)
  moreover have "(1 + \<epsilon>) ^ k \<le> (1 + \<epsilon>) ^ l" using assms(2,5) by (intro power_increasing) auto
  then have "(1 + \<epsilon>) ^ k * x \<le> (1 + \<epsilon>) ^ l * x" using assms(4) by (rule mult_right_mono)
  ultimately show ?thesis using assms(1) unfolding near_def by linarith
qed

text \<open>The seconds the program computes differ from the exact ones by at most three roundings.\<close>

lemma time_in_sec_near:
  assumes r: "rounds \<epsilon> rnd" "0 \<le> \<epsilon>" "\<epsilon> < 1" and "0 \<le> fst time" "0 \<le> snd time"
  shows "near 3 \<epsilon> (time_in_sec id time) (time_in_sec rnd time)"
proof -
  let ?a = "of_int (fst time) :: real" and ?b = "of_int (snd time) :: real"
  have nn: "0 \<le> ?a" "0 \<le> ?b" using assms(4,5) by simp_all
  have "near 1 \<epsilon> ?a (rnd ?a)" "near 1 \<epsilon> ?b (rnd ?b)" using near_rnd [OF r near_self] nn by simp_all
  then have "near 2 \<epsilon> ?a (rnd ?a)" "near 1 \<epsilon> (?b / 1000000) (rnd ?b / 1000000)"
    using near_more [OF _ r(2,3) nn(1)] by (auto intro: near_scale)
  moreover have "near 2 \<epsilon> (?b / 1000000) (rnd (rnd ?b / 1000000))"
    using near_rnd [OF r calculation(2)] nn by (simp add: numeral_2_eq_2)
  ultimately have "near 2 \<epsilon> (?a + ?b / 1000000) (rnd ?a + rnd (rnd ?b / 1000000))" by (intro near_add)
  from near_rnd [OF r this] nn show ?thesis by (simp add: time_in_sec_def numeral_3_eq_3 numeral_2_eq_2)
qed

text \<open>
  The throughput is the number of operations by the seconds they took, up to rounding; when the clock has
  not moved it is 0.
\<close>

lemma throughput_bounds:
  assumes r: "rounds \<epsilon> rnd" "0 \<le> \<epsilon>" "\<epsilon> < 1"
    and time: "time_taken start end = Return time" "0 \<le> fst time" "0 \<le> snd time" "time \<noteq> (0, 0)"
  shows "\<exists>x. process_ops_sec rnd start end n = Return x \<and>
    (1 - \<epsilon>) * (of_nat (unat n) / ((1 + \<epsilon>) ^ 3 * time_in_sec id time)) \<le> x \<and>
    x \<le> (1 + \<epsilon>) * (of_nat (unat n) / ((1 - \<epsilon>) ^ 3 * time_in_sec id time))"
proof -
  let ?t = "time_in_sec id time" and ?u = "time_in_sec rnd time" and ?n = "of_nat (unat n) :: real"
  have "0 < fst time \<or> 0 < snd time" using time(2-4) by (cases time) auto
  then have t: "0 < ?t" using time(2,3) by (auto simp: time_in_sec_def add_pos_nonneg add_nonneg_pos)
  have u: "(1 - \<epsilon>) ^ 3 * ?t \<le> ?u" "?u \<le> (1 + \<epsilon>) ^ 3 * ?t"
    using time_in_sec_near [OF r time(2,3)] by (simp_all add: near_def)
  have n: "0 \<le> ?n" by (rule of_nat_0_le_iff)
  have low: "0 < (1 - \<epsilon>) ^ 3 * ?t" using r(3) t by simp
  with u(1) have pos: "0 < ?u" by linarith
  have "0 \<le> ?n / ?u" using n pos by (intro divide_nonneg_pos)
  from near_rnd [OF r near_self this] have "near 1 \<epsilon> (?n / ?u) (rnd (?n / ?u))" by simp
  then have x: "(1 - \<epsilon>) * (?n / ?u) \<le> rnd (?n / ?u)" "rnd (?n / ?u) \<le> (1 + \<epsilon>) * (?n / ?u)"
    by (simp_all add: near_def)
  have "?n / ((1 + \<epsilon>) ^ 3 * ?t) \<le> ?n / ?u" using u(2) n pos by (intro divide_left_mono) auto
  then have "(1 - \<epsilon>) * (?n / ((1 + \<epsilon>) ^ 3 * ?t)) \<le> (1 - \<epsilon>) * (?n / ?u)" using r(3) by (intro mult_left_mono) auto
  moreover have "?n / ?u \<le> ?n / ((1 - \<epsilon>) ^ 3 * ?t)" using u(1) n low pos by (intro divide_left_mono) auto
  then have "(1 + \<epsilon>) * (?n / ?u) \<le> (1 + \<epsilon>) * (?n / ((1 - \<epsilon>) ^ 3 * ?t))" using r(2) by (intro mult_left_mono) auto
  ultimately show ?thesis using x pos time(1) by (auto simp: process_ops_sec_def Let_def)
qed

lemma throughput_without_time:
  assumes "rounds \<epsilon> rnd" and "time_taken start end = Return (0, 0)"
  shows "process_ops_sec rnd start end n = Return 0"
proof -
  have "rnd 0 = 0" using assms(1) by (auto simp: rounds_def dest: spec [of _ 0])
  then show ?thesis using assms(2) by (simp add: process_ops_sec_def time_in_sec_def Let_def)
qed

end
